(* ===== verification/Prelude.thy ===== *)
theory Prelude
  imports Complex_Main
    "HOL-Library.Multiset"
    "HOL-Library.Char_ord"
    "HOL-Library.List_Lexorder"
    "HOL-Library.Product_Lexorder"
    "HOL-Library.Monad_Syntax"
    "HOL-Library.Sublist"
begin

text \<open>
  Shared vocabulary of the development: instants and durations as Go's \<open>time\<close> package has
  them, the sort package (\<open>sort.Slice\<close>, \<open>sort.SliceStable\<close>) over a Go \<open>less\<close> function, the
  comparator contract such a function owes its caller (a locale), and generic lemmas on
  lists and options.

  Conventions. A Go struct is a \<^theory_text>\<open>record\<close>, whose field names carry a short prefix because
  record fields are global constants. A Go string type with declared constants is a datatype
  with one constructor per constant and one, \<open>\<dots>Other\<close>, for every other string. A nil-able
  pointer is an \<open>option\<close>. Go's \<open>int\<close> is \<^typ>\<open>int\<close>: every quantity of the model (cores,
  mebibytes, slots, ranks) is far below the width of the machine word. An index out of range,
  where the source panics, is the value \<^const>\<open>None\<close>.
\<close>

section \<open>Collections of facts\<close>

named_theorems fleet_eval \<open>defining equations that evaluate the model on closed inputs\<close>
named_theorems perm_simps \<open>an operation keeps the multiset of its list\<close>

section \<open>Instants and durations\<close>

text \<open>
  A \<open>time.Time\<close> is the number of nanoseconds since Go's zero instant (January 1 of year 1,
  UTC), so \<open>IsZero\<close> is equality with 0 and \<open>Before\<close>, \<open>After\<close> and \<open>Equal\<close> are the order of
  the integers. A \<open>time.Duration\<close> counts nanoseconds; \<open>Time.Sub\<close> saturates at the ends of
  the signed 64-bit range instead of wrapping.
\<close>

type_synonym time = int
type_synonym duration = int

abbreviation time_IsZero :: "time \<Rightarrow> bool" where
  "time_IsZero t \<equiv> t = 0"

definition max_Duration :: duration where
  "max_Duration = 2 ^ 63 - 1"

definition min_Duration :: duration where
  "min_Duration = - (2 ^ 63)"

definition time_Sub :: "time \<Rightarrow> time \<Rightarrow> duration" where
  "time_Sub a b = max min_Duration (min max_Duration (a - b))"

abbreviation second :: duration where "second \<equiv> 1000000000"
abbreviation minute :: duration where "minute \<equiv> 60000000000"

lemmas [fleet_eval] = max_Duration_def min_Duration_def time_Sub_def

lemma time_Sub_mono: "a \<le> a' \<Longrightarrow> time_Sub a b \<le> time_Sub a' b"
  by (auto simp: time_Sub_def)

lemma time_Sub_antimono: "b' \<le> b \<Longrightarrow> time_Sub a b \<le> time_Sub a b'"
  by (auto simp: time_Sub_def)

lemma time_Sub_exact:
  "min_Duration \<le> a - b \<Longrightarrow> a - b \<le> max_Duration \<Longrightarrow> time_Sub a b = a - b"
  by (simp add: time_Sub_def)

lemma time_Sub_nonneg: "b \<le> a \<Longrightarrow> 0 \<le> time_Sub a b"
  by (simp add: time_Sub_def max_Duration_def min_Duration_def)

lemma time_Sub_ge_iff:
  "min_Duration < d \<Longrightarrow> d \<le> max_Duration \<Longrightarrow> d \<le> time_Sub a b \<longleftrightarrow> d \<le> a - b"
  by (auto simp: time_Sub_def)

lemma time_Sub_le: "b \<le> a \<Longrightarrow> time_Sub a b \<le> a - b"
  by (auto simp: time_Sub_def max_Duration_def min_Duration_def)

section \<open>The sort package\<close>

text \<open>
  \<open>sort_slice lt xs\<close> is the list \<open>sort.SliceStable(xs, less)\<close> leaves behind: the stable
  sort under the given \<open>less\<close>. \<open>sort.Slice\<close> makes no promise about ties; every caller of it
  in the planner breaks ties by a unique key, and \<open>sort_slice_unique\<close> below shows that the
  result is then the only sorted permutation there is.
\<close>

fun insort_by :: "('a \<Rightarrow> 'a \<Rightarrow> bool) \<Rightarrow> 'a \<Rightarrow> 'a list \<Rightarrow> 'a list" where
  "insort_by lt x [] = [x]"
| "insort_by lt x (y # ys) = (if lt y x then y # insort_by lt x ys else x # y # ys)"

fun sort_slice :: "('a \<Rightarrow> 'a \<Rightarrow> bool) \<Rightarrow> 'a list \<Rightarrow> 'a list" where
  "sort_slice lt [] = []"
| "sort_slice lt (x # xs) = insort_by lt x (sort_slice lt xs)"

lemma mset_insort_by [simp]: "mset (insort_by lt x xs) = add_mset x (mset xs)"
  by (induction xs) auto

lemma mset_sort_slice [simp, perm_simps]: "mset (sort_slice lt xs) = mset xs"
  by (induction xs) auto

lemma set_sort_slice [simp]: "set (sort_slice lt xs) = set xs"
  by (metis mset_sort_slice set_mset_mset)

lemma length_sort_slice [simp]: "length (sort_slice lt xs) = length xs"
  by (metis mset_sort_slice size_mset)

lemma distinct_sort_slice [simp]: "distinct (sort_slice lt xs) = distinct xs"
  by (metis mset_eq_imp_distinct_iff mset_sort_slice)

lemma sort_slice_eq_Nil [simp]: "sort_slice lt xs = [] \<longleftrightarrow> xs = []"
  by (metis length_0_conv length_sort_slice)

text \<open>
  The contract of a \<open>less\<close> function: a strict weak order. The sort package documents that
  its result is only meaningful for such a function, so every comparator of the model
  discharges it by an interpretation.
\<close>

locale less_order =
  fixes lt :: "'a \<Rightarrow> 'a \<Rightarrow> bool"
  assumes less_irrefl: "\<not> lt x x"
    and less_trans: "lt x y \<Longrightarrow> lt y z \<Longrightarrow> lt x z"
    and incomp_trans: "\<not> lt x y \<Longrightarrow> \<not> lt y z \<Longrightarrow> \<not> lt x z"
begin

lemma less_asym: "lt x y \<Longrightarrow> \<not> lt y x"
  using less_irrefl less_trans by blast

lemma sorted_insort_by:
  "sorted_wrt (\<lambda>a b. \<not> lt b a) xs \<Longrightarrow> sorted_wrt (\<lambda>a b. \<not> lt b a) (insort_by lt x xs)"
proof (induction xs)
  case Nil
  then show ?case by simp
next
  case (Cons y ys)
  have set_ins: "set (insort_by lt x ys) = insert x (set ys)"
    by (metis mset_insort_by set_mset_add_mset_insert set_mset_mset)
  show ?case
  proof (cases "lt y x")
    case True
    then have "\<not> lt x y" by (rule less_asym)
    with Cons True show ?thesis by (auto simp: set_ins)
  next
    case False
    with Cons.prems incomp_trans show ?thesis by auto
  qed
qed

lemma sorted_sort_slice: "sorted_wrt (\<lambda>a b. \<not> lt b a) (sort_slice lt xs)"
  by (induction xs) (auto intro: sorted_insort_by)

lemma filter_insort_by:
  assumes "\<And>y. P y \<Longrightarrow> P x \<Longrightarrow> \<not> lt y x"
  shows "filter P (insort_by lt x xs) = (if P x then x # filter P xs else filter P xs)"
  using assms by (induction xs) auto

text \<open>Stability: elements that \<open>less\<close> does not tell apart keep their order.\<close>

lemma sort_slice_stable:
  assumes "\<And>a b. P a \<Longrightarrow> P b \<Longrightarrow> \<not> lt a b"
  shows "filter P (sort_slice lt xs) = filter P xs"
proof (induction xs)
  case Nil
  then show ?case by simp
next
  case (Cons x xs)
  with assms show ?case by (simp add: filter_insort_by)
qed

lemma insort_by_least:
  assumes "\<forall>y \<in> set xs. \<not> lt y x"
  shows "insort_by lt x xs = x # xs"
  using assms by (cases xs) auto

text \<open>A stable sort commutes with every filter.\<close>

lemma filter_insort_sorted:
  "sorted_wrt (\<lambda>a b. \<not> lt b a) ys \<Longrightarrow>
     filter P (insort_by lt x ys) = (if P x then insort_by lt x (filter P ys) else filter P ys)"
proof (induction ys)
  case (Cons y ys)
  have "insort_by lt x (filter P ys) = x # filter P ys" if "\<not> lt y x"
    using that Cons.prems incomp_trans by (intro insort_by_least) auto
  with Cons show ?case by auto
qed simp

lemma filter_sort_slice: "filter P (sort_slice lt xs) = sort_slice lt (filter P xs)"
  by (induction xs) (auto simp: filter_insort_sorted sorted_sort_slice)

lemma sort_slice_sorted:
  "sorted_wrt (\<lambda>a b. \<not> lt b a) xs \<Longrightarrow> sort_slice lt xs = xs"
  by (induction xs) (auto simp: insort_by_least)

lemma sorted_unique:
  assumes "mset xs = mset ys"
    and "sorted_wrt (\<lambda>a b. \<not> lt b a) xs" and "sorted_wrt (\<lambda>a b. \<not> lt b a) ys"
    and total: "\<And>a b. a \<in> set xs \<Longrightarrow> b \<in> set xs \<Longrightarrow> a \<noteq> b \<Longrightarrow> lt a b \<or> lt b a"
  shows "xs = ys"
  using assms
proof (induction xs arbitrary: ys)
  case Nil
  then show ?case by simp
next
  case (Cons x xs)
  then obtain y ys' where ys: "ys = y # ys'" by (cases ys) auto
  have "x = y"
  proof (rule ccontr)
    assume "x \<noteq> y"
    have "y \<in> set (x # xs)" and "x \<in> set (y # ys')"
      using Cons.prems(1) ys by (metis list.set_intros(1) set_mset_mset)+
    with \<open>x \<noteq> y\<close> Cons.prems ys show False by auto
  qed
  with Cons.prems ys Cons.IH [of ys'] show ?case by auto
qed

text \<open>Without ties the sorted permutation is unique, whatever algorithm produced it.\<close>

lemma sort_slice_unique:
  assumes "mset ys = mset xs" and "sorted_wrt (\<lambda>a b. \<not> lt b a) ys"
    and "\<And>a b. a \<in> set xs \<Longrightarrow> b \<in> set xs \<Longrightarrow> a \<noteq> b \<Longrightarrow> lt a b \<or> lt b a"
  shows "sort_slice lt xs = ys"
  using sorted_unique [of "sort_slice lt xs" ys] assms sorted_sort_slice by simp

end

text \<open>Most comparators compare a key: a strict weak order by construction.\<close>

locale keyed_order =
  fixes lt :: "'a \<Rightarrow> 'a \<Rightarrow> bool" and key :: "'a \<Rightarrow> 'k::linorder"
  assumes less_key: "lt x y \<longleftrightarrow> key x < key y"
begin

sublocale less_order lt
  by unfold_locales (auto simp: less_key)

lemma sorted_key: "sorted (map key (sort_slice lt xs))"
proof -
  have "sorted_wrt (\<lambda>a b. \<not> lt b a) (sort_slice lt xs)"
    by (rule sorted_sort_slice)
  then show ?thesis
    by (simp add: sorted_wrt_map less_key not_less)
qed

lemma sort_slice_sorted_key: "sorted (map key xs) \<Longrightarrow> sort_slice lt xs = xs"
  by (rule sort_slice_sorted) (simp add: sorted_wrt_map less_key not_less)

lemma sort_slice_unique_key:
  assumes "mset ys = mset xs" and "sorted (map key ys)" and "inj_on key (set xs)"
  shows "sort_slice lt xs = ys"
proof (rule sort_slice_unique [OF assms(1)])
  show "sorted_wrt (\<lambda>a b. \<not> lt b a) ys"
    using assms(2) by (simp add: sorted_wrt_map less_key not_less)
next
  fix a b assume "a \<in> set xs" "b \<in> set xs" "a \<noteq> b"
  then show "lt a b \<or> lt b a"
    using assms(3) by (metis inj_onD less_key neqE)
qed

end

interpretation key_lt: keyed_order "\<lambda>a b. key a < key b" key for key :: "'a \<Rightarrow> 'k::linorder"
  by unfold_locales simp

section \<open>Lists\<close>

lemma sum_list_append_int [simp]: "sum_list (map f (xs @ ys)) = sum_list (map f xs) + (sum_list (map f ys) :: int)"
  by simp

lemma mset_filter_partition:
  "mset (filter P xs) + mset (filter (\<lambda>x. \<not> P x) xs) = mset xs"
  by (induction xs) auto

lemma distinct_map_filterI: "distinct (map f xs) \<Longrightarrow> distinct (map f (filter P xs))"
  by (induction xs) auto

lemma distinct_map_mset:
  "mset xs = mset ys \<Longrightarrow> distinct (map f xs) \<longleftrightarrow> distinct (map f ys)"
  by (metis mset_eq_imp_distinct_iff mset_map)

end
