(* ===== verification/Guest_Liveness.thy ===== *)
theory Guest_Liveness
  imports Prelude
begin

text \<open>
  \<open>internal/domain/guestliveness.go\<close>: the three-valued outcome of a liveness probe, the
  accumulator of an unbroken run of refusals, and the policy that confirms a run. The locale
  \<open>observation_source\<close> is the contract of whatever is folded into the accumulator; the guest
  probe interprets it here and the backend's power reading in \<open>Corroboration\<close>.
\<close>

section \<open>Data\<close>

datatype GuestLiveness =
    GuestLivenessUnknown
  | GuestLivenessAlive
  | GuestLivenessRefused
  | GuestLivenessOther string

record GuestLivenessPolicy =
  GP_ConsecutiveRefusals :: int
  GP_Window :: duration

record GuestLivenessState =
  GL_Refusals :: int
  GL_RefusedSince :: time
  GL_LastAlive :: time
  GL_LastProbe :: time

definition zero_GuestLivenessState :: GuestLivenessState where
  "zero_GuestLivenessState = \<lparr>GL_Refusals = 0, GL_RefusedSince = 0, GL_LastAlive = 0, GL_LastProbe = 0\<rparr>"

section \<open>Operations\<close>

definition Enabled :: "GuestLivenessPolicy \<Rightarrow> bool" where
  "Enabled p \<longleftrightarrow> GP_ConsecutiveRefusals p > 0 \<and> GP_Window p > 0"

definition Observe :: "GuestLivenessPolicy \<Rightarrow> GuestLivenessState \<Rightarrow> GuestLiveness \<Rightarrow> time \<Rightarrow> GuestLivenessState" where
  "Observe p state liveness now =
     (let nxt = state\<lparr>GL_LastProbe := now\<rparr> in
      case liveness of
        GuestLivenessRefused \<Rightarrow>
          nxt\<lparr>GL_Refusals := GL_Refusals state + 1,
              GL_RefusedSince := (if time_IsZero (GL_RefusedSince state) then now else GL_RefusedSince state)\<rparr>
      | GuestLivenessAlive \<Rightarrow> nxt\<lparr>GL_Refusals := 0, GL_RefusedSince := 0, GL_LastAlive := now\<rparr>
      | _ \<Rightarrow> nxt\<lparr>GL_Refusals := 0, GL_RefusedSince := 0\<rparr>)"

definition Silence :: "GuestLivenessState \<Rightarrow> time \<Rightarrow> duration \<times> bool" where
  "Silence s now =
     (if time_IsZero (GL_RefusedSince s) \<or> now < GL_RefusedSince s then (0, False)
      else (time_Sub now (GL_RefusedSince s), True))"

definition Confirmed :: "GuestLivenessPolicy \<Rightarrow> GuestLivenessState \<Rightarrow> time \<Rightarrow> bool" where
  "Confirmed p state now =
     (if \<not> Enabled p \<or> GL_Refusals state < GP_ConsecutiveRefusals p then False
      else (case Silence state now of (silence, measured) \<Rightarrow> measured \<and> GP_Window p \<le> silence))"

lemmas [fleet_eval] =
  zero_GuestLivenessState_def Enabled_def Observe_def Silence_def Confirmed_def

section \<open>The accumulator against the history it summarises\<close>

text \<open>
  A history is the list of readings with the instants they completed, oldest first. The
  accumulator keeps two numbers of it; what they have to mean is a statement about the whole
  history: the readings after the last one that was not hostile.
\<close>

definition hostile_run :: "('r \<Rightarrow> bool) \<Rightarrow> ('r \<times> time) list \<Rightarrow> ('r \<times> time) list" where
  "hostile_run hostile h = rev (takeWhile (\<lambda>(r, _). hostile r) (rev h))"

definition run_start :: "('r \<times> time) list \<Rightarrow> time" where
  "run_start run = (case run of [] \<Rightarrow> 0 | (_, t) # _ \<Rightarrow> t)"

lemma hostile_run_snoc:
  "hostile_run hostile (h @ [(r, t)]) = (if hostile r then hostile_run hostile h @ [(r, t)] else [])"
  by (simp add: hostile_run_def)

lemma hostile_run_Nil [simp]: "hostile_run hostile [] = []"
  by (simp add: hostile_run_def)

lemma set_hostile_run: "set (hostile_run hostile h) \<subseteq> set h"
  by (auto simp: hostile_run_def dest: set_takeWhileD)

lemma hostile_run_suffix: "\<exists>h'. h = h' @ hostile_run hostile h"
  unfolding hostile_run_def
  by (metis rev_append rev_rev_ident takeWhile_dropWhile_id)

lemma hostile_run_all: "(r, t) \<in> set (hostile_run hostile h) \<Longrightarrow> hostile r"
  by (auto simp: hostile_run_def dest: set_takeWhileD)

locale observation_source =
  fixes signal :: "'r \<Rightarrow> GuestLiveness" and hostile :: "'r \<Rightarrow> bool"
  assumes signal_hostile: "signal r = GuestLivenessRefused \<longleftrightarrow> hostile r"
begin

definition observe_all :: "GuestLivenessPolicy \<Rightarrow> ('r \<times> time) list \<Rightarrow> GuestLivenessState" where
  "observe_all p h = foldl (\<lambda>s (r, t). Observe p s (signal r) t) zero_GuestLivenessState h"

lemma observe_all_snoc:
  "observe_all p (h @ [(r, t)]) = Observe p (observe_all p h) (signal r) t"
  by (simp add: observe_all_def)

lemma Observe_hostile:
  "GL_Refusals (Observe p s (signal r) t) = (if hostile r then GL_Refusals s + 1 else 0)"
  "GL_RefusedSince (Observe p s (signal r) t) =
     (if hostile r then if GL_RefusedSince s = 0 then t else GL_RefusedSince s else 0)"
  using signal_hostile [of r] by (auto simp: Observe_def Let_def split: GuestLiveness.splits)

lemma observe_all_run:
  assumes "\<forall>(r, t) \<in> set h. t \<noteq> 0"
  shows "GL_Refusals (observe_all p h) = int (length (hostile_run hostile h))
    \<and> GL_RefusedSince (observe_all p h) = run_start (hostile_run hostile h)"
  using assms
proof (induction h rule: rev_induct)
  case Nil
  then show ?case by (simp add: observe_all_def zero_GuestLivenessState_def run_start_def)
next
  case (snoc x h)
  obtain r t where x: "x = (r, t)" by force
  have "run_start (hostile_run hostile h) = 0 \<longleftrightarrow> hostile_run hostile h = []"
    using snoc.prems set_hostile_run [of hostile h]
    by (auto simp: run_start_def split: list.splits)
  with snoc show ?case
    by (auto simp: x observe_all_snoc Observe_hostile hostile_run_snoc run_start_def split: list.splits)
qed

lemma confirmed_run:
  assumes "\<forall>(r, t) \<in> set h. t \<noteq> 0"
  shows "Confirmed p (observe_all p h) now \<longleftrightarrow>
    Enabled p
    \<and> GP_ConsecutiveRefusals p \<le> int (length (hostile_run hostile h))
    \<and> run_start (hostile_run hostile h) \<le> now
    \<and> GP_Window p \<le> time_Sub now (run_start (hostile_run hostile h))"
proof -
  have "Enabled p \<Longrightarrow> GP_ConsecutiveRefusals p \<le> int (length (hostile_run hostile h)) \<Longrightarrow>
      run_start (hostile_run hostile h) \<noteq> 0"
    using assms set_hostile_run [of hostile h]
    by (auto simp: run_start_def Enabled_def split: list.splits)
  then show ?thesis
    using observe_all_run [OF assms, of p] by (auto simp: Confirmed_def Silence_def)
qed

text \<open>One contrary or inconclusive reading resets the premise to nothing.\<close>

lemma contrary_reading_resets:
  "\<not> hostile r \<Longrightarrow> \<not> Confirmed p (observe_all p (h @ [(r, t)])) now"
  using Observe_hostile by (auto simp: observe_all_snoc Confirmed_def Silence_def Enabled_def)

end

interpretation guest_probe: observation_source "\<lambda>l. l" "\<lambda>l. l = GuestLivenessRefused"
  by unfold_locales simp

lemma Confirmed_fail_closed:
  "\<not> Enabled p \<Longrightarrow> \<not> Confirmed p s now" "GL_RefusedSince s = 0 \<Longrightarrow> \<not> Confirmed p s now"
  "now < GL_RefusedSince s \<Longrightarrow> \<not> Confirmed p s now"
  by (auto simp: Confirmed_def Silence_def)

lemma Confirmed_mono_time:
  "Confirmed p s now \<Longrightarrow> now \<le> now' \<Longrightarrow> Confirmed p s now'"
  using time_Sub_mono [of now now' "GL_RefusedSince s"]
  by (auto simp: Confirmed_def Silence_def split: if_splits)

section \<open>Liveness properties\<close>

text \<open>
  C33. A guest is declared unresponsive exactly on an unbroken run of refused probes at the end of
  its history: the policy is enabled, the run is at least as long as the policy asks, it began no
  later than now and has lasted the whole window. Any other reading starts the count over.
\<close>

theorem Confirmed_iff_trailing_run:
  assumes "\<forall>(r, t) \<in> set h. t \<noteq> 0"
  shows "Confirmed p (foldl (\<lambda>s (r, t). Observe p s r t) zero_GuestLivenessState h) now \<longleftrightarrow>
    Enabled p
    \<and> GP_ConsecutiveRefusals p \<le> int (length (hostile_run (\<lambda>l. l = GuestLivenessRefused) h))
    \<and> run_start (hostile_run (\<lambda>l. l = GuestLivenessRefused) h) \<le> now
    \<and> GP_Window p \<le> time_Sub now (run_start (hostile_run (\<lambda>l. l = GuestLivenessRefused) h))"
  using guest_probe.confirmed_run [OF assms, of p now] by (simp add: guest_probe.observe_all_def)

theorem Confirmed_iff_trailing_run_witness:
  "Confirmed \<lparr>GP_ConsecutiveRefusals = 2, GP_Window = 10\<rparr>
     (foldl (\<lambda>s (r, t). Observe \<lparr>GP_ConsecutiveRefusals = 2, GP_Window = 10\<rparr> s r t) zero_GuestLivenessState
       [(GuestLivenessRefused, 5), (GuestLivenessAlive, 7), (GuestLivenessRefused, 9), (GuestLivenessRefused, 15)]) 20"
  by (subst Confirmed_iff_trailing_run) (simp_all add: hostile_run_def run_start_def fleet_eval)

end
