(* ===== verification/Priority.thy ===== *)
theory Priority
  imports Prelude
begin

text \<open>
  \<open>internal/domain/priority.go\<close>: priority tiers. A policy is an ordered list of named tiers,
  each a list of rules over the repository, the workflow ref and the job name of a demand; the
  rank of a tier is derived from its position. The pattern language is \<open>*\<close> against literals.
\<close>

section \<open>Data\<close>

record PriorityMatch =
  PM_Scope :: string
  PM_WorkflowRef :: string
  PM_JobName :: string

record PriorityTier =
  PT_Name :: string
  PT_Match :: "PriorityMatch list"

record PriorityPolicy =
  PP_Tiers :: "PriorityTier list"

record DemandFacts =
  DF_Repo :: string
  DF_WorkflowRef :: string
  DF_JobName :: string

record Priority =
  Pr_Tier :: string
  Pr_Rank :: int

definition zero_Priority :: Priority where
  "zero_Priority = \<lparr>Pr_Tier = [], Pr_Rank = 0\<rparr>"

definition DefaultPriorityTier :: string where
  "DefaultPriorityTier = ''default''"

definition PriorityTierName :: "Priority \<Rightarrow> string" where
  "PriorityTierName p = (if Pr_Tier p = [] then DefaultPriorityTier else Pr_Tier p)"

definition Declared :: "PriorityPolicy \<Rightarrow> bool" where
  "Declared p \<longleftrightarrow> length (PP_Tiers p) > 0"

section \<open>The strings package\<close>

text \<open>\<open>strings.ToLower\<close> on the ASCII letters; other bytes are left as they are.\<close>

definition lower_char :: "char \<Rightarrow> char" where
  "lower_char c = (if 65 \<le> (of_char c :: nat) \<and> (of_char c :: nat) \<le> 90
     then char_of ((of_char c :: nat) + 32) else c)"

definition ToLower :: "string \<Rightarrow> string" where
  "ToLower s = map lower_char s"

text \<open>\<open>strings.Split(s, sep)\<close> for a one-byte separator: \<open>n\<close> separators give \<open>n + 1\<close> pieces.\<close>

fun split_on :: "char \<Rightarrow> string \<Rightarrow> string list" where
  "split_on sep [] = [[]]"
| "split_on sep (c # cs) =
     (if c = sep then [] # split_on sep cs
      else (case split_on sep cs of [] \<Rightarrow> [[c]] | seg # segs \<Rightarrow> (c # seg) # segs))"

text \<open>\<open>strings.Index(s, sub)\<close>: the first position of \<open>sub\<close>, or \<open>None\<close> for Go's -1.\<close>

fun str_Index :: "string \<Rightarrow> string \<Rightarrow> nat option" where
  "str_Index [] sub = (if sub = [] then Some 0 else None)"
| "str_Index (c # cs) sub =
     (if prefix sub (c # cs) then Some 0 else map_option Suc (str_Index cs sub))"

section \<open>Matching and classification\<close>

text \<open>
  The loop of \<open>matchSegments\<close> over the segments after the first: the inner ones are found at
  their earliest position, the last must be a suffix.
\<close>

fun matchRest :: "string list \<Rightarrow> string \<Rightarrow> bool" where
  "matchRest [] v = suffix [] v"
| "matchRest [l] v = suffix l v"
| "matchRest (seg # segs) v =
     (case str_Index v seg of
        None \<Rightarrow> False
      | Some i \<Rightarrow> matchRest segs (drop (i + length seg) v))"

definition matchSegments :: "string list \<Rightarrow> string \<Rightarrow> bool" where
  "matchSegments segments v =
     (case segments of
        [] \<Rightarrow> False
      | [s] \<Rightarrow> s = v
      | s # rest \<Rightarrow> prefix s v \<and> matchRest rest (drop (length s) v))"

definition matchesPriorityPattern :: "string \<Rightarrow> string \<Rightarrow> bool" where
  "matchesPriorityPattern pat v = matchSegments (split_on CHR ''*'' (ToLower pat)) (ToLower v)"

definition matches :: "PriorityMatch \<Rightarrow> DemandFacts \<Rightarrow> bool" where
  "matches m facts =
     (if PM_Scope m = [] \<and> PM_WorkflowRef m = [] \<and> PM_JobName m = [] then False
      else list_all (\<lambda>(pat, v). pat = [] \<or> matchesPriorityPattern pat v)
        [(PM_Scope m, DF_Repo facts), (PM_WorkflowRef m, DF_WorkflowRef facts),
         (PM_JobName m, DF_JobName facts)])"

text \<open>The loop of \<open>Classify\<close>; \<open>n\<close> is \<open>len(p.Tiers) - index\<close>.\<close>

fun classify_from :: "PriorityTier list \<Rightarrow> DemandFacts \<Rightarrow> Priority" where
  "classify_from [] facts = zero_Priority"
| "classify_from (t # ts) facts =
     (if list_ex (\<lambda>rule. matches rule facts) (PT_Match t)
      then \<lparr>Pr_Tier = PT_Name t, Pr_Rank = int (length (t # ts))\<rparr>
      else classify_from ts facts)"

definition Classify :: "PriorityPolicy \<Rightarrow> DemandFacts \<Rightarrow> Priority" where
  "Classify p facts = classify_from (PP_Tiers p) facts"

lemmas [fleet_eval] =
  zero_Priority_def DefaultPriorityTier_def PriorityTierName_def Declared_def
  lower_char_def ToLower_def matchSegments_def matchesPriorityPattern_def matches_def Classify_def

section \<open>The glob reference\<close>

text \<open>
  What the pattern language means, independent of the search: a \<open>*\<close> stands for any run of
  bytes, every other byte for itself.
\<close>

fun glob :: "string \<Rightarrow> string \<Rightarrow> bool" where
  "glob [] v \<longleftrightarrow> v = []"
| "glob (c # p) v \<longleftrightarrow>
     (if c = CHR ''*'' then (\<exists>n \<in> {0..length v}. glob p (drop n v))
      else (case v of [] \<Rightarrow> False | d # v' \<Rightarrow> c = d \<and> glob p v'))"

lemma split_on_nonempty [simp]: "split_on sep s \<noteq> []"
  by (induction s) (auto split: list.splits)

lemma str_Index_Some_iff:
  "str_Index v s = Some i \<longleftrightarrow>
     i \<le> length v \<and> prefix s (drop i v) \<and> (\<forall>j < i. \<not> prefix s (drop j v))"
proof (induction v arbitrary: i)
  case Nil
  then show ?case by auto
next
  case (Cons c v)
  show ?case
  proof (cases "prefix s (c # v)")
    case True
    then show ?thesis by (auto intro: gr0I)
  next
    case False
    have "str_Index (c # v) s = Some i \<longleftrightarrow> (\<exists>k. i = Suc k \<and> str_Index v s = Some k)"
      using False by auto
    also have "\<dots> \<longleftrightarrow> i \<le> length (c # v) \<and> prefix s (drop i (c # v)) \<and> (\<forall>j < i. \<not> prefix s (drop j (c # v)))"
      using False by (cases i) (auto simp: Cons.IH less_Suc_eq_0_disj)
    finally show ?thesis .
  qed
qed

lemma str_Index_None_iff:
  "str_Index v s = None \<longleftrightarrow> (\<forall>i \<le> length v. \<not> prefix s (drop i v))"
proof (induction v)
  case Nil
  then show ?case by auto
next
  case (Cons c v)
  have "(\<forall>i \<le> length (c # v). \<not> prefix s (drop i (c # v))) \<longleftrightarrow>
      \<not> prefix s (c # v) \<and> (\<forall>i \<le> length v. \<not> prefix s (drop i v))"
    by (metis Suc_le_mono drop0 drop_Suc_Cons le0 length_Cons not0_implies_Suc)
  then show ?case using Cons by auto
qed

text \<open>The pattern a list of segments stands for, without its leading literal.\<close>

fun matches_rest :: "string list \<Rightarrow> string \<Rightarrow> bool" where
  "matches_rest [] v \<longleftrightarrow> True"
| "matches_rest [l] v \<longleftrightarrow> suffix l v"
| "matches_rest (s # segs) v \<longleftrightarrow>
     (\<exists>n \<in> {0..length v}. prefix s (drop n v) \<and> matches_rest segs (drop (n + length s) v))"

lemma suffix_drop_mono: "n \<le> m \<Longrightarrow> suffix l (drop m v) \<Longrightarrow> suffix l (drop n v)"
  by (metis drop_drop le_add_diff_inverse2 suffix_drop suffix_order.trans)

lemma matches_restI:
  "n \<le> length v \<Longrightarrow> prefix s (drop n v) \<Longrightarrow> matches_rest segs (drop (n + length s) v) \<Longrightarrow>
    segs \<noteq> [] \<Longrightarrow> matches_rest (s # segs) v"
  by (cases segs) auto

lemma matches_restE:
  assumes "matches_rest (s # segs) v" and "segs \<noteq> []"
  obtains n where "n \<le> length v" "prefix s (drop n v)" "matches_rest segs (drop (n + length s) v)"
  using assms by (cases segs) auto

lemma matches_rest_drop_mono:
  "n \<le> m \<Longrightarrow> m \<le> length v \<Longrightarrow> segs \<noteq> [] \<Longrightarrow> matches_rest segs (drop m v) \<Longrightarrow> matches_rest segs (drop n v)"
proof (cases segs)
  case (Cons s segs')
  assume *: "n \<le> m" "m \<le> length v" "matches_rest segs (drop m v)"
  show ?thesis
  proof (cases "segs' = []")
    case True
    with * Cons show ?thesis by (auto intro: suffix_drop_mono)
  next
    case False
    from * Cons have "matches_rest (s # segs') (drop m v)" by simp
    then obtain k where k: "k \<le> length (drop m v)" "prefix s (drop k (drop m v))"
      "matches_rest segs' (drop (k + length s) (drop m v))"
      using False by (rule matches_restE)
    let ?k = "k + (m - n)"
    have eq: "drop ?k (drop n v) = drop k (drop m v)"
      "drop (?k + length s) (drop n v) = drop (k + length s) (drop m v)"
      using * by (simp_all add: ac_simps)
    have "?k \<le> length (drop n v)" using k(1) * by simp
    moreover have "prefix s (drop ?k (drop n v))" using k(2) eq(1) by simp
    moreover have "matches_rest segs' (drop (?k + length s) (drop n v))" using k(3) eq(2) by simp
    ultimately have "matches_rest (s # segs') (drop n v)" using False by (rule matches_restI)
    with Cons show ?thesis by simp
  qed
qed simp

text \<open>Taking the earliest occurrence of each inner segment loses no match.\<close>

lemma matchRest_iff: "segs \<noteq> [] \<Longrightarrow> matchRest segs v \<longleftrightarrow> matches_rest segs v"
proof (induction segs v rule: matchRest.induct)
  case (1 v)
  then show ?case by simp
next
  case (2 l v)
  then show ?case by simp
next
  case (3 s s' segs v)
  show ?case
  proof (cases "str_Index v s")
    case None
    then have none: "\<forall>i \<le> length v. \<not> prefix s (drop i v)"
      by (simp only: str_Index_None_iff)
    have "\<not> matches_rest (s # s' # segs) v"
    proof
      assume "matches_rest (s # s' # segs) v"
      then show False by (rule matches_restE) (use none in simp_all)
    qed
    with None show ?thesis by (simp del: matches_rest.simps)
  next
    case (Some i)
    then have i: "i \<le> length v" "prefix s (drop i v)" "\<forall>j < i. \<not> prefix s (drop j v)"
      unfolding str_Index_Some_iff by blast+
    have "matches_rest (s # s' # segs) v \<longleftrightarrow> matches_rest (s' # segs) (drop (i + length s) v)"
    proof
      assume "matches_rest (s # s' # segs) v"
      then obtain n where n: "n \<le> length v" "prefix s (drop n v)"
        "matches_rest (s' # segs) (drop (n + length s) v)" by (rule matches_restE) simp
      have "i \<le> n" using i(3) n(2) not_le by blast
      moreover have "n + length s \<le> length v"
        using n(1,2) by (metis add.commute le_diff_conv2 length_drop prefix_length_le)
      ultimately show "matches_rest (s' # segs) (drop (i + length s) v)"
        by (intro matches_rest_drop_mono [OF _ _ _ n(3)]) simp_all
    next
      assume "matches_rest (s' # segs) (drop (i + length s) v)"
      with i(1,2) show "matches_rest (s # s' # segs) v" by (rule matches_restI) simp
    qed
    then show ?thesis using 3 Some by (simp del: matches_rest.simps)
  qed
qed

definition matches_segs :: "string list \<Rightarrow> string \<Rightarrow> bool" where
  "matches_segs segs v \<longleftrightarrow>
     (case segs of
        [] \<Rightarrow> False
      | [s] \<Rightarrow> s = v
      | s # rest \<Rightarrow> prefix s v \<and> matches_rest rest (drop (length s) v))"

lemma matchSegments_iff: "matchSegments segs v \<longleftrightarrow> matches_segs segs v"
  by (auto simp: matchSegments_def matches_segs_def matchRest_iff split: list.splits)

lemma matches_segs_shift:
  "S \<noteq> [] \<Longrightarrow> (\<exists>n \<in> {0..length v}. matches_segs S (drop n v)) \<longleftrightarrow> matches_rest S v"
proof (cases S)
  case (Cons s rest)
  show ?thesis
  proof (cases rest)
    case Nil
    have "(\<exists>n \<in> {0..length v}. s = drop n v) \<longleftrightarrow> suffix s v"
    proof
      assume "suffix s v"
      then have "s = drop (length v - length s) v"
        by (metis suffix_def append_eq_conv_conj diff_add_inverse2 length_append)
      then show "\<exists>n \<in> {0..length v}. s = drop n v" by auto
    qed (auto simp: suffix_drop)
    with Cons Nil show ?thesis by (simp add: matches_segs_def)
  next
    case (Cons r rs)
    then show ?thesis
      using \<open>S = s # rest\<close> by (simp add: matches_segs_def add.commute)
  qed
qed simp

lemma glob_split: "glob pat v \<longleftrightarrow> matches_segs (split_on CHR ''*'' pat) v"
proof (induction pat arbitrary: v)
  case Nil
  then show ?case by (auto simp: matches_segs_def)
next
  case (Cons c pat)
  obtain s segs where split: "split_on CHR ''*'' pat = s # segs"
    using split_on_nonempty by (metis neq_Nil_conv)
  show ?case
  proof (cases "c = CHR ''*''")
    case True
    have "glob (c # pat) v \<longleftrightarrow> (\<exists>n \<in> {0..length v}. matches_segs (split_on CHR ''*'' pat) (drop n v))"
      using True Cons.IH by simp
    also have "\<dots> \<longleftrightarrow> matches_rest (split_on CHR ''*'' pat) v"
      by (rule matches_segs_shift) simp
    finally show ?thesis using True split by (simp add: matches_segs_def)
  next
    case False
    with Cons.IH split show ?thesis
      by (cases v; cases segs) (auto simp: matches_segs_def)
  qed
qed

text \<open>The segment walk decides exactly the glob language of the lower-cased pattern.\<close>

lemma matchesPriorityPattern_glob: "matchesPriorityPattern pat v \<longleftrightarrow> glob (ToLower pat) (ToLower v)"
  by (simp add: matchesPriorityPattern_def matchSegments_iff glob_split)

section \<open>Classification\<close>

lemma classify_from_bounds:
  "0 \<le> Pr_Rank (classify_from ts f)" "Pr_Rank (classify_from ts f) \<le> int (length ts)"
  by (induction ts) (auto simp: zero_Priority_def)

lemma classify_from_claims:
  assumes "i < length ts" and "list_ex (\<lambda>r. matches r f) (PT_Match (ts ! i))"
    and "\<forall>j < i. \<not> list_ex (\<lambda>r. matches r f) (PT_Match (ts ! j))"
  shows "classify_from ts f = \<lparr>Pr_Tier = PT_Name (ts ! i), Pr_Rank = int (length ts) - int i\<rparr>"
  using assms
proof (induction ts arbitrary: i)
  case Nil
  then show ?case by simp
next
  case (Cons t ts)
  show ?case
  proof (cases i)
    case 0
    with Cons.prems show ?thesis by simp
  next
    case (Suc k)
    have "\<not> list_ex (\<lambda>r. matches r f) (PT_Match t)"
      using Cons.prems(3) Suc by force
    moreover have "classify_from ts f = \<lparr>Pr_Tier = PT_Name (ts ! k), Pr_Rank = int (length ts) - int k\<rparr>"
      using Cons.prems Suc by (intro Cons.IH) auto
    ultimately show ?thesis using Suc by simp
  qed
qed

lemma classify_from_default:
  "\<forall>t \<in> set ts. \<not> list_ex (\<lambda>r. matches r f) (PT_Match t) \<Longrightarrow> classify_from ts f = zero_Priority"
  by (induction ts) auto

section \<open>Priority properties\<close>

text \<open>
  C29. The pattern search is the glob language: a pattern matches a value exactly when, both
  lower-cased, the value is the pattern with every \<open>*\<close> replaced by some run of bytes.
\<close>

theorem priority_pattern_glob: "matchesPriorityPattern pat v \<longleftrightarrow> glob (ToLower pat) (ToLower v)"
  by (rule matchesPriorityPattern_glob)

text \<open>
  The first declared tier that claims a demand names it, and its rank counts the tiers from
  there to the end: an earlier tier outranks every later one, and the rank is at least one.
\<close>

theorem Classify_first_claiming_tier:
  assumes "i < length (PP_Tiers p)" and "list_ex (\<lambda>r. matches r f) (PT_Match (PP_Tiers p ! i))"
    and "\<forall>j < i. \<not> list_ex (\<lambda>r. matches r f) (PT_Match (PP_Tiers p ! j))"
  shows "Pr_Tier (Classify p f) = PT_Name (PP_Tiers p ! i)
    \<and> Pr_Rank (Classify p f) = int (length (PP_Tiers p) - i) \<and> 1 \<le> Pr_Rank (Classify p f)"
  using classify_from_claims [OF assms] assms(1) by (simp add: Classify_def of_nat_diff)

theorem Classify_first_claiming_tier_witness:
  "let p = \<lparr>PP_Tiers = [\<lparr>PT_Name = ''release'', PT_Match = [\<lparr>PM_Scope = ''acme/*'', PM_WorkflowRef = [], PM_JobName = ''ship*''\<rparr>]\<rparr>,
                       \<lparr>PT_Name = ''pr'', PT_Match = [\<lparr>PM_Scope = ''*'', PM_WorkflowRef = [], PM_JobName = []\<rparr>]\<rparr>]\<rparr>
   in Pr_Tier (Classify p \<lparr>DF_Repo = ''acme/app'', DF_WorkflowRef = ''w'', DF_JobName = ''Lint''\<rparr>) = ''pr''"
proof -
  let ?p = "\<lparr>PP_Tiers = [\<lparr>PT_Name = ''release'', PT_Match = [\<lparr>PM_Scope = ''acme/*'', PM_WorkflowRef = [], PM_JobName = ''ship*''\<rparr>]\<rparr>,
                       \<lparr>PT_Name = ''pr'', PT_Match = [\<lparr>PM_Scope = ''*'', PM_WorkflowRef = [], PM_JobName = []\<rparr>]\<rparr>]\<rparr>"
  let ?f = "\<lparr>DF_Repo = ''acme/app'', DF_WorkflowRef = ''w'', DF_JobName = ''Lint''\<rparr>"
  have "list_ex (\<lambda>r. matches r ?f) (PT_Match (PP_Tiers ?p ! 1))"
    "\<not> list_ex (\<lambda>r. matches r ?f) (PT_Match (PP_Tiers ?p ! 0))" by code_simp+
  with Classify_first_claiming_tier [of 1 ?p ?f] show ?thesis by simp
qed

end
