(* ===== verification/Domain.thy ===== *)
theory Domain
  imports Guest_Liveness Priority
begin

text \<open>
  \<open>internal/domain/domain.go\<close>: the vocabulary shared by the planner and its adapters: demand
  keys, observations, resource vectors, profiles, demands, the instance state machine, power
  readings, and what an instance charges the host.
\<close>

section \<open>Demand keys\<close>

record DemandKey =
  Key_Repo :: string
  Key_RunID :: int
  Key_Attempt :: int
  Key_JobID :: int

definition zero_DemandKey :: DemandKey where
  "zero_DemandKey = \<lparr>Key_Repo = [], Key_RunID = 0, Key_Attempt = 0, Key_JobID = 0\<rparr>"

text \<open>\<open>strconv\<close>'s decimal numerals, as \<open>fmt\<close> prints them under \<open>%d\<close>.\<close>

fun digits_of_nat :: "nat \<Rightarrow> string" where
  "digits_of_nat n =
     (if n < 10 then [char_of (n + 48)]
      else digits_of_nat (n div 10) @ [char_of (n mod 10 + 48)])"

declare digits_of_nat.simps [simp del]

definition decimal :: "int \<Rightarrow> string" where
  "decimal i = (if i < 0 then CHR ''-'' # digits_of_nat (nat (- i)) else digits_of_nat (nat i))"

definition Key_String :: "DemandKey \<Rightarrow> string" where
  "Key_String k = Key_Repo k @ ''/'' @ decimal (Key_RunID k) @ ''/'' @ decimal (Key_Attempt k) @ ''/'' @ decimal (Key_JobID k)"

definition Key_Valid :: "DemandKey \<Rightarrow> bool" where
  "Key_Valid k \<longleftrightarrow> \<not> (Key_Repo k = [] \<or> Key_RunID k \<le> 0 \<or> Key_Attempt k \<le> 0 \<or> Key_JobID k \<le> 0)"

section \<open>Observations\<close>

datatype ObservationState = ObservationFresh | ObservationStale | ObservationUnavailable | ObservationOther string

record 'a Observation =
  Ob_State :: ObservationState
  Ob_Value :: 'a
  Ob_ObservedAt :: time
  Ob_Reason :: string

definition Fresh :: "'a \<Rightarrow> time \<Rightarrow> 'a Observation" where
  "Fresh v observedAt = \<lparr>Ob_State = ObservationFresh, Ob_Value = v, Ob_ObservedAt = observedAt, Ob_Reason = []\<rparr>"

definition Stale :: "'a \<Rightarrow> time \<Rightarrow> string \<Rightarrow> 'a Observation" where
  "Stale v observedAt reason = \<lparr>Ob_State = ObservationStale, Ob_Value = v, Ob_ObservedAt = observedAt, Ob_Reason = reason\<rparr>"

text \<open>The zero value of the payload type is an argument: Go supplies it for every type.\<close>

definition Unavailable :: "'a \<Rightarrow> string \<Rightarrow> 'a Observation" where
  "Unavailable zero reason = \<lparr>Ob_State = ObservationUnavailable, Ob_Value = zero, Ob_ObservedAt = 0, Ob_Reason = reason\<rparr>"

definition Usable :: "'a Observation \<Rightarrow> bool" where
  "Usable ob \<longleftrightarrow> Ob_State ob = ObservationFresh"

section \<open>Resource vectors\<close>

record Resources =
  CPU :: int
  MemoryMB :: int
  Slots :: int

definition zero_Resources :: Resources where
  "zero_Resources = \<lparr>CPU = 0, MemoryMB = 0, Slots = 0\<rparr>"

definition Res_Add :: "Resources \<Rightarrow> Resources \<Rightarrow> Resources" where
  "Res_Add r other = \<lparr>CPU = CPU r + CPU other, MemoryMB = MemoryMB r + MemoryMB other, Slots = Slots r + Slots other\<rparr>"

definition CanFit :: "Resources \<Rightarrow> Resources \<Rightarrow> bool" where
  "CanFit r required \<longleftrightarrow> CPU required \<le> CPU r \<and> MemoryMB required \<le> MemoryMB r \<and> Slots required \<le> Slots r"

definition Res_Sub :: "Resources \<Rightarrow> Resources \<Rightarrow> Resources \<times> bool" where
  "Res_Sub r other =
     (if \<not> CanFit r other then (zero_Resources, False)
      else (\<lparr>CPU = CPU r - CPU other, MemoryMB = MemoryMB r - MemoryMB other, Slots = Slots r - Slots other\<rparr>, True))"

section \<open>Profiles and demands\<close>

datatype Platform = PlatformLinux | PlatformMacOS | PlatformOther string

type_synonym Route = string
type_synonym ProfileID = string

datatype SchedulingClass = SchedulingStandard | SchedulingControlPlane | SchedulingOther string

record Profile =
  Prof_ID :: ProfileID
  Prof_Platform :: Platform
  Prof_Route :: Route
  Prof_Resources :: Resources
  Prof_MaxActive :: int
  Prof_OccupancyBudget :: duration

definition zero_Profile :: Profile where
  "zero_Profile = \<lparr>Prof_ID = [], Prof_Platform = PlatformOther [], Prof_Route = [],
     Prof_Resources = zero_Resources, Prof_MaxActive = 0, Prof_OccupancyBudget = 0\<rparr>"

datatype Event = EventPullRequest | EventPush | EventSchedule | EventOther string
datatype RunStatus = RunQueued | RunInProgress | RunOther string

record Demand =
  Dem_Key :: DemandKey
  Dem_CreatedAt :: time
  Dem_NotBefore :: time
  Dem_Profile :: ProfileID
  Dem_Route :: Route
  Dem_Platform :: Platform
  Dem_Event :: Event
  Dem_RunStatus :: RunStatus
  Dem_Priority :: Priority

section \<open>The instance state machine\<close>

datatype InstanceState =
    InstancePlanned | InstanceCloning | InstanceBooting | InstanceReachable | InstanceRegistering
  | InstanceOnlineIdle | InstanceAssigned | InstanceRunning | InstanceDraining
  | InstanceDeregistering | InstanceStopping | InstanceDeleted | InstanceFailed
  | InstanceOther string

definition CanTransitionTo :: "InstanceState \<Rightarrow> InstanceState \<Rightarrow> bool" where
  "CanTransitionTo s nxt =
     (if s \<noteq> InstanceDeleted \<and> s \<noteq> InstanceFailed \<and> nxt = InstanceFailed then True
      else (case s of
        InstancePlanned \<Rightarrow> nxt = InstanceCloning \<or> nxt = InstanceDraining
      | InstanceCloning \<Rightarrow> nxt = InstanceBooting \<or> nxt = InstanceDraining
      | InstanceBooting \<Rightarrow> nxt = InstanceReachable \<or> nxt = InstanceDraining
      | InstanceReachable \<Rightarrow> nxt = InstanceRegistering \<or> nxt = InstanceDraining
      | InstanceRegistering \<Rightarrow> nxt = InstanceOnlineIdle \<or> nxt = InstanceAssigned
      | InstanceOnlineIdle \<Rightarrow> nxt = InstanceAssigned \<or> nxt = InstanceDraining
      | InstanceAssigned \<Rightarrow> nxt = InstanceRunning \<or> nxt = InstanceOnlineIdle \<or> nxt = InstanceDraining
      | InstanceRunning \<Rightarrow> nxt = InstanceDraining
      | InstanceDraining \<Rightarrow> nxt = InstanceDeregistering \<or> nxt = InstanceRunning
      | InstanceDeregistering \<Rightarrow> nxt = InstanceStopping
      | InstanceStopping \<Rightarrow> nxt = InstanceDeleted
      | InstanceFailed \<Rightarrow> nxt = InstancePlanned
      | _ \<Rightarrow> False))"

section \<open>Power readings and instances\<close>

datatype InstancePower =
    InstancePowerUnknown | InstancePowerRunning | InstancePowerStopped | InstancePowerAbsent
  | InstancePowerOther string

datatype PowerReadReason =
    PowerReadOK | PowerReadPermission | PowerReadDescriptors | PowerReadMemory
  | PowerReadInterrupted | PowerReadIO | PowerReadTimeout | PowerReadMissing | PowerReadOther
  | PowerReadReasonOther string

record PowerReadFailure =
  PF_Reason :: PowerReadReason
  PF_Latency :: duration

definition zero_PowerReadFailure :: PowerReadFailure where
  "zero_PowerReadFailure = \<lparr>PF_Reason = PowerReadOK, PF_Latency = 0\<rparr>"

definition Unreadable :: "PowerReadFailure \<Rightarrow> bool" where
  "Unreadable f \<longleftrightarrow> PF_Reason f \<noteq> PowerReadOK"

record Instance =
  Inst_ID :: string
  Inst_Repo :: string
  Inst_Demand :: DemandKey
  Inst_Platform :: Platform
  Inst_Profile :: ProfileID
  Inst_Route :: Route
  Inst_Resources :: Resources
  Inst_State :: InstanceState
  Inst_Power :: InstancePower
  Inst_RecoveryReady :: bool
  Inst_AssignedSince :: time
  Inst_RunningSince :: time
  Inst_ProvisioningSince :: time
  Inst_JobInactive :: bool
  Inst_OccupiedSince :: time
  Inst_Guest :: GuestLivenessState
  Inst_PowerRun :: GuestLivenessState
  Inst_PowerUnreadable :: PowerReadFailure
  Inst_PowerRetracted :: bool
  Inst_Attempts :: int
  Inst_RetryAt :: time

definition zero_Instance :: Instance where
  "zero_Instance = \<lparr>Inst_ID = [], Inst_Repo = [], Inst_Demand = zero_DemandKey,
     Inst_Platform = PlatformOther [], Inst_Profile = [], Inst_Route = [],
     Inst_Resources = zero_Resources, Inst_State = InstanceOther [], Inst_Power = InstancePowerUnknown,
     Inst_RecoveryReady = False, Inst_AssignedSince = 0, Inst_RunningSince = 0,
     Inst_ProvisioningSince = 0, Inst_JobInactive = False, Inst_OccupiedSince = 0,
     Inst_Guest = zero_GuestLivenessState, Inst_PowerRun = zero_GuestLivenessState,
     Inst_PowerUnreadable = zero_PowerReadFailure, Inst_PowerRetracted = False,
     Inst_Attempts = 0, Inst_RetryAt = 0\<rparr>"

definition ProvenIdle :: "InstancePower \<Rightarrow> bool" where
  "ProvenIdle p \<longleftrightarrow> p = InstancePowerStopped \<or> p = InstancePowerAbsent"

definition Live :: "Instance \<Rightarrow> bool" where
  "Live i \<longleftrightarrow> Inst_State i \<noteq> InstanceDeleted"

definition IncarnatesDemand :: "Instance \<Rightarrow> bool" where
  "IncarnatesDemand i \<longleftrightarrow>
     Inst_Demand i \<noteq> zero_DemandKey \<and> Inst_State i \<noteq> InstanceDeleted \<and> Inst_State i \<noteq> InstanceFailed"

definition TearingDown :: "InstanceState \<Rightarrow> bool" where
  "TearingDown s =
     (case s of InstanceDraining \<Rightarrow> True | InstanceDeregistering \<Rightarrow> True | InstanceStopping \<Rightarrow> True
      | _ \<Rightarrow> False)"

definition HoldsAssignment :: "Instance \<Rightarrow> bool" where
  "HoldsAssignment i \<longleftrightarrow> IncarnatesDemand i \<and> \<not> TearingDown (Inst_State i)"

definition Provisioning :: "InstanceState \<Rightarrow> bool" where
  "Provisioning s \<longleftrightarrow> s = InstanceCloning \<or> s = InstanceBooting \<or> s = InstanceReachable"

definition ConsumesHostResources :: "Instance \<Rightarrow> bool" where
  "ConsumesHostResources i =
     (if \<not> Live i then False
      else if \<not> TearingDown (Inst_State i) \<or> \<not> ProvenIdle (Inst_Power i) then True
      else Inst_Power i \<noteq> InstancePowerAbsent \<and> Inst_State i \<noteq> InstanceStopping)"

definition Inst_Occupancy :: "Instance \<Rightarrow> time \<Rightarrow> duration \<times> bool" where
  "Inst_Occupancy i now =
     (if \<not> ConsumesHostResources i \<or> time_IsZero (Inst_OccupiedSince i) \<or> now < Inst_OccupiedSince i
      then (0, False) else (time_Sub now (Inst_OccupiedSince i), True))"

definition CanRetry :: "Instance \<Rightarrow> time \<Rightarrow> int \<Rightarrow> bool" where
  "CanRetry i now maxAttempts \<longleftrightarrow>
     Inst_State i = InstanceFailed \<and> maxAttempts > 0 \<and> Inst_Attempts i < maxAttempts \<and> \<not> now < Inst_RetryAt i"

section \<open>The host\<close>

datatype HostMode = HostIdle | HostLinux | HostMacOS | HostMixed

text \<open>The loop of \<open>DeriveHostMode\<close>, with its two flags.\<close>

fun derive_mode_loop :: "bool \<Rightarrow> bool \<Rightarrow> Instance list \<Rightarrow> string + (bool \<times> bool)" where
  "derive_mode_loop linux macos [] = Inr (linux, macos)"
| "derive_mode_loop linux macos (i # is) =
     (if \<not> ConsumesHostResources i then derive_mode_loop linux macos is
      else (case Inst_Platform i of
        PlatformLinux \<Rightarrow> derive_mode_loop True macos is
      | PlatformMacOS \<Rightarrow> derive_mode_loop linux True is
      | PlatformOther _ \<Rightarrow> Inl ''unknown live instance platform''))"

definition DeriveHostMode :: "Instance list \<Rightarrow> string + HostMode" where
  "DeriveHostMode instances =
     (case derive_mode_loop False False instances of
        Inl e \<Rightarrow> Inl e
      | Inr (linux, macos) \<Rightarrow>
          Inr (if linux \<and> macos then HostMixed else if linux then HostLinux
               else if macos then HostMacOS else HostIdle))"

text \<open>
  \<open>HostPressure\<close> is diagnostic only: nothing in the planner reads it, so the model of a host
  keeps the two vectors admission is judged against.
\<close>

record Host =
  Host_Available :: Resources
  Host_Capacity :: Resources

record Reservation =
  Rv_Demand :: DemandKey
  Rv_Profile :: ProfileID
  Rv_Resources :: Resources
  Rv_Since :: time

section \<open>Names\<close>

definition is_alnum :: "char \<Rightarrow> bool" where
  "is_alnum c \<longleftrightarrow>
     (let n = (of_char c :: nat) in (48 \<le> n \<and> n \<le> 57) \<or> (65 \<le> n \<and> n \<le> 90) \<or> (97 \<le> n \<and> n \<le> 122))"

text \<open>The regular expression \<open>^[A-Za-z0-9][A-Za-z0-9._-]{0,127}$\<close>.\<close>

definition instanceName_match :: "string \<Rightarrow> bool" where
  "instanceName_match s =
     (case s of
        [] \<Rightarrow> False
      | c # cs \<Rightarrow> is_alnum c \<and> length cs \<le> 127
          \<and> list_all (\<lambda>d. is_alnum d \<or> d = CHR ''.'' \<or> d = CHR ''_'' \<or> d = CHR ''-'') cs)"

definition ValidateInstanceName :: "string \<Rightarrow> string + unit" where
  "ValidateInstanceName name =
     (if \<not> instanceName_match name \<or> name = ''.'' \<or> name = ''..'' then Inl ''invalid instance name'' else Inr ())"

definition is_space :: "char \<Rightarrow> bool" where
  "is_space c \<longleftrightarrow> (let n = (of_char c :: nat) in n = 32 \<or> (9 \<le> n \<and> n \<le> 13))"

definition TrimSpace :: "string \<Rightarrow> string" where
  "TrimSpace s = rev (dropWhile is_space (rev (dropWhile is_space s)))"

definition ValidateImageReference :: "string \<Rightarrow> string + unit" where
  "ValidateImageReference img =
     (if img = [] \<or> TrimSpace img \<noteq> img then Inl ''image reference is empty or padded''
      else if prefix ''-'' img then Inl ''image reference cannot be read as a command-line option''
      else if list_ex (\<lambda>c. (of_char c :: nat) \<in> {32, 9, 10, 13, 0}) img
        then Inl ''image reference contains whitespace or NUL''
      else Inr ())"

lemmas [fleet_eval] =
  zero_DemandKey_def decimal_def Key_String_def Key_Valid_def Fresh_def Stale_def Unavailable_def
  Usable_def zero_Resources_def Res_Add_def CanFit_def Res_Sub_def zero_Profile_def
  CanTransitionTo_def zero_PowerReadFailure_def Unreadable_def zero_Instance_def ProvenIdle_def
  Live_def IncarnatesDemand_def TearingDown_def HoldsAssignment_def Provisioning_def
  ConsumesHostResources_def Inst_Occupancy_def CanRetry_def DeriveHostMode_def
  is_alnum_def instanceName_match_def ValidateInstanceName_def is_space_def TrimSpace_def
  ValidateImageReference_def

section \<open>Keys print injectively\<close>

lemma split_at_last:
  assumes "a @ c # x = b @ c # y" and "c \<notin> set x" and "c \<notin> set y"
  shows "a = b \<and> x = y"
proof -
  have "takeWhile (\<lambda>d. d \<noteq> c) (rev (a @ c # x)) = takeWhile (\<lambda>d. d \<noteq> c) (rev (b @ c # y))"
    by (simp only: assms(1))
  moreover have "takeWhile (\<lambda>d. d \<noteq> c) (rev (u @ c # v)) = rev v" if "c \<notin> set v" for u v
    using that by (simp add: takeWhile_tail) (metis set_rev takeWhile_eq_all_conv)
  ultimately have "x = y" using assms(2,3) by (metis rev_rev_ident)
  with assms(1) show ?thesis by simp
qed

definition nat_of_digits :: "string \<Rightarrow> nat" where
  "nat_of_digits s = foldl (\<lambda>a c. 10 * a + (of_char c - 48)) 0 s"

lemma nat_of_digits_of_nat: "nat_of_digits (digits_of_nat n) = n"
proof (induction n rule: digits_of_nat.induct)
  case (1 n)
  show ?case
  proof (cases "n < 10")
    case True
    then show ?thesis by (subst digits_of_nat.simps) (simp add: nat_of_digits_def)
  next
    case False
    with 1 have "nat_of_digits (digits_of_nat (n div 10)) = n div 10" by simp
    with False show ?thesis
      by (subst digits_of_nat.simps) (simp add: nat_of_digits_def)
  qed
qed

lemma set_digits_of_nat: "c \<in> set (digits_of_nat n) \<Longrightarrow> 48 \<le> (of_char c :: nat) \<and> (of_char c :: nat) \<le> 57"
proof (induction n rule: digits_of_nat.induct)
  case (1 n)
  then show ?case
    by (subst (asm) (2) digits_of_nat.simps) (auto split: if_splits)
qed

lemma digits_of_nat_eq_iff [simp]: "digits_of_nat m = digits_of_nat n \<longleftrightarrow> m = n"
  by (metis nat_of_digits_of_nat)

lemma digits_of_nat_no_sign: "CHR ''-'' \<notin> set (digits_of_nat n)" "CHR ''/'' \<notin> set (digits_of_nat n)"
  using set_digits_of_nat [of "CHR ''-''" n] set_digits_of_nat [of "CHR ''/''" n] by auto

lemma decimal_eq_iff [simp]: "decimal i = decimal j \<longleftrightarrow> i = j"
  using digits_of_nat_no_sign(1) by (auto simp: decimal_def dest: sym) (metis list.set_intros(1))+

lemma slash_notin_decimal [simp]: "CHR ''/'' \<notin> set (decimal i)"
  by (simp add: decimal_def digits_of_nat_no_sign)

lemma Key_String_eq_iff [simp]: "Key_String k = Key_String k' \<longleftrightarrow> k = k'"
proof
  assume eq: "Key_String k = Key_String k'"
  let ?a = "\<lambda>k. Key_Repo k @ ''/'' @ decimal (Key_RunID k) @ ''/'' @ decimal (Key_Attempt k)"
  let ?b = "\<lambda>k. Key_Repo k @ ''/'' @ decimal (Key_RunID k)"
  have "?a k = ?a k' \<and> decimal (Key_JobID k) = decimal (Key_JobID k')"
    by (rule split_at_last [of _ "CHR ''/''"]) (use eq in \<open>simp_all add: Key_String_def\<close>)
  moreover from this have "?b k = ?b k' \<and> decimal (Key_Attempt k) = decimal (Key_Attempt k')"
    by (intro split_at_last [of _ "CHR ''/''"]) simp_all
  moreover from this have "Key_Repo k = Key_Repo k' \<and> decimal (Key_RunID k) = decimal (Key_RunID k')"
    by (intro split_at_last [of _ "CHR ''/''"]) simp_all
  ultimately show "k = k'" by simp
qed simp

section \<open>Vectors\<close>

lemma CanFit_refl [simp]: "CanFit r r"
  by (simp add: CanFit_def)

lemma CanFit_trans: "CanFit a b \<Longrightarrow> CanFit b c \<Longrightarrow> CanFit a c"
  by (auto simp: CanFit_def)

lemma CanFit_antisym: "CanFit a b \<Longrightarrow> CanFit b a \<Longrightarrow> a = b"
  by (simp add: CanFit_def)

lemma Res_Sub_fits:
  "CanFit r x \<Longrightarrow> Res_Sub r x = (\<lparr>CPU = CPU r - CPU x, MemoryMB = MemoryMB r - MemoryMB x, Slots = Slots r - Slots x\<rparr>, True)"
  by (simp add: Res_Sub_def)

lemma snd_Res_Sub [simp]: "snd (Res_Sub r x) = CanFit r x"
  by (simp add: Res_Sub_def)

lemma fst_Res_Sub_sel:
  "CanFit r x \<Longrightarrow> CPU (fst (Res_Sub r x)) = CPU r - CPU x"
  "CanFit r x \<Longrightarrow> MemoryMB (fst (Res_Sub r x)) = MemoryMB r - MemoryMB x"
  "CanFit r x \<Longrightarrow> Slots (fst (Res_Sub r x)) = Slots r - Slots x"
  by (simp_all add: Res_Sub_def)

lemma Res_Sub_Add: "CanFit r x \<Longrightarrow> Res_Add (fst (Res_Sub r x)) x = r"
  by (simp add: Res_Sub_def Res_Add_def)

section \<open>What an instance charges the host\<close>

lemma ConsumesHostResources_iff:
  "ConsumesHostResources i \<longleftrightarrow>
     Inst_State i \<noteq> InstanceDeleted
     \<and> \<not> (TearingDown (Inst_State i) \<and> Inst_Power i = InstancePowerAbsent)
     \<and> \<not> (Inst_State i = InstanceStopping \<and> Inst_Power i = InstancePowerStopped)"
  by (auto simp: ConsumesHostResources_def Live_def ProvenIdle_def TearingDown_def split: InstanceState.splits)

lemma OnlineIdle_consumes: "Inst_State i = InstanceOnlineIdle \<Longrightarrow> ConsumesHostResources i"
  by (simp add: ConsumesHostResources_iff TearingDown_def)

section \<open>The lifecycle\<close>

text \<open>A life of an instance: transitions the state machine allows, and those among them that do not fail.\<close>

inductive lifecycle :: "InstanceState \<Rightarrow> InstanceState \<Rightarrow> bool" where
  stay: "lifecycle s s"
| move: "lifecycle s t \<Longrightarrow> CanTransitionTo t u \<Longrightarrow> lifecycle s u"

inductive unfailing :: "InstanceState \<Rightarrow> InstanceState \<Rightarrow> bool" where
  unfailing_stay: "unfailing s s"
| unfailing_move: "unfailing s t \<Longrightarrow> CanTransitionTo t u \<Longrightarrow> u \<noteq> InstanceFailed \<Longrightarrow> unfailing s u"

lemma lifecycle_trans: "lifecycle t u \<Longrightarrow> lifecycle s t \<Longrightarrow> lifecycle s u"
  by (induction rule: lifecycle.induct) (auto intro: lifecycle.intros)

lemma lifecycle_step: "CanTransitionTo s t \<Longrightarrow> lifecycle t u \<Longrightarrow> lifecycle s u"
  by (rule lifecycle_trans) (auto intro: lifecycle.intros)

lemma unfailing_teardown:
  assumes "unfailing s t" and "s = InstanceDeregistering \<or> s = InstanceStopping \<or> s = InstanceDeleted"
  shows "t = InstanceDeregistering \<or> t = InstanceStopping \<or> t = InstanceDeleted"
  using assms by (induction rule: unfailing.induct) (auto simp: CanTransitionTo_def)

text \<open>
  C28. Teardown commits at deregistration: an instance that has begun to deregister never carries a
  job again. On every path that does not go through a failure its state stays deregistering,
  stopping or deleted.
\<close>

theorem teardown_commits:
  assumes "unfailing InstanceDeregistering t"
  shows "t \<in> {InstanceDeregistering, InstanceStopping, InstanceDeleted}"
  using unfailing_teardown [OF assms] by simp

theorem teardown_commits_witness:
  "unfailing InstanceDeregistering InstanceDeleted \<and> InstanceDeleted \<in> {InstanceDeregistering, InstanceStopping, InstanceDeleted}"
proof -
  have "unfailing InstanceDeregistering InstanceStopping"
    by (rule unfailing_move [OF unfailing_stay]) (simp_all add: CanTransitionTo_def)
  then have "unfailing InstanceDeregistering InstanceDeleted"
    by (rule unfailing_move) (simp_all add: CanTransitionTo_def)
  with teardown_commits [OF this] show ?thesis by blast
qed

text \<open>
  No state of the lifecycle is a trap: from every declared state the allowed transitions reach
  deletion, and deletion has no successor.
\<close>

theorem lifecycle_reaches_deleted:
  "(\<forall>s. (\<exists>x. s = InstanceOther x) \<or> lifecycle s InstanceDeleted) \<and> (\<forall>t. \<not> CanTransitionTo InstanceDeleted t)"
proof -
  have stop: "lifecycle InstanceStopping InstanceDeleted"
    by (rule lifecycle_step [OF _ stay]) (simp add: CanTransitionTo_def)
  have dereg: "lifecycle InstanceDeregistering InstanceDeleted"
    by (rule lifecycle_step [OF _ stop]) (simp add: CanTransitionTo_def)
  have drain: "lifecycle InstanceDraining InstanceDeleted"
    by (rule lifecycle_step [OF _ dereg]) (simp add: CanTransitionTo_def)
  have via: "lifecycle s InstanceDeleted" if "CanTransitionTo s InstanceDraining" for s
    using that drain by (rule lifecycle_step)
  have planned: "lifecycle InstancePlanned InstanceDeleted" by (rule via) (simp add: CanTransitionTo_def)
  have failed: "lifecycle InstanceFailed InstanceDeleted"
    by (rule lifecycle_step [OF _ planned]) (simp add: CanTransitionTo_def)
  have idle: "lifecycle InstanceOnlineIdle InstanceDeleted" by (rule via) (simp add: CanTransitionTo_def)
  have reg: "lifecycle InstanceRegistering InstanceDeleted"
    by (rule lifecycle_step [OF _ idle]) (simp add: CanTransitionTo_def)
  have "(\<exists>x. s = InstanceOther x) \<or> lifecycle s InstanceDeleted" for s
    by (cases s) (use stop dereg drain planned failed idle reg stay via in \<open>simp_all add: CanTransitionTo_def\<close>)
  then show ?thesis by (simp add: CanTransitionTo_def)
qed

text \<open>
  Demand keys print injectively: two keys with one printed form are the same key, whatever
  characters the repository name contains.
\<close>

theorem Key_String_injective: "inj Key_String"
  by (simp add: inj_def)

text \<open>
  A vector given back stays given back: an instance that does not charge the host is deleted,
  or is being torn down with its machine proven absent, or is stopping with its machine proven
  off; in particular no draining instance releases its vector on a reading that it is merely stopped.
\<close>

theorem released_vector_iff:
  "\<not> ConsumesHostResources i \<longleftrightarrow>
     Inst_State i = InstanceDeleted
     \<or> Inst_State i \<in> {InstanceDraining, InstanceDeregistering, InstanceStopping} \<and> Inst_Power i = InstancePowerAbsent
     \<or> Inst_State i = InstanceStopping \<and> Inst_Power i = InstancePowerStopped"
  by (auto simp: ConsumesHostResources_iff TearingDown_def split: InstanceState.splits)

end
