(* ===== verification/Corroboration.thy ===== *)
theory Corroboration
  imports Domain
begin

text \<open>
  \<open>internal/domain/corroboration.go\<close> and \<open>internal/domain/emptyexit.go\<close>: the bound a claim
  that a live instance's VM is off must meet before the fleet acts on it, and the hold on a
  demand whose instances keep leaving without taking its job.
\<close>

section \<open>Corroborated power\<close>

definition PowerSignal :: "InstancePower \<Rightarrow> GuestLiveness" where
  "PowerSignal pw =
     (case pw of
        InstancePowerRunning \<Rightarrow> GuestLivenessAlive
      | InstancePowerStopped \<Rightarrow> GuestLivenessRefused
      | _ \<Rightarrow> GuestLivenessUnknown)"

definition PowerCorroboration :: GuestLivenessPolicy where
  "PowerCorroboration = \<lparr>GP_ConsecutiveRefusals = 3, GP_Window = 45 * second\<rparr>"

definition PowerRetractedFactor :: int where
  "PowerRetractedFactor = 8"

definition powerBound :: "bool \<Rightarrow> GuestLivenessPolicy" where
  "powerBound retracted =
     (if retracted
      then PowerCorroboration\<lparr>GP_Window := GP_Window PowerCorroboration * PowerRetractedFactor\<rparr>
      else PowerCorroboration)"

definition CorroboratedPower ::
    "InstancePower \<Rightarrow> InstanceState \<Rightarrow> GuestLivenessState \<Rightarrow> bool \<Rightarrow> time \<Rightarrow> InstancePower" where
  "CorroboratedPower pw state run retracted now =
     (if pw \<noteq> InstancePowerStopped \<or> TearingDown state \<or> Confirmed (powerBound retracted) run now
      then pw else InstancePowerUnknown)"

interpretation power_reading: observation_source PowerSignal "\<lambda>p. p = InstancePowerStopped"
  by unfold_locales (simp add: PowerSignal_def split: InstancePower.splits)

section \<open>Empty exits\<close>

record EmptyExits =
  EE_Count :: int
  EE_Last :: time
  EE_Unassigned :: int
  EE_Assigned :: time

record EmptyExitKey =
  EK_Demand :: DemandKey
  EK_Image :: string

record EmptyExitPolicy =
  EP_Tolerated :: int
  EP_Base :: duration
  EP_Cap :: duration

definition EmptyExitBackoff :: EmptyExitPolicy where
  "EmptyExitBackoff = \<lparr>EP_Tolerated = 2, EP_Base = 5 * minute, EP_Cap = 15 * minute\<rparr>"

definition Exceeded :: "EmptyExitPolicy \<Rightarrow> EmptyExits \<Rightarrow> bool" where
  "Exceeded p exits \<longleftrightarrow> EP_Base p > 0 \<and> EE_Count exits > EP_Tolerated p \<and> \<not> time_IsZero (EE_Last exits)"

text \<open>The doubling loop of \<open>RetryAt\<close>: at most \<open>n\<close> rounds, left early once the cap is reached.\<close>

fun hold_loop :: "duration \<Rightarrow> nat \<Rightarrow> duration \<Rightarrow> duration" where
  "hold_loop cap 0 hold = hold"
| "hold_loop cap (Suc n) hold = (if hold \<ge> cap then hold else hold_loop cap n (hold * 2))"

definition Exit_RetryAt :: "EmptyExitPolicy \<Rightarrow> EmptyExits \<Rightarrow> time" where
  "Exit_RetryAt p exits =
     (if \<not> Exceeded p exits then EE_Last exits
      else EE_Last exits + min (hold_loop (EP_Cap p) (nat (EE_Count exits - EP_Tolerated p - 1)) (EP_Base p)) (EP_Cap p))"

definition Holds :: "EmptyExitPolicy \<Rightarrow> EmptyExits \<Rightarrow> time \<Rightarrow> bool" where
  "Holds p exits now \<longleftrightarrow> Exceeded p exits \<and> \<not> EE_Last exits > now \<and> now < Exit_RetryAt p exits"

lemmas [fleet_eval] =
  PowerSignal_def PowerCorroboration_def PowerRetractedFactor_def powerBound_def CorroboratedPower_def
  EmptyExitBackoff_def Exceeded_def Exit_RetryAt_def Holds_def

section \<open>The doubling hold\<close>

lemma hold_loop_min:
  "0 < hold \<Longrightarrow> min (hold_loop cap n hold) cap = min (hold * 2 ^ n) cap"
proof (induction n arbitrary: hold)
  case 0
  then show ?case by simp
next
  case (Suc n)
  show ?case
  proof (cases "cap \<le> hold")
    case True
    have "hold * 1 \<le> hold * 2 ^ Suc n"
      using Suc.prems one_le_power [of "2 :: int" "Suc n"] by (intro mult_left_mono) simp_all
    with True show ?thesis by (simp del: power_Suc)
  next
    case False
    with Suc.IH [of "hold * 2"] Suc.prems show ?thesis by (simp add: mult.assoc)
  qed
qed

lemma Exit_RetryAt_closed:
  assumes "Exceeded p e"
  shows "Exit_RetryAt p e =
    EE_Last e + min (EP_Base p * 2 ^ nat (EE_Count e - EP_Tolerated p - 1)) (EP_Cap p)"
  using assms hold_loop_min [of "EP_Base p"] by (simp add: Exit_RetryAt_def Exceeded_def)

lemma Exit_RetryAt_le_cap: "Exceeded p e \<Longrightarrow> Exit_RetryAt p e \<le> EE_Last e + EP_Cap p"
  by (simp add: Exit_RetryAt_def)

lemma Exit_RetryAt_ge_base:
  assumes "Exceeded p e"
  shows "EE_Last e + min (EP_Base p) (EP_Cap p) \<le> Exit_RetryAt p e"
proof -
  have "EP_Base p * 1 \<le> EP_Base p * 2 ^ nat (EE_Count e - EP_Tolerated p - 1)"
    using assms by (intro mult_left_mono) (simp_all add: Exceeded_def)
  then show ?thesis by (simp add: Exit_RetryAt_closed [OF assms])
qed

section \<open>Corroboration properties\<close>

text \<open>
  C34. The fleet believes that a live instance's machine is off only on a corroborated run of
  readings: outside a teardown, the reading \<open>stopped\<close> survives exactly when the history of power
  readings ends in at least three consecutive \<open>stopped\<close> readings that span the window, which is
  eight times as long once an instance's reading has been retracted before.
\<close>

theorem CorroboratedPower_stopped_iff:
  assumes "\<forall>(r, t) \<in> set h. t \<noteq> 0"
  shows "CorroboratedPower InstancePowerStopped state
      (foldl (\<lambda>s (r, t). Observe (powerBound retracted) s (PowerSignal r) t) zero_GuestLivenessState h) retracted now = InstancePowerStopped
    \<longleftrightarrow> TearingDown state
      \<or> 3 \<le> length (hostile_run (\<lambda>r. r = InstancePowerStopped) h)
        \<and> run_start (hostile_run (\<lambda>r. r = InstancePowerStopped) h) \<le> now
        \<and> (if retracted then 360 * second else 45 * second) \<le> time_Sub now (run_start (hostile_run (\<lambda>r. r = InstancePowerStopped) h))"
  using power_reading.confirmed_run [OF assms, of "powerBound retracted" now]
  by (auto simp: CorroboratedPower_def power_reading.observe_all_def powerBound_def PowerCorroboration_def
      PowerRetractedFactor_def Enabled_def)

theorem CorroboratedPower_stopped_iff_witness:
  "CorroboratedPower InstancePowerStopped InstanceRunning
     (foldl (\<lambda>s (r, t). Observe (powerBound False) s (PowerSignal r) t) zero_GuestLivenessState
       [(InstancePowerRunning, second), (InstancePowerStopped, 2 * second), (InstancePowerStopped, 20 * second),
        (InstancePowerStopped, 40 * second)]) False (50 * second) = InstancePowerStopped"
  by (subst CorroboratedPower_stopped_iff) (simp_all add: hostile_run_def run_start_def fleet_eval)



end
