(* ===== verification/Content_Address.thy ===== *)
theory Content_Address
  imports Domain "HOL-Library.Word"
begin

text \<open>
  What the planner uses of Go's standard library to name its decisions: SHA-256
  (\<open>crypto/sha256\<close>), hexadecimal (\<open>encoding/hex\<close>) and the encoding of strings, integers and
  instants by \<open>encoding/json\<close>. \<open>stableID\<close> (\<open>internal/scheduler/scheduler.go\<close>) prints the
  first twelve bytes of the digest of a JSON encoding. The JSON text of the planner's own
  structs is in \<open>Scheduler_Types\<close>, beside the structs.

  Strings are byte strings holding valid UTF-8 without the code points U+2028 and U+2029, the
  only non-ASCII input \<open>encoding/json\<close> rewrites; instants are in UTC.
\<close>

unbundle bit_operations_syntax

section \<open>SHA-256\<close>

text \<open>
  The constants are defined as the standard defines them: the first 32 bits of the fractional parts
  of the cube roots of the first 64 primes, and of the square roots of the first eight. The root is
  found bit by bit; truncation to a word drops its integer part.
\<close>

fun root_from :: "nat \<Rightarrow> nat \<Rightarrow> nat \<Rightarrow> nat \<Rightarrow> nat" where
  "root_from k n 0 acc = acc"
| "root_from k n (Suc b) acc = root_from k n b (if (acc + 2 ^ b) ^ k \<le> n then acc + 2 ^ b else acc)"

definition sha_primes :: "nat list" where
  "sha_primes = [2, 3, 5, 7, 11, 13, 17, 19, 23, 29, 31, 37, 41, 43, 47, 53, 59, 61, 67, 71, 73, 79,
     83, 89, 97, 101, 103, 107, 109, 113, 127, 131, 137, 139, 149, 151, 157, 163, 167, 173, 179, 181, 191, 193,
     197, 199, 211, 223, 227, 229, 233, 239, 241, 251, 257, 263, 269, 271, 277, 281, 283, 293, 307, 311]"

definition sha_K :: "32 word list" where
  "sha_K = map (\<lambda>p. word_of_nat (root_from 3 (p * 2 ^ 96) 36 0)) sha_primes"

type_synonym sha_state = "32 word list"

definition sha_init :: sha_state where
  "sha_init = map (\<lambda>p. word_of_nat (root_from 2 (p * 2 ^ 64) 36 0)) (take 8 sha_primes)"

definition rotr :: "nat \<Rightarrow> 32 word \<Rightarrow> 32 word" where
  "rotr n x = drop_bit n x OR push_bit (32 - n) x"

definition small_sigma0 :: "32 word \<Rightarrow> 32 word" where
  "small_sigma0 x = rotr 7 x XOR rotr 18 x XOR drop_bit 3 x"

definition small_sigma1 :: "32 word \<Rightarrow> 32 word" where
  "small_sigma1 x = rotr 17 x XOR rotr 19 x XOR drop_bit 10 x"

definition big_sigma0 :: "32 word \<Rightarrow> 32 word" where
  "big_sigma0 x = rotr 2 x XOR rotr 13 x XOR rotr 22 x"

definition big_sigma1 :: "32 word \<Rightarrow> 32 word" where
  "big_sigma1 x = rotr 6 x XOR rotr 11 x XOR rotr 25 x"

definition sha_ch :: "32 word \<Rightarrow> 32 word \<Rightarrow> 32 word \<Rightarrow> 32 word" where
  "sha_ch x y z = (x AND y) XOR (NOT x AND z)"

definition sha_maj :: "32 word \<Rightarrow> 32 word \<Rightarrow> 32 word \<Rightarrow> 32 word" where
  "sha_maj x y z = (x AND y) XOR (x AND z) XOR (y AND z)"

text \<open>The message schedule, newest word first while it is being extended.\<close>

fun sha_extend :: "nat \<Rightarrow> 32 word list \<Rightarrow> 32 word list" where
  "sha_extend 0 ws = ws"
| "sha_extend (Suc n) ws =
     sha_extend n ((small_sigma1 (ws ! 1) + ws ! 6 + small_sigma0 (ws ! 14) + ws ! 15) # ws)"

fun sha_round :: "sha_state \<Rightarrow> 32 word \<times> 32 word \<Rightarrow> sha_state" where
  "sha_round [a, b, c, d, e, f, g, h] (k, w) =
     (let t1 = h + big_sigma1 e + sha_ch e f g + k + w;
          t2 = big_sigma0 a + sha_maj a b c
      in [t1 + t2, a, b, c, d + t1, e, f, g])"
| "sha_round s _ = s"

fun be_word :: "nat list \<Rightarrow> 32 word" where
  "be_word [] = 0"
| "be_word (b # bs) = push_bit (8 * length bs) (of_nat b) OR be_word bs"

fun chunks_of :: "nat \<Rightarrow> nat \<Rightarrow> 'a list \<Rightarrow> 'a list list" where
  "chunks_of 0 n xs = []"
| "chunks_of (Suc fuel) n xs = (if xs = [] then [] else take n xs # chunks_of fuel n (drop n xs))"

definition sha_block :: "sha_state \<Rightarrow> nat list \<Rightarrow> sha_state" where
  "sha_block h block =
     (let w = rev (sha_extend 48 (rev (map be_word (chunks_of 16 4 block))))
      in map2 (+) h (foldl sha_round h (zip sha_K w)))"

definition be_bytes :: "nat \<Rightarrow> nat \<Rightarrow> nat list" where
  "be_bytes n v = map (\<lambda>i. (v div 256 ^ i) mod 256) (rev [0..<n])"

definition sha_pad :: "nat list \<Rightarrow> nat list" where
  "sha_pad m = m @ [128] @ replicate ((119 - length m mod 64) mod 64) 0 @ be_bytes 8 (8 * length m)"

definition sha256 :: "nat list \<Rightarrow> nat list" where
  "sha256 m =
     concat (map (\<lambda>w. be_bytes 4 (unat w))
       (foldl sha_block sha_init (chunks_of (length (sha_pad m)) 64 (sha_pad m))))"

section \<open>Hexadecimal and the content address\<close>

definition hex_digit :: "nat \<Rightarrow> char" where
  "hex_digit n = (if n < 10 then char_of (n + 48) else char_of (n + 87))"

definition hex_byte :: "nat \<Rightarrow> string" where
  "hex_byte b = [hex_digit (b div 16), hex_digit (b mod 16)]"

definition hex_EncodeToString :: "nat list \<Rightarrow> string" where
  "hex_EncodeToString bs = concat (map hex_byte bs)"

definition bytes_of :: "string \<Rightarrow> nat list" where
  "bytes_of s = map of_char s"

definition stableID :: "string \<Rightarrow> string \<Rightarrow> string" where
  "stableID pre encoded = pre @ ''-'' @ hex_EncodeToString (take 12 (sha256 (bytes_of encoded)))"

section \<open>JSON text\<close>

definition json_char :: "char \<Rightarrow> string" where
  "json_char c =
     (let n = (of_char c :: nat) in
      if n = 34 then [CHR 0x5C, CHR 0x22]
      else if n = 92 then [CHR 0x5C, CHR 0x5C]
      else if n = 8 then [CHR 0x5C, CHR ''b'']
      else if n = 12 then [CHR 0x5C, CHR ''f'']
      else if n = 10 then [CHR 0x5C, CHR ''n'']
      else if n = 13 then [CHR 0x5C, CHR ''r'']
      else if n = 9 then [CHR 0x5C, CHR ''t'']
      else if n < 32 \<or> n = 60 \<or> n = 62 \<or> n = 38 then CHR 0x5C # ''u00'' @ hex_byte n
      else [c])"

definition json_string :: "string \<Rightarrow> string" where
  "json_string s = CHR 0x22 # concat (map json_char s) @ [CHR 0x22]"

fun join_with :: "string \<Rightarrow> string list \<Rightarrow> string" where
  "join_with sep [] = []"
| "join_with sep [x] = x"
| "join_with sep (x # xs) = x @ sep @ join_with sep xs"

definition json_object :: "(string \<times> string) list \<Rightarrow> string" where
  "json_object fs = ''{'' @ join_with '','' (map (\<lambda>(k, v). json_string k @ '':'' @ v) fs) @ ''}''"

definition json_array :: "string list \<Rightarrow> string" where
  "json_array xs = ''['' @ join_with '','' xs @ '']''"

text \<open>The proleptic Gregorian date of a day number, day 0 being January 1 of year 1.\<close>

definition civil_date :: "int \<Rightarrow> int \<times> int \<times> int" where
  "civil_date days =
     (let z = days + 306;
          era = z div 146097;
          doe = z mod 146097;
          yoe = (doe - doe div 1460 + doe div 36524 - doe div 146096) div 365;
          doy = doe - (365 * yoe + yoe div 4 - yoe div 100);
          mp = (5 * doy + 2) div 153;
          d = doy - (153 * mp + 2) div 5 + 1;
          m = (if mp < 10 then mp + 3 else mp - 9)
      in (yoe + era * 400 + (if m \<le> 2 then 1 else 0), m, d))"

definition pad_left :: "nat \<Rightarrow> int \<Rightarrow> string" where
  "pad_left w n = (let s = decimal n in replicate (w - length s) CHR ''0'' @ s)"

definition trim_zeros :: "string \<Rightarrow> string" where
  "trim_zeros s = rev (dropWhile (\<lambda>c. c = CHR ''0'') (rev s))"

text \<open>\<open>time.Time.MarshalJSON\<close>: RFC 3339 with nanoseconds; a year outside 0 to 9999 is an error.\<close>

definition json_time :: "time \<Rightarrow> string option" where
  "json_time t =
     (let secs = t div second; ns = t mod second; days = secs div 86400; sod = secs mod 86400
      in case civil_date days of (y, m, d) \<Rightarrow>
        if y < 0 \<or> 9999 < y then None
        else Some (json_string (
          pad_left 4 y @ ''-'' @ pad_left 2 m @ ''-'' @ pad_left 2 d @ ''T''
          @ pad_left 2 (sod div 3600) @ '':'' @ pad_left 2 (sod div 60 mod 60) @ '':'' @ pad_left 2 (sod mod 60)
          @ (if ns = 0 then [] else ''.'' @ trim_zeros (pad_left 9 ns)) @ ''Z'')))"

section \<open>Shape of a content address\<close>

lemma length_sha_round [simp]: "length (sha_round s kw) = length s"
  by (induction s kw rule: sha_round.induct) (auto simp: Let_def)

lemma length_foldl_sha_round [simp]: "length (foldl sha_round s kws) = length s"
  by (induction kws arbitrary: s) auto

lemma length_sha_block [simp]: "length (sha_block s b) = length s"
  by (simp add: sha_block_def Let_def)

lemma length_foldl_sha_block [simp]: "length (foldl sha_block s bs) = length s"
  by (induction bs arbitrary: s) auto

lemma length_be_bytes [simp]: "length (be_bytes n v) = n"
  by (simp add: be_bytes_def)

lemma be_bytes_bound: "b \<in> set (be_bytes n v) \<Longrightarrow> b < 256"
  by (auto simp: be_bytes_def)

lemma length_concat_const: "(\<And>x. x \<in> set xs \<Longrightarrow> length (f x) = n) \<Longrightarrow> length (concat (map f xs)) = n * length xs"
  by (induction xs) auto

lemma length_sha256 [simp]: "length (sha256 m) = 32"
  by (simp add: sha256_def length_concat_const [where n = 4] sha_init_def sha_primes_def)

lemma sha256_bytes: "b \<in> set (sha256 m) \<Longrightarrow> b < 256"
  by (auto simp: sha256_def dest: be_bytes_bound)

lemma hex_digit_alnum: "n < 16 \<Longrightarrow> is_alnum (hex_digit n)"
  by (auto simp: hex_digit_def is_alnum_def Let_def of_char_of)

lemma hex_EncodeToString_alnum:
  "(\<And>b. b \<in> set bs \<Longrightarrow> b < 256) \<Longrightarrow> list_all is_alnum (hex_EncodeToString bs)"
proof -
  have "list_all is_alnum (hex_byte b)" if "b < 256" for b
  proof -
    have "b div 16 < 16" using that by simp
    then show ?thesis by (simp add: hex_byte_def hex_digit_alnum)
  qed
  moreover assume "\<And>b. b \<in> set bs \<Longrightarrow> b < 256"
  ultimately show ?thesis by (auto simp: hex_EncodeToString_def list_all_iff)
qed

lemma length_hex_EncodeToString [simp]: "length (hex_EncodeToString bs) = 2 * length bs"
  by (simp add: hex_EncodeToString_def length_concat_const [where n = 2] hex_byte_def)

lemma length_stableID: "length (stableID pre e) = length pre + 25"
  by (simp add: stableID_def)


end
