(* ===== verification/Scheduler_Types.thy ===== *)
theory Scheduler_Types
  imports Corroboration Content_Address
begin

text \<open>
  The data of \<open>internal/scheduler/scheduler.go\<close>: configuration, durable state, input, operations
  and plans, with the constructors of operations and the content address of a plan.
\<close>

section \<open>Configuration and state\<close>

record Config =
  Cfg_LinuxCapacity :: Resources
  Cfg_FairnessAge :: duration
  Cfg_AssignedTimeout :: duration
  Cfg_RepoCaps :: "string \<rightharpoonup> int"
  Cfg_RepoSchedulingClasses :: "string \<rightharpoonup> SchedulingClass"
  Cfg_Profiles :: "(ProfileID \<times> Profile) list"
  Cfg_MacOSExclusive :: bool
  Cfg_MixedPlatformAdmission :: bool
  Cfg_MixedProfileCohorts :: bool
  Cfg_ElasticHostEnvelope :: bool
  Cfg_HostBudget :: Resources
  Cfg_PriorityEscalation :: duration
  Cfg_GuestLiveness :: GuestLivenessPolicy

text \<open>
  A Go map read returns the zero value for a missing key. The profiles are an association list
  because one function iterates over them, in an order Go leaves open.
\<close>

definition profile_known :: "Config \<Rightarrow> ProfileID \<Rightarrow> bool" where
  "profile_known cfg p \<longleftrightarrow> map_of (Cfg_Profiles cfg) p \<noteq> None"

definition profile_at :: "Config \<Rightarrow> ProfileID \<Rightarrow> Profile" where
  "profile_at cfg p = (case map_of (Cfg_Profiles cfg) p of None \<Rightarrow> zero_Profile | Some q \<Rightarrow> q)"

definition controlPlane_repo :: "Config \<Rightarrow> string \<Rightarrow> bool" where
  "controlPlane_repo cfg repo \<longleftrightarrow> Cfg_RepoSchedulingClasses cfg repo = Some SchedulingControlPlane"

record MacHandoff =
  MH_Demand :: DemandKey
  MH_Profile :: ProfileID
  MH_Since :: time
  MH_BackfillAdmitted :: bool

record LinuxHandoff =
  LH_Demand :: DemandKey
  LH_Since :: time
  LH_BackfillAdmitted :: bool

record SchedState =
  St_Reservation :: "Reservation option"
  St_DRRCursor :: string
  St_MacHandoff :: "MacHandoff option"
  St_LinuxHandoff :: "LinuxHandoff option"

record Input =
  In_Now :: time
  In_Config :: Config
  In_Demands :: "Demand list Observation"
  In_Instances :: "Instance list Observation"
  In_Host :: "Host Observation"
  In_Prior :: SchedState

abbreviation In_insts :: "Input \<Rightarrow> Instance list" where
  "In_insts inp \<equiv> Ob_Value (In_Instances inp)"

abbreviation In_aged :: "Input \<Rightarrow> duration" where
  "In_aged inp \<equiv> Cfg_FairnessAge (In_Config inp)"

abbreviation with_instances :: "Input \<Rightarrow> Instance list \<Rightarrow> Input" where
  "with_instances inp xs \<equiv> inp\<lparr>In_Instances := Fresh xs (Ob_ObservedAt (In_Instances inp))\<rparr>"

section \<open>Operations\<close>

datatype OperationKind = OperationSpawn | OperationDrain | OperationKindOther string

record Operation =
  Op_ID :: string
  Op_Kind :: OperationKind
  Op_Demand :: DemandKey
  Op_Instance :: string
  Op_Profile :: ProfileID
  Op_Route :: Route
  Op_DependsOn :: "string list"
  Op_Recovery :: bool
  Op_ConfirmedInactive :: bool
  Op_StalledAssignment :: bool
  Op_LingeringRunner :: bool
  Op_OccupancyExceeded :: bool
  Op_GuestUnresponsive :: bool
  Op_ProvisionStalled :: bool

definition zero_Operation :: Operation where
  "zero_Operation = \<lparr>Op_ID = [], Op_Kind = OperationKindOther [], Op_Demand = zero_DemandKey, Op_Instance = [],
     Op_Profile = [], Op_Route = [], Op_DependsOn = [], Op_Recovery = False, Op_ConfirmedInactive = False,
     Op_StalledAssignment = False, Op_LingeringRunner = False, Op_OccupancyExceeded = False,
     Op_GuestUnresponsive = False, Op_ProvisionStalled = False\<rparr>"

definition kind_text :: "OperationKind \<Rightarrow> string" where
  "kind_text k = (case k of OperationSpawn \<Rightarrow> ''spawn'' | OperationDrain \<Rightarrow> ''drain'' | OperationKindOther s \<Rightarrow> s)"

definition json_bool :: "bool \<Rightarrow> string" where
  "json_bool b = (if b then ''true'' else ''false'')"

definition json_key :: "DemandKey \<Rightarrow> string" where
  "json_key k = json_object [(''Repo'', json_string (Key_Repo k)), (''RunID'', decimal (Key_RunID k)),
     (''Attempt'', decimal (Key_Attempt k)), (''JobID'', decimal (Key_JobID k))]"

text \<open>The planner builds \<open>DependsOn\<close> by \<open>append([]string(nil), \<dots>)\<close>, so an empty list is nil.\<close>

definition json_operation :: "Operation \<Rightarrow> string" where
  "json_operation q = json_object (
     [(''ID'', json_string (Op_ID q)), (''Kind'', json_string (kind_text (Op_Kind q))),
      (''Demand'', json_key (Op_Demand q)), (''Instance'', json_string (Op_Instance q)),
      (''Profile'', json_string (Op_Profile q)), (''Route'', json_string (Op_Route q)),
      (''DependsOn'', if Op_DependsOn q = [] then ''null'' else json_array (map json_string (Op_DependsOn q)))]
     @ (if Op_Recovery q then [(''recovery'', ''true'')] else [])
     @ (if Op_ConfirmedInactive q then [(''confirmedInactive'', ''true'')] else [])
     @ (if Op_StalledAssignment q then [(''stalledAssignment'', ''true'')] else [])
     @ (if Op_LingeringRunner q then [(''lingeringRunner'', ''true'')] else [])
     @ (if Op_OccupancyExceeded q then [(''occupancyExceeded'', ''true'')] else [])
     @ (if Op_GuestUnresponsive q then [(''guestUnresponsive'', ''true'')] else [])
     @ (if Op_ProvisionStalled q then [(''provisionStalled'', ''true'')] else []))"

text \<open>\<open>operation.ID = stableID("op", operation)\<close>: the address covers every other field.\<close>

definition sealed :: "Operation \<Rightarrow> Operation" where
  "sealed q = q\<lparr>Op_ID := stableID ''op'' (json_operation q)\<rparr>"

definition spawnOperation :: "Demand \<Rightarrow> string list \<Rightarrow> Operation" where
  "spawnOperation demand dependencies =
     sealed (zero_Operation\<lparr>Op_Kind := OperationSpawn, Op_Demand := Dem_Key demand,
       Op_Profile := Dem_Profile demand, Op_Route := Dem_Route demand, Op_DependsOn := dependencies\<rparr>)"

definition drainOperation :: "Instance \<Rightarrow> Operation" where
  "drainOperation i =
     sealed (zero_Operation\<lparr>Op_Kind := OperationDrain, Op_Instance := Inst_ID i,
       Op_Profile := Inst_Profile i, Op_Route := Inst_Route i\<rparr>)"

definition operationIDs :: "Operation list \<Rightarrow> string list" where
  "operationIDs ops = map Op_ID ops"

definition containsDrain :: "Operation list \<Rightarrow> bool" where
  "containsDrain ops = list_ex (\<lambda>q. Op_Kind q = OperationDrain) ops"

definition containsSpawn :: "Operation list \<Rightarrow> bool" where
  "containsSpawn ops = list_ex (\<lambda>q. Op_Kind q = OperationSpawn) ops"

section \<open>Plans\<close>

datatype PlanStatus = PlanReady | PlanBlockedObservation | PlanInvalidObservation

datatype ReservationAxis =
    ReservationAxisUnset
  | ReservationAxisVector
  | ReservationAxisRepositoryCap
  | ReservationAxisBoth
  | ReservationAxisNone

record Envelope =
  Env_Free :: Resources
  Env_AgedFree :: Resources

record Plan =
  Plan_ID :: string
  Plan_Status :: PlanStatus
  Plan_Operations :: "Operation list"
  Plan_Next :: SchedState
  Plan_Reason :: string
  Plan_ReservationAxis :: ReservationAxis
  Plan_Envelope :: Envelope

definition new_Plan :: "PlanStatus \<Rightarrow> SchedState \<Rightarrow> string \<Rightarrow> Plan" where
  "new_Plan status nxt reason = \<lparr>Plan_ID = [], Plan_Status = status, Plan_Operations = [], Plan_Next = nxt,
     Plan_Reason = reason, Plan_ReservationAxis = ReservationAxisUnset,
     Plan_Envelope = \<lparr>Env_Free = zero_Resources, Env_AgedFree = zero_Resources\<rparr>\<rparr>"

abbreviation add_ops :: "Operation list \<Rightarrow> Plan \<Rightarrow> Plan" where
  "add_ops ops plan \<equiv> plan\<lparr>Plan_Operations := Plan_Operations plan @ ops\<rparr>"

abbreviation set_reservation :: "Reservation option \<Rightarrow> Plan \<Rightarrow> Plan" where
  "set_reservation r plan \<equiv> plan\<lparr>Plan_Next := (Plan_Next plan)\<lparr>St_Reservation := r\<rparr>\<rparr>"

abbreviation set_cursor :: "string \<Rightarrow> Plan \<Rightarrow> Plan" where
  "set_cursor c plan \<equiv> plan\<lparr>Plan_Next := (Plan_Next plan)\<lparr>St_DRRCursor := c\<rparr>\<rparr>"

abbreviation set_macHandoff :: "MacHandoff option \<Rightarrow> Plan \<Rightarrow> Plan" where
  "set_macHandoff h plan \<equiv> plan\<lparr>Plan_Next := (Plan_Next plan)\<lparr>St_MacHandoff := h\<rparr>\<rparr>"

abbreviation set_linuxHandoff :: "LinuxHandoff option \<Rightarrow> Plan \<Rightarrow> Plan" where
  "set_linuxHandoff h plan \<equiv> plan\<lparr>Plan_Next := (Plan_Next plan)\<lparr>St_LinuxHandoff := h\<rparr>\<rparr>"

abbreviation set_axis :: "ReservationAxis \<Rightarrow> Plan \<Rightarrow> Plan" where
  "set_axis a plan \<equiv> plan\<lparr>Plan_ReservationAxis := a\<rparr>"

definition json_reservation :: "Reservation \<Rightarrow> string option" where
  "json_reservation r = do {
     since \<leftarrow> json_time (Rv_Since r);
     Some (json_object [(''Demand'', json_key (Rv_Demand r)), (''Profile'', json_string (Rv_Profile r)),
       (''Resources'', json_object [(''CPU'', decimal (CPU (Rv_Resources r))),
          (''MemoryMB'', decimal (MemoryMB (Rv_Resources r))), (''Slots'', decimal (Slots (Rv_Resources r)))]),
       (''Since'', since)]) }"

definition json_macHandoff :: "MacHandoff \<Rightarrow> string option" where
  "json_macHandoff h = do {
     since \<leftarrow> json_time (MH_Since h);
     Some (json_object [(''Demand'', json_key (MH_Demand h)), (''Profile'', json_string (MH_Profile h)),
       (''Since'', since), (''BackfillAdmitted'', json_bool (MH_BackfillAdmitted h))]) }"

definition json_linuxHandoff :: "LinuxHandoff \<Rightarrow> string option" where
  "json_linuxHandoff h = do {
     since \<leftarrow> json_time (LH_Since h);
     Some (json_object [(''Demand'', json_key (LH_Demand h)), (''Since'', since),
       (''BackfillAdmitted'', json_bool (LH_BackfillAdmitted h))]) }"

definition json_nullable :: "('a \<Rightarrow> string option) \<Rightarrow> 'a option \<Rightarrow> string option" where
  "json_nullable f x = (case x of None \<Rightarrow> Some ''null'' | Some v \<Rightarrow> f v)"

definition json_state :: "SchedState \<Rightarrow> string option" where
  "json_state s = do {
     r \<leftarrow> json_nullable json_reservation (St_Reservation s);
     m \<leftarrow> json_nullable json_macHandoff (St_MacHandoff s);
     l \<leftarrow> json_nullable json_linuxHandoff (St_LinuxHandoff s);
     Some (json_object [(''Reservation'', r), (''DRRCursor'', json_string (St_DRRCursor s)),
       (''MacHandoff'', m), (''LinuxHandoff'', l)]) }"

definition status_text :: "PlanStatus \<Rightarrow> string" where
  "status_text s = (case s of PlanReady \<Rightarrow> ''ready'' | PlanBlockedObservation \<Rightarrow> ''blocked_observation''
     | PlanInvalidObservation \<Rightarrow> ''invalid_observation'')"

text \<open>\<open>json.Marshal\<close> fails only on an instant outside the printable years; \<open>stableID\<close> then hashes nothing.\<close>

definition json_plan :: "Plan \<Rightarrow> string" where
  "json_plan plan =
     (case json_state (Plan_Next plan) of
        None \<Rightarrow> []
      | Some s \<Rightarrow> json_object [(''Status'', json_string (status_text (Plan_Status plan))),
          (''Operations'', if Plan_Operations plan = [] then ''null'' else json_array (map json_operation (Plan_Operations plan))),
          (''Next'', s)])"

definition finish :: "Plan \<Rightarrow> Plan" where
  "finish plan = plan\<lparr>Plan_ID := stableID ''plan'' (json_plan plan)\<rparr>"

lemmas [fleet_eval] =
  profile_known_def profile_at_def controlPlane_repo_def operationIDs_def containsDrain_def containsSpawn_def
  new_Plan_def

section \<open>Selectors of the constructed operations\<close>

lemma zero_Operation_simps [simp]:
  "Op_Kind zero_Operation = OperationKindOther []" "Op_Demand zero_Operation = zero_DemandKey"
  "Op_Instance zero_Operation = []" "Op_Profile zero_Operation = []" "Op_Route zero_Operation = []"
  "Op_DependsOn zero_Operation = []" "\<not> Op_Recovery zero_Operation" "\<not> Op_ConfirmedInactive zero_Operation"
  "\<not> Op_StalledAssignment zero_Operation" "\<not> Op_LingeringRunner zero_Operation"
  "\<not> Op_OccupancyExceeded zero_Operation" "\<not> Op_GuestUnresponsive zero_Operation"
  "\<not> Op_ProvisionStalled zero_Operation"
  by (simp_all add: zero_Operation_def)

lemma sealed_simps [simp]:
  "Op_Kind (sealed q) = Op_Kind q" "Op_Demand (sealed q) = Op_Demand q"
  "Op_Instance (sealed q) = Op_Instance q" "Op_Profile (sealed q) = Op_Profile q"
  "Op_Route (sealed q) = Op_Route q" "Op_DependsOn (sealed q) = Op_DependsOn q"
  "Op_Recovery (sealed q) = Op_Recovery q" "Op_ConfirmedInactive (sealed q) = Op_ConfirmedInactive q"
  "Op_StalledAssignment (sealed q) = Op_StalledAssignment q" "Op_LingeringRunner (sealed q) = Op_LingeringRunner q"
  "Op_OccupancyExceeded (sealed q) = Op_OccupancyExceeded q" "Op_GuestUnresponsive (sealed q) = Op_GuestUnresponsive q"
  "Op_ProvisionStalled (sealed q) = Op_ProvisionStalled q"
  "Op_ID (sealed q) = stableID ''op'' (json_operation q)"
  by (simp_all add: sealed_def)

lemma spawnOperation_simps [simp]:
  "Op_Kind (spawnOperation d deps) = OperationSpawn" "Op_Demand (spawnOperation d deps) = Dem_Key d"
  "Op_Profile (spawnOperation d deps) = Dem_Profile d" "Op_Route (spawnOperation d deps) = Dem_Route d"
  "Op_DependsOn (spawnOperation d deps) = deps" "\<not> Op_Recovery (spawnOperation d deps)"
  by (simp_all add: spawnOperation_def)

lemma drainOperation_simps [simp]:
  "Op_Kind (drainOperation i) = OperationDrain" "Op_Instance (drainOperation i) = Inst_ID i"
  "Op_Profile (drainOperation i) = Inst_Profile i" "\<not> Op_Recovery (drainOperation i)"
  "Op_Demand (drainOperation i) = zero_DemandKey" "Op_DependsOn (drainOperation i) = []"
  by (simp_all add: drainOperation_def)

lemma containsSpawn_simps [simp]:
  "\<not> containsSpawn []" "containsSpawn (q # qs) \<longleftrightarrow> Op_Kind q = OperationSpawn \<or> containsSpawn qs"
  "containsSpawn (xs @ ys) \<longleftrightarrow> containsSpawn xs \<or> containsSpawn ys"
  by (simp_all add: containsSpawn_def)

lemma containsDrain_simps [simp]:
  "\<not> containsDrain []" "containsDrain (q # qs) \<longleftrightarrow> Op_Kind q = OperationDrain \<or> containsDrain qs"
  "containsDrain (xs @ ys) \<longleftrightarrow> containsDrain xs \<or> containsDrain ys"
  by (simp_all add: containsDrain_def)

lemma finish_simps [simp]:
  "Plan_Status (finish plan) = Plan_Status plan" "Plan_Operations (finish plan) = Plan_Operations plan"
  "Plan_Next (finish plan) = Plan_Next plan" "Plan_Reason (finish plan) = Plan_Reason plan"
  "Plan_ReservationAxis (finish plan) = Plan_ReservationAxis plan"
  "Plan_Envelope (finish plan) = Plan_Envelope plan"
  by (simp_all add: finish_def)

lemma new_Plan_simps [simp]:
  "Plan_Operations (new_Plan st nx rs) = []" "Plan_Status (new_Plan st nx rs) = st"
  "Plan_Next (new_Plan st nx rs) = nx" "Plan_Reason (new_Plan st nx rs) = rs"
  "Plan_ReservationAxis (new_Plan st nx rs) = ReservationAxisUnset"
  by (simp_all add: new_Plan_def)

end
