(* ===== verification/Fixture.thy ===== *)
theory Fixture
  imports Scheduler_Types
begin

text \<open>
  A small fleet for concrete evaluations: one Linux profile and two macOS profiles on a host of
  ten cores, and constructors for its demands, instances and inputs. Content addresses are left
  symbolic when these are evaluated: which operation a plan holds does not depend on its address.
\<close>

declare stableID_def [code del] json_operation_def [code del] json_plan_def [code del]

definition fx_res :: "int \<Rightarrow> int \<Rightarrow> int \<Rightarrow> Resources" where
  "fx_res c m s = \<lparr>CPU = c, MemoryMB = m, Slots = s\<rparr>"

definition fx_profile :: "string \<Rightarrow> Platform \<Rightarrow> Resources \<Rightarrow> int \<Rightarrow> Profile" where
  "fx_profile p pl r n = \<lparr>Prof_ID = p, Prof_Platform = pl, Prof_Route = p, Prof_Resources = r, Prof_MaxActive = n,
     Prof_OccupancyBudget = 0\<rparr>"

definition fx_config :: Config where
  "fx_config = \<lparr>Cfg_LinuxCapacity = fx_res 10 64 8, Cfg_FairnessAge = 100, Cfg_AssignedTimeout = 0,
     Cfg_RepoCaps = (\<lambda>_. Some 2), Cfg_RepoSchedulingClasses = (\<lambda>_. None),
     Cfg_Profiles = [(''small'', fx_profile ''small'' PlatformLinux (fx_res 2 4 1) 0),
       (''mac'', fx_profile ''mac'' PlatformMacOS (fx_res 4 8 1) 2),
       (''big'', fx_profile ''big'' PlatformMacOS (fx_res 6 12 1) 1)],
     Cfg_MacOSExclusive = False, Cfg_MixedPlatformAdmission = True, Cfg_MixedProfileCohorts = False,
     Cfg_ElasticHostEnvelope = False, Cfg_HostBudget = zero_Resources, Cfg_PriorityEscalation = 0,
     Cfg_GuestLiveness = \<lparr>GP_ConsecutiveRefusals = 0, GP_Window = 0\<rparr>\<rparr>"

definition fx_demand :: "string \<Rightarrow> int \<Rightarrow> time \<Rightarrow> string \<Rightarrow> Platform \<Rightarrow> Demand" where
  "fx_demand repo job created p pl = \<lparr>Dem_Key = \<lparr>Key_Repo = repo, Key_RunID = 1, Key_Attempt = 1, Key_JobID = job\<rparr>,
     Dem_CreatedAt = created, Dem_NotBefore = 0, Dem_Profile = p, Dem_Route = p, Dem_Platform = pl,
     Dem_Event = EventPush, Dem_RunStatus = RunQueued, Dem_Priority = zero_Priority\<rparr>"

definition fx_instance :: "string \<Rightarrow> string \<Rightarrow> string \<Rightarrow> Platform \<Rightarrow> Resources \<Rightarrow> InstanceState \<Rightarrow> Instance" where
  "fx_instance n repo p pl r s = zero_Instance\<lparr>Inst_ID := n, Inst_Repo := repo, Inst_Profile := p, Inst_Route := p,
     Inst_Platform := pl, Inst_Resources := r, Inst_State := s, Inst_Power := InstancePowerRunning\<rparr>"

definition fx_state :: SchedState where
  "fx_state = \<lparr>St_Reservation = None, St_DRRCursor = [], St_MacHandoff = None, St_LinuxHandoff = None\<rparr>"

definition fx_input :: "Config \<Rightarrow> Demand list \<Rightarrow> Instance list \<Rightarrow> Resources \<Rightarrow> Input" where
  "fx_input cfg ds is available = \<lparr>In_Now = 1000, In_Config = cfg, In_Demands = Fresh ds 1, In_Instances = Fresh is 1,
     In_Host = Fresh \<lparr>Host_Available = available, Host_Capacity = zero_Resources\<rparr> 1, In_Prior = fx_state\<rparr>"

text \<open>One running Linux instance, two cores of the ten.\<close>

definition fx_busy :: "Instance list" where
  "fx_busy = [fx_instance ''vm1'' ''a/x'' ''small'' PlatformLinux (fx_res 2 4 1) InstanceRunning]"

lemma fx_input_sel [simp]:
  "In_insts (fx_input cfg ds is av) = is" "In_Config (fx_input cfg ds is av) = cfg" "In_Now (fx_input cfg ds is av) = 1000"
  "Ob_Value (In_Demands (fx_input cfg ds is av)) = ds" "In_Prior (fx_input cfg ds is av) = fx_state"
  "Ob_Value (In_Host (fx_input cfg ds is av)) = \<lparr>Host_Available = av, Host_Capacity = zero_Resources\<rparr>"
  by (simp_all add: fx_input_def Fresh_def)

text \<open>A running Linux instance whose machine is off, and one that is well.\<close>

definition fx_stopped :: "Instance list" where
  "fx_stopped = fx_busy @ [(fx_instance ''vm2'' ''a/x'' ''small'' PlatformLinux (fx_res 2 4 1) InstanceRunning)\<lparr>Inst_Power := InstancePowerStopped\<rparr>]"

end
