(* ===== verification/Recovery.thy ===== *)
theory Recovery
  imports Fixture
begin

text \<open>
  Recoveries (\<open>internal/scheduler/scheduler.go\<close>): which instances the planner reclaims before
  it admits anything, and the read-only projections (guest silences, occupancies) derived from
  the same predicates.
\<close>

section \<open>Instance order\<close>

definition instance_less :: "Instance \<Rightarrow> Instance \<Rightarrow> bool" where
  "instance_less a b \<longleftrightarrow> Inst_ID a < Inst_ID b"

definition sortedInstances :: "Instance list \<Rightarrow> Instance list" where
  "sortedInstances instances = sort_slice instance_less instances"

interpretation instance_order: keyed_order instance_less Inst_ID
  by unfold_locales (simp add: instance_less_def)

section \<open>Causes\<close>

definition stalledAssignment :: "time \<Rightarrow> duration \<Rightarrow> Instance \<Rightarrow> bool" where
  "stalledAssignment now assignedTimeout i \<longleftrightarrow>
     Inst_State i = InstanceAssigned \<and> Inst_Power i = InstancePowerRunning \<and>
     \<not> Inst_RecoveryReady i \<and> assignedTimeout > 0 \<and> \<not> time_IsZero (Inst_AssignedSince i) \<and>
     time_Sub now (Inst_AssignedSince i) \<ge> assignedTimeout"

definition provisionStalled :: "time \<Rightarrow> duration \<Rightarrow> Instance \<Rightarrow> bool" where
  "provisionStalled now deadline i =
     (case Inst_State i of
        InstanceCloning \<Rightarrow> deadline > 0 \<and> \<not> time_IsZero (Inst_ProvisioningSince i) \<and> time_Sub now (Inst_ProvisioningSince i) \<ge> deadline
      | InstanceBooting \<Rightarrow> deadline > 0 \<and> \<not> time_IsZero (Inst_ProvisioningSince i) \<and> time_Sub now (Inst_ProvisioningSince i) \<ge> deadline
      | InstanceReachable \<Rightarrow> deadline > 0 \<and> \<not> time_IsZero (Inst_ProvisioningSince i) \<and> time_Sub now (Inst_ProvisioningSince i) \<ge> deadline
      | _ \<Rightarrow> False)"

definition lingeringRunner :: "time \<Rightarrow> duration \<Rightarrow> Instance \<Rightarrow> bool" where
  "lingeringRunner now idleTimeout i \<longleftrightarrow>
     Inst_State i = InstanceRunning \<and> Inst_Power i = InstancePowerRunning \<and>
     \<not> Inst_RecoveryReady i \<and> Inst_JobInactive i \<and> idleTimeout > 0 \<and> \<not> time_IsZero (Inst_RunningSince i) \<and>
     time_Sub now (Inst_RunningSince i) \<ge> idleTimeout"

definition occupancyExceeded :: "time \<Rightarrow> Config \<Rightarrow> Instance \<Rightarrow> bool" where
  "occupancyExceeded now cfg i =
     (if \<not> profile_known cfg (Inst_Profile i)
         \<or> Prof_OccupancyBudget (profile_at cfg (Inst_Profile i)) \<le> 0 \<or> ProvenIdle (Inst_Power i) then False
      else (case Inst_Occupancy i now of (age, measured) \<Rightarrow>
        measured \<and> age \<ge> Prof_OccupancyBudget (profile_at cfg (Inst_Profile i))))"

definition guestUnresponsive :: "time \<Rightarrow> GuestLivenessPolicy \<Rightarrow> Instance \<Rightarrow> bool" where
  "guestUnresponsive now policy i =
     (if Inst_State i \<noteq> InstanceRunning \<or> ProvenIdle (Inst_Power i) then False
      else Confirmed policy (Inst_Guest i) now)"

section \<open>Recoveries\<close>

text \<open>The body of the loop of \<open>assignmentRecoveries\<close>: at most one operation for an instance.\<close>

definition recovery_of :: "time \<Rightarrow> Config \<Rightarrow> Instance \<Rightarrow> Operation option" where
  "recovery_of now cfg i =
     (if provisionStalled now (Cfg_AssignedTimeout cfg) i then
        Some (sealed (zero_Operation\<lparr>Op_Kind := OperationDrain, Op_Instance := Inst_ID i, Op_Profile := Inst_Profile i,
          Op_Route := Inst_Route i, Op_Demand := Inst_Demand i, Op_Recovery := True, Op_ProvisionStalled := True\<rparr>))
      else if Inst_State i \<noteq> InstanceAssigned \<and> Inst_State i \<noteq> InstanceRunning then None
      else
        (let confirmedInactive = (Inst_Power i = InstancePowerRunning \<and> Inst_RecoveryReady i);
             stalled = stalledAssignment now (Cfg_AssignedTimeout cfg) i;
             lingering = lingeringRunner now (Cfg_AssignedTimeout cfg) i;
             overBudget = occupancyExceeded now cfg i;
             guestDead = guestUnresponsive now (Cfg_GuestLiveness cfg) i;
             stopped = (Inst_Power i = InstancePowerStopped)
         in if \<not> stopped \<and> \<not> confirmedInactive \<and> \<not> stalled \<and> \<not> lingering \<and> \<not> overBudget \<and> \<not> guestDead then None
            else
              (let safer = (confirmedInactive \<or> stalled \<or> lingering \<or> stopped);
                   guestDead' = (guestDead \<and> \<not> safer);
                   overBudget' = (overBudget \<and> \<not> safer \<and> \<not> guestDead')
               in Some (sealed (zero_Operation\<lparr>Op_Kind := OperationDrain, Op_Instance := Inst_ID i,
                    Op_Profile := Inst_Profile i, Op_Route := Inst_Route i,
                    Op_Recovery := True, Op_ConfirmedInactive := confirmedInactive, Op_StalledAssignment := stalled,
                    Op_LingeringRunner := lingering, Op_OccupancyExceeded := overBudget', Op_GuestUnresponsive := guestDead',
                    Op_Demand := (if overBudget' \<or> guestDead' then Inst_Demand i else zero_DemandKey)\<rparr>)))))"

definition assignmentRecoveries :: "time \<Rightarrow> Config \<Rightarrow> Instance list \<Rightarrow> Operation list" where
  "assignmentRecoveries now cfg instances = List.map_filter (recovery_of now cfg) (sortedInstances instances)"

section \<open>Projections\<close>

record GuestSilence =
  GS_Instance :: string
  GS_Profile :: ProfileID
  GS_Repo :: string
  GS_Demand :: DemandKey
  GS_Resources :: Resources
  GS_Refusals :: int
  GS_Silence :: duration
  GS_LastAlive :: time
  GS_RequiredRefusals :: int
  GS_Window :: duration
  GS_Unresponsive :: bool

definition GuestSilences :: "time \<Rightarrow> Config \<Rightarrow> Instance list \<Rightarrow> GuestSilence list" where
  "GuestSilences now cfg instances =
     List.map_filter (\<lambda>i.
       if \<not> Live i then None
       else (case Silence (Inst_Guest i) now of (silence, measured) \<Rightarrow>
         if \<not> measured then None
         else Some \<lparr>GS_Instance = Inst_ID i, GS_Profile = Inst_Profile i, GS_Repo = Inst_Repo i,
           GS_Demand = Inst_Demand i, GS_Resources = Inst_Resources i, GS_Refusals = GL_Refusals (Inst_Guest i),
           GS_Silence = silence, GS_LastAlive = GL_LastAlive (Inst_Guest i),
           GS_RequiredRefusals = GP_ConsecutiveRefusals (Cfg_GuestLiveness cfg),
           GS_Window = GP_Window (Cfg_GuestLiveness cfg),
           GS_Unresponsive = guestUnresponsive now (Cfg_GuestLiveness cfg) i\<rparr>)) (sortedInstances instances)"

definition queuedVectors :: "Config \<Rightarrow> Instance list \<Rightarrow> Demand list \<Rightarrow> Resources list" where
  "queuedVectors cfg instances demands =
     (let incarnated = map Inst_Demand (filter IncarnatesDemand instances) in
      map (\<lambda>d. Prof_Resources (profile_at cfg (Dem_Profile d)))
        (filter (\<lambda>d. \<not> (\<not> profile_known cfg (Dem_Profile d) \<or> Dem_Key d \<in> set incarnated)) demands))"

record Occupancy =
  Oc_Instance :: string
  Oc_Profile :: ProfileID
  Oc_Repo :: string
  Oc_Demand :: DemandKey
  Oc_Resources :: Resources
  Oc_Age :: duration
  Oc_Budget :: duration
  Oc_Warned :: bool
  Oc_OverBudget :: bool
  Oc_StarvesQueuedDemand :: bool

text \<open>
  \<open>OccupancyWarnFraction\<close> is three quarters; the source's floating-point product equals the
  integer quotient below for every budget under twenty-six days, where it is exact.
\<close>

definition Occupancies :: "time \<Rightarrow> Config \<Rightarrow> Instance list \<Rightarrow> Demand list \<Rightarrow> Occupancy list" where
  "Occupancies now cfg instances demands =
     (let waiting = queuedVectors cfg instances demands in
      List.map_filter (\<lambda>i. case Inst_Occupancy i now of (age, measured) \<Rightarrow>
        if \<not> measured then None
        else (let budget = Prof_OccupancyBudget (profile_at cfg (Inst_Profile i)) in
          Some \<lparr>Oc_Instance = Inst_ID i, Oc_Profile = Inst_Profile i, Oc_Repo = Inst_Repo i,
            Oc_Demand = Inst_Demand i, Oc_Resources = Inst_Resources i, Oc_Age = age, Oc_Budget = budget,
            Oc_Warned = (budget > 0 \<and> age \<ge> budget * 3 div 4), Oc_OverBudget = (budget > 0 \<and> age \<ge> budget),
            Oc_StarvesQueuedDemand = list_ex (\<lambda>req. CanFit (Inst_Resources i) req) waiting\<rparr>))
        (sortedInstances instances))"

lemmas [fleet_eval] =
  instance_less_def sortedInstances_def stalledAssignment_def provisionStalled_def lingeringRunner_def
  occupancyExceeded_def guestUnresponsive_def recovery_of_def assignmentRecoveries_def GuestSilences_def
  queuedVectors_def Occupancies_def

section \<open>What a recovery rests on\<close>

lemma set_sortedInstances [simp]: "set (sortedInstances is) = set is"
  by (simp add: sortedInstances_def)

lemma mset_sortedInstances [simp]: "mset (sortedInstances is) = mset is"
  by (simp add: sortedInstances_def)

lemma in_assignmentRecoveries:
  "q \<in> set (assignmentRecoveries now cfg is) \<longleftrightarrow> (\<exists>i \<in> set is. recovery_of now cfg i = Some q)"
  by (auto simp: assignmentRecoveries_def List.map_filter_def intro!: image_eqI)

lemma recovery_of_instance: "recovery_of now cfg i = Some q \<Longrightarrow> Op_Instance q = Inst_ID i"
  by (auto simp: recovery_of_def Let_def split: if_splits)

lemma recovery_of_None_iff:
  "recovery_of now cfg i = None \<longleftrightarrow>
     \<not> provisionStalled now (Cfg_AssignedTimeout cfg) i
     \<and> (Inst_State i \<noteq> InstanceAssigned \<and> Inst_State i \<noteq> InstanceRunning
        \<or> \<not> (Inst_Power i = InstancePowerStopped \<or> Inst_Power i = InstancePowerRunning \<and> Inst_RecoveryReady i
             \<or> stalledAssignment now (Cfg_AssignedTimeout cfg) i \<or> lingeringRunner now (Cfg_AssignedTimeout cfg) i
             \<or> occupancyExceeded now cfg i \<or> guestUnresponsive now (Cfg_GuestLiveness cfg) i))"
  by (auto simp: recovery_of_def Let_def)

text \<open>
  Recovery reclaims each stuck instance exactly once: with distinct identifiers the recovery
  operations name distinct instances, and an observed instance is named exactly when one of the
  recovery conditions holds for it.
\<close>

theorem recoveries_once_each:
  assumes "distinct (map Inst_ID is)"
  shows "distinct (map Op_Instance (assignmentRecoveries now cfg is))
    \<and> Op_Instance ` set (assignmentRecoveries now cfg is) = Inst_ID ` {i \<in> set is. recovery_of now cfg i \<noteq> None}"
proof -
  let ?keep = "filter (\<lambda>i. recovery_of now cfg i \<noteq> None) (sortedInstances is)"
  have ops: "assignmentRecoveries now cfg is = map (\<lambda>i. the (recovery_of now cfg i)) ?keep"
    by (simp add: assignmentRecoveries_def List.map_filter_def)
  have inst: "map Op_Instance (assignmentRecoveries now cfg is) = map Inst_ID ?keep"
    unfolding ops by (auto dest: recovery_of_instance)
  have "distinct (map Inst_ID (sortedInstances is))"
    using assms distinct_map_mset [of "sortedInstances is" "is" Inst_ID] by simp
  then have "distinct (map Inst_ID ?keep)" by (rule distinct_map_filterI)
  moreover have "Op_Instance ` set (assignmentRecoveries now cfg is) = Inst_ID ` set ?keep"
    using inst by (metis list.set_map)
  ultimately show ?thesis using inst by simp
qed

theorem recoveries_once_each_witness:
  "distinct (map Op_Instance (assignmentRecoveries 1000 fx_config fx_stopped))"
proof -
  have "distinct (map Inst_ID fx_stopped)" by code_simp
  from recoveries_once_each [OF this, of 1000 fx_config] show ?thesis by blast
qed

definition recovery_op :: "Instance \<Rightarrow> bool \<Rightarrow> bool \<Rightarrow> bool \<Rightarrow> bool \<Rightarrow> bool \<Rightarrow> Operation" where
  "recovery_op i inactive stalled lingering over dead =
     sealed (zero_Operation\<lparr>Op_Kind := OperationDrain, Op_Instance := Inst_ID i, Op_Profile := Inst_Profile i,
       Op_Route := Inst_Route i, Op_Recovery := True, Op_ConfirmedInactive := inactive, Op_StalledAssignment := stalled,
       Op_LingeringRunner := lingering, Op_OccupancyExceeded := over, Op_GuestUnresponsive := dead,
       Op_Demand := (if over \<or> dead then Inst_Demand i else zero_DemandKey)\<rparr>)"

lemma recovery_flags:
  assumes "recovery_of now cfg i = Some q" and "\<not> provisionStalled now (Cfg_AssignedTimeout cfg) i"
  defines "inactive \<equiv> Inst_Power i = InstancePowerRunning \<and> Inst_RecoveryReady i"
    and "stalled \<equiv> stalledAssignment now (Cfg_AssignedTimeout cfg) i"
    and "lingering \<equiv> lingeringRunner now (Cfg_AssignedTimeout cfg) i"
    and "stopped \<equiv> Inst_Power i = InstancePowerStopped"
  shows "Op_Kind q = OperationDrain" "Op_Recovery q" "Op_Instance q = Inst_ID i" "\<not> Op_ProvisionStalled q"
    "Op_ConfirmedInactive q = inactive" "Op_StalledAssignment q = stalled" "Op_LingeringRunner q = lingering"
    "Op_GuestUnresponsive q = (guestUnresponsive now (Cfg_GuestLiveness cfg) i \<and> \<not> (inactive \<or> stalled \<or> lingering \<or> stopped))"
    "Op_OccupancyExceeded q = (occupancyExceeded now cfg i \<and> \<not> (inactive \<or> stalled \<or> lingering \<or> stopped)
       \<and> \<not> guestUnresponsive now (Cfg_GuestLiveness cfg) i)"
    "stopped \<or> inactive \<or> stalled \<or> lingering \<or> occupancyExceeded now cfg i \<or> guestUnresponsive now (Cfg_GuestLiveness cfg) i"
    "Op_DependsOn q = []"
proof -
  define dead where "dead = guestUnresponsive now (Cfg_GuestLiveness cfg) i"
  define over where "over = occupancyExceeded now cfg i"
  have some: "(if Inst_State i \<noteq> InstanceAssigned \<and> Inst_State i \<noteq> InstanceRunning then None
      else if \<not> stopped \<and> \<not> inactive \<and> \<not> stalled \<and> \<not> lingering \<and> \<not> over \<and> \<not> dead then None
      else Some (recovery_op i inactive stalled lingering
        (over \<and> \<not> (inactive \<or> stalled \<or> lingering \<or> stopped) \<and> \<not> (dead \<and> \<not> (inactive \<or> stalled \<or> lingering \<or> stopped)))
        (dead \<and> \<not> (inactive \<or> stalled \<or> lingering \<or> stopped)))) = Some q"
    using assms(1,2)
    by (simp only: recovery_of_def Let_def if_False simp_thms recovery_op_def
        inactive_def stalled_def lingering_def stopped_def dead_def over_def)
  then have q: "q = recovery_op i inactive stalled lingering
        (over \<and> \<not> (inactive \<or> stalled \<or> lingering \<or> stopped) \<and> \<not> (dead \<and> \<not> (inactive \<or> stalled \<or> lingering \<or> stopped)))
        (dead \<and> \<not> (inactive \<or> stalled \<or> lingering \<or> stopped))"
    and ev: "stopped \<or> inactive \<or> stalled \<or> lingering \<or> over \<or> dead"
    by (metis option.distinct(1) option.inject)+
  show "Op_Kind q = OperationDrain" "Op_Recovery q" "Op_Instance q = Inst_ID i" "\<not> Op_ProvisionStalled q"
    "Op_ConfirmedInactive q = inactive" "Op_StalledAssignment q = stalled" "Op_LingeringRunner q = lingering"
    "Op_GuestUnresponsive q = (guestUnresponsive now (Cfg_GuestLiveness cfg) i \<and> \<not> (inactive \<or> stalled \<or> lingering \<or> stopped))"
    unfolding q recovery_op_def dead_def by simp_all
  show "Op_OccupancyExceeded q = (occupancyExceeded now cfg i \<and> \<not> (inactive \<or> stalled \<or> lingering \<or> stopped)
       \<and> \<not> guestUnresponsive now (Cfg_GuestLiveness cfg) i)"
    unfolding q recovery_op_def dead_def over_def by auto
  show "stopped \<or> inactive \<or> stalled \<or> lingering \<or> occupancyExceeded now cfg i \<or> guestUnresponsive now (Cfg_GuestLiveness cfg) i"
    using ev unfolding dead_def over_def .
  show "Op_DependsOn q = []" unfolding q recovery_op_def by simp
qed

lemma recovery_is_drain:
  assumes "recovery_of now cfg i = Some q"
  shows "Op_Kind q = OperationDrain \<and> Op_Recovery q \<and> Op_DependsOn q = []"
proof (cases "provisionStalled now (Cfg_AssignedTimeout cfg) i")
  case True
  with assms show ?thesis by (auto simp: recovery_of_def)
next
  case False
  from recovery_flags(1,2,11) [OF assms this] show ?thesis by blast
qed

text \<open>
  C27. A recovery states its evidence: it is a drain of that instance, marked as a recovery, with at
  most one cause; each cause comes with the condition that proves it, and with no cause the
  instance's machine was read as stopped.
\<close>

theorem recovery_states_its_evidence:
  assumes "recovery_of now cfg i = Some q"
  shows "Op_Kind q = OperationDrain \<and> Op_Recovery q \<and> Op_Instance q = Inst_ID i
    \<and> length (filter (\<lambda>b. b) [Op_ProvisionStalled q, Op_ConfirmedInactive q, Op_StalledAssignment q,
                               Op_LingeringRunner q, Op_OccupancyExceeded q, Op_GuestUnresponsive q]) \<le> 1
    \<and> (Op_ProvisionStalled q \<longrightarrow> provisionStalled now (Cfg_AssignedTimeout cfg) i)
    \<and> (Op_ConfirmedInactive q \<longrightarrow> Inst_Power i = InstancePowerRunning \<and> Inst_RecoveryReady i)
    \<and> (Op_StalledAssignment q \<longrightarrow> stalledAssignment now (Cfg_AssignedTimeout cfg) i)
    \<and> (Op_LingeringRunner q \<longrightarrow> lingeringRunner now (Cfg_AssignedTimeout cfg) i)
    \<and> (Op_OccupancyExceeded q \<longrightarrow> occupancyExceeded now cfg i)
    \<and> (Op_GuestUnresponsive q \<longrightarrow> guestUnresponsive now (Cfg_GuestLiveness cfg) i)
    \<and> (\<not> Op_ProvisionStalled q \<and> \<not> Op_ConfirmedInactive q \<and> \<not> Op_StalledAssignment q \<and> \<not> Op_LingeringRunner q
         \<and> \<not> Op_OccupancyExceeded q \<and> \<not> Op_GuestUnresponsive q \<longrightarrow> Inst_Power i = InstancePowerStopped)"
proof (cases "provisionStalled now (Cfg_AssignedTimeout cfg) i")
  case True
  with assms have q: "q = sealed (zero_Operation\<lparr>Op_Kind := OperationDrain, Op_Instance := Inst_ID i, Op_Profile := Inst_Profile i,
      Op_Route := Inst_Route i, Op_Demand := Inst_Demand i, Op_Recovery := True, Op_ProvisionStalled := True\<rparr>)"
    by (simp add: recovery_of_def)
  show ?thesis using True unfolding q by simp
next
  case False
  have excl: "\<not> (stalledAssignment now t i \<and> lingeringRunner now t i)"
    "\<not> (stalledAssignment now t i \<and> Inst_RecoveryReady i)" "\<not> (lingeringRunner now t i \<and> Inst_RecoveryReady i)" for t
    by (auto simp: stalledAssignment_def lingeringRunner_def)
  show ?thesis
    using recovery_flags [OF assms False] excl [of "Cfg_AssignedTimeout cfg"] by (simp only: list.size filter.simps) (simp, blast)
qed

theorem recovery_states_its_evidence_witness:
  "\<exists>q. recovery_of 1000 fx_config (last fx_stopped) = Some q \<and> Op_Recovery q \<and> Op_Instance q = ''vm2''"
proof -
  have "recovery_of 1000 fx_config (last fx_stopped) \<noteq> None" "Inst_ID (last fx_stopped) = ''vm2''" by code_simp+
  then obtain q where q: "recovery_of 1000 fx_config (last fx_stopped) = Some q" by blast
  from recovery_states_its_evidence [OF q] q \<open>Inst_ID (last fx_stopped) = ''vm2''\<close> show ?thesis by simp
qed

end
