(* ===== verification/Admission_Envelope.thy ===== *)
theory Admission_Envelope
  imports Recovery
begin

text \<open>
  The admission envelope (\<open>internal/scheduler/scheduler.go\<close>): what the host has left under the
  static and the elastic capacity model, the operator's budget over both, and the repository
  caps every admission is judged against.
\<close>

section \<open>Envelope arithmetic\<close>

definition minResources :: "Resources \<Rightarrow> Resources \<Rightarrow> Resources" where
  "minResources a b = \<lparr>CPU = min (CPU a) (CPU b), MemoryMB = min (MemoryMB a) (MemoryMB b), Slots = min (Slots a) (Slots b)\<rparr>"

definition physicalBound :: "int \<Rightarrow> int \<Rightarrow> int \<Rightarrow> int" where
  "physicalBound configured observed live = (if observed \<le> 0 then configured else min configured (max 0 (observed - live)))"

definition budgetBound :: "Resources \<Rightarrow> Resources \<Rightarrow> Resources \<Rightarrow> Resources" where
  "budgetBound free budget live =
     \<lparr>CPU = physicalBound (CPU free) (CPU budget) (CPU live),
      MemoryMB = physicalBound (MemoryMB free) (MemoryMB budget) (MemoryMB live),
      Slots = physicalBound (Slots free) (Slots budget) (Slots live)\<rparr>"

fun live_from :: "Resources \<Rightarrow> Instance list \<Rightarrow> Resources" where
  "live_from live [] = live"
| "live_from live (i # is) =
     (if \<not> ConsumesHostResources i then live_from live is else live_from (Res_Add live (Inst_Resources i)) is)"

definition liveResources :: "Instance list \<Rightarrow> Resources" where
  "liveResources instances = live_from zero_Resources instances"

text \<open>
  The subtraction loop of \<open>staticFree\<close> and \<open>elasticFree\<close>: \<open>None\<close> is the early return of the
  zero vector when an instance does not fit what is left.
\<close>

fun charge :: "(Instance \<Rightarrow> bool) \<Rightarrow> Resources \<Rightarrow> Instance list \<Rightarrow> Resources option" where
  "charge occupies free [] = Some free"
| "charge occupies free (i # is) =
     (if \<not> occupies i then charge occupies free is
      else (case Res_Sub free (Inst_Resources i) of (remaining, ok) \<Rightarrow>
        if \<not> ok then None else charge occupies remaining is))"

definition staticFree :: "Input \<Rightarrow> Instance list \<Rightarrow> Resources" where
  "staticFree inp instances =
     (case charge ConsumesHostResources (Cfg_LinuxCapacity (In_Config inp)) instances of
        None \<Rightarrow> zero_Resources
      | Some free \<Rightarrow> minResources free (Host_Available (Ob_Value (In_Host inp))))"

definition consumes_linux :: "Instance \<Rightarrow> bool" where
  "consumes_linux i \<longleftrightarrow> ConsumesHostResources i \<and> Inst_Platform i = PlatformLinux"

definition elasticFree :: "Input \<Rightarrow> Instance list \<Rightarrow> Resources \<Rightarrow> bool \<Rightarrow> Resources" where
  "elasticFree inp instances live aged =
     (case charge consumes_linux (Cfg_LinuxCapacity (In_Config inp)) instances of
        None \<Rightarrow> zero_Resources
      | Some free0 \<Rightarrow>
          (let free = budgetBound free0 (Host_Capacity (Ob_Value (In_Host inp))) live;
               available = Host_Available (Ob_Value (In_Host inp));
               available = (if aged then available\<lparr>CPU := CPU free\<rparr> else available)
           in minResources free available))"

definition freeCapacity :: "Input \<Rightarrow> Instance list \<Rightarrow> bool \<Rightarrow> Resources" where
  "freeCapacity inp instances aged =
     (let live = liveResources instances;
          free = (if Cfg_ElasticHostEnvelope (In_Config inp) then elasticFree inp instances live aged
                  else staticFree inp instances)
      in budgetBound free (Cfg_HostBudget (In_Config inp)) live)"

definition linuxFree :: "Input \<Rightarrow> Resources" where
  "linuxFree inp = freeCapacity inp (In_insts inp) False"

definition linuxFreeAged :: "Input \<Rightarrow> Resources" where
  "linuxFreeAged inp = freeCapacity inp (In_insts inp) True"

definition admissionsPerTick :: int where
  "admissionsPerTick = 4"

section \<open>Repository caps\<close>

definition releasedItsRepositorySlot :: "InstanceState \<Rightarrow> bool" where
  "releasedItsRepositorySlot s =
     (case s of InstanceDeregistering \<Rightarrow> True | InstanceStopping \<Rightarrow> True | InstanceDeleted \<Rightarrow> True
      | InstanceFailed \<Rightarrow> True | _ \<Rightarrow> False)"

definition charges_repo :: "Instance \<Rightarrow> bool" where
  "charges_repo i \<longleftrightarrow>
     \<not> (\<not> Live i \<or> Inst_State i = InstanceOnlineIdle \<or> releasedItsRepositorySlot (Inst_State i))"

type_synonym counts = "string \<Rightarrow> int"

definition bump :: "counts \<Rightarrow> string \<Rightarrow> counts" where
  "bump m k = m(k := m k + 1)"

definition activeRepoCounts :: "Instance list \<Rightarrow> counts" where
  "activeRepoCounts instances = foldl (\<lambda>m i. if charges_repo i then bump m (Inst_Repo i) else m) (\<lambda>_. 0) instances"

definition repoCapLimit :: "(string \<rightharpoonup> int) \<Rightarrow> string \<Rightarrow> int" where
  "repoCapLimit caps repo = (case caps repo of Some limit \<Rightarrow> if limit > 0 then limit else 1 | None \<Rightarrow> 1)"

text \<open>\<open>spawnedDemands\<close> builds demands that carry only their key, so the model keeps the keys.\<close>

definition spawnedDemands :: "Operation list \<Rightarrow> DemandKey list" where
  "spawnedDemands ops = map Op_Demand (filter (\<lambda>q. Op_Kind q = OperationSpawn) ops)"

definition admissionAxis ::
    "Resources \<Rightarrow> Resources \<Rightarrow> string \<Rightarrow> counts \<Rightarrow> DemandKey list \<Rightarrow> (string \<rightharpoonup> int) \<Rightarrow> ReservationAxis" where
  "admissionAxis resources free repo base selected caps =
     (let count = base repo + int (length (filter (\<lambda>k. Key_Repo k = repo) selected));
          vector = (\<not> CanFit free resources);
          capped = (count \<ge> repoCapLimit caps repo)
      in if vector \<and> capped then ReservationAxisBoth
         else if vector then ReservationAxisVector
         else if capped then ReservationAxisRepositoryCap
         else ReservationAxisNone)"

definition feasible ::
    "Resources \<Rightarrow> Resources \<Rightarrow> string \<Rightarrow> counts \<Rightarrow> DemandKey list \<Rightarrow> (string \<rightharpoonup> int) \<Rightarrow> bool" where
  "feasible resources free repo base selected caps \<longleftrightarrow>
     admissionAxis resources free repo base selected caps = ReservationAxisNone"

section \<open>Idle instances\<close>

definition matchKey :: "string \<Rightarrow> ProfileID \<Rightarrow> Route \<Rightarrow> string" where
  "matchKey repo profile route = repo @ [CHR 0x00] @ profile @ [CHR 0x00] @ route"

fun consume_idle :: "counts \<Rightarrow> Demand list \<Rightarrow> Demand list" where
  "consume_idle idle [] = []"
| "consume_idle idle (d # ds) =
     (let key = matchKey (Key_Repo (Dem_Key d)) (Dem_Profile d) (Dem_Route d) in
      if idle key > 0 then consume_idle (idle(key := idle key - 1)) ds else d # consume_idle idle ds)"

definition consumeCompatibleIdle :: "Demand list \<Rightarrow> Instance list \<Rightarrow> Demand list" where
  "consumeCompatibleIdle demands instances =
     consume_idle (foldl (\<lambda>m i. if Inst_State i = InstanceOnlineIdle
         then bump m (matchKey (Inst_Repo i) (Inst_Profile i) (Inst_Route i)) else m) (\<lambda>_. 0) instances) demands"

lemmas [fleet_eval] =
  minResources_def physicalBound_def budgetBound_def liveResources_def staticFree_def consumes_linux_def
  elasticFree_def freeCapacity_def linuxFree_def linuxFreeAged_def admissionsPerTick_def
  releasedItsRepositorySlot_def charges_repo_def bump_def activeRepoCounts_def repoCapLimit_def
  spawnedDemands_def admissionAxis_def feasible_def matchKey_def consumeCompatibleIdle_def

section \<open>Totals\<close>

definition Res_nonneg :: "Resources \<Rightarrow> bool" where
  "Res_nonneg r \<longleftrightarrow> 0 \<le> CPU r \<and> 0 \<le> MemoryMB r \<and> 0 \<le> Slots r"

fun total_of :: "(Instance \<Rightarrow> bool) \<Rightarrow> Instance list \<Rightarrow> Resources" where
  "total_of P [] = zero_Resources"
| "total_of P (i # is) = (if P i then Res_Add (Inst_Resources i) (total_of P is) else total_of P is)"

definition envelope_wf :: "Input \<Rightarrow> Instance list \<Rightarrow> bool" where
  "envelope_wf inp is \<longleftrightarrow>
     Res_nonneg (Cfg_LinuxCapacity (In_Config inp)) \<and> Res_nonneg (Host_Available (Ob_Value (In_Host inp)))
     \<and> list_all (\<lambda>i. Res_nonneg (Inst_Resources i)) is"

lemma Res_sel_simps [simp]:
  "CPU (Res_Add a b) = CPU a + CPU b" "MemoryMB (Res_Add a b) = MemoryMB a + MemoryMB b"
  "Slots (Res_Add a b) = Slots a + Slots b"
  "CPU zero_Resources = 0" "MemoryMB zero_Resources = 0" "Slots zero_Resources = 0"
  "CPU (minResources a b) = min (CPU a) (CPU b)" "MemoryMB (minResources a b) = min (MemoryMB a) (MemoryMB b)"
  "Slots (minResources a b) = min (Slots a) (Slots b)"
  "CPU (budgetBound f b l) = physicalBound (CPU f) (CPU b) (CPU l)"
  "MemoryMB (budgetBound f b l) = physicalBound (MemoryMB f) (MemoryMB b) (MemoryMB l)"
  "Slots (budgetBound f b l) = physicalBound (Slots f) (Slots b) (Slots l)"
  by (simp_all add: Res_Add_def zero_Resources_def minResources_def budgetBound_def)

lemma Res_nonneg_zero [simp]: "Res_nonneg zero_Resources"
  by (simp add: Res_nonneg_def)

lemma CanFit_zero [simp]: "CanFit r zero_Resources \<longleftrightarrow> Res_nonneg r"
  by (auto simp: CanFit_def Res_nonneg_def)

lemma total_of_append [simp]:
  "total_of P (xs @ ys) = Res_Add (total_of P xs) (total_of P ys)"
  by (induction xs) (auto simp: Res_Add_def zero_Resources_def)

lemma total_of_nonneg:
  "list_all (\<lambda>i. Res_nonneg (Inst_Resources i)) is \<Longrightarrow> Res_nonneg (total_of P is)"
  by (induction "is") (auto simp: Res_nonneg_def)

lemma total_of_filter:
  "list_all (\<lambda>i. Res_nonneg (Inst_Resources i)) is \<Longrightarrow> CanFit (total_of P is) (total_of P (filter Q is))"
proof (induction "is")
  case (Cons i "is")
  then show ?case by (auto simp: CanFit_def Res_nonneg_def)
qed simp

lemma live_from_total: "live_from acc is = Res_Add acc (total_of ConsumesHostResources is)"
  by (induction "is" arbitrary: acc) (auto simp: Res_Add_def zero_Resources_def)

lemma liveResources_total: "liveResources is = total_of ConsumesHostResources is"
  by (simp add: liveResources_def live_from_total Res_Add_def zero_Resources_def)

lemma charge_total:
  assumes "list_all (\<lambda>i. Res_nonneg (Inst_Resources i)) is" and "Res_nonneg free"
  shows "charge P free is = (if CanFit free (total_of P is) then Some (fst (Res_Sub free (total_of P is))) else None)"
  using assms
proof (induction "is" arbitrary: free)
  case Nil
  then show ?case by (simp add: Res_nonneg_def CanFit_def Res_Sub_def)
next
  case (Cons i "is")
  then have nn: "Res_nonneg (total_of P is)" by (simp add: total_of_nonneg)
  show ?case
  proof (cases "P i \<and> CanFit free (Inst_Resources i)")
    case True
    then have "Res_nonneg (fst (Res_Sub free (Inst_Resources i)))"
      by (simp add: Res_Sub_def Res_nonneg_def CanFit_def)
    with Cons True nn show ?thesis
      by (auto simp: Res_Sub_def CanFit_def Res_nonneg_def)
  next
    case False
    with Cons nn show ?thesis
      by (auto simp: Res_Sub_def CanFit_def Res_nonneg_def)
  qed
qed

section \<open>The shape of the envelope\<close>

lemma physicalBound_zero [simp]: "physicalBound 0 t l = 0"
  by (simp add: physicalBound_def)

lemma physicalBound_le: "physicalBound c t l \<le> c"
  by (simp add: physicalBound_def)

lemma physicalBound_nonneg: "0 \<le> c \<Longrightarrow> 0 \<le> physicalBound c t l"
  by (simp add: physicalBound_def)

lemma physicalBound_mono: "c \<le> c' \<Longrightarrow> l' \<le> l \<Longrightarrow> physicalBound c t l \<le> physicalBound c' t l'"
  by (auto simp: physicalBound_def)

lemma physicalBound_charge: "0 \<le> v \<Longrightarrow> c - v \<le> c' \<Longrightarrow> physicalBound c t l - v \<le> physicalBound c' t (l + v)"
  by (auto simp: physicalBound_def)

lemma physicalBound_limit: "0 < t \<Longrightarrow> physicalBound c t l \<le> max 0 (t - l)"
  by (simp add: physicalBound_def)

definition model_occupies :: "Config \<Rightarrow> Instance \<Rightarrow> bool" where
  "model_occupies cfg = (if Cfg_ElasticHostEnvelope cfg then consumes_linux else ConsumesHostResources)"

text \<open>The envelope before the operator's budget, when the configured capacity is not exhausted.\<close>

definition open_envelope :: "Input \<Rightarrow> Resources \<Rightarrow> Resources \<Rightarrow> bool \<Rightarrow> Resources" where
  "open_envelope inp free live aged =
     (if Cfg_ElasticHostEnvelope (In_Config inp)
      then (let f = budgetBound free (Host_Capacity (Ob_Value (In_Host inp))) live;
                available = Host_Available (Ob_Value (In_Host inp))
            in minResources f (if aged then available\<lparr>CPU := CPU f\<rparr> else available))
      else minResources free (Host_Available (Ob_Value (In_Host inp))))"

lemma freeCapacity_shape:
  assumes "envelope_wf inp is"
  shows "freeCapacity inp is aged =
    (let cap = Cfg_LinuxCapacity (In_Config inp); used = total_of (model_occupies (In_Config inp)) is;
         live = total_of ConsumesHostResources is
     in if CanFit cap used
        then budgetBound (open_envelope inp (fst (Res_Sub cap used)) live aged) (Cfg_HostBudget (In_Config inp)) live
        else zero_Resources)"
proof -
  have zero: "budgetBound zero_Resources b l = zero_Resources" for b l
    by (simp add: budgetBound_def zero_Resources_def)
  have nn: "list_all (\<lambda>i. Res_nonneg (Inst_Resources i)) is" "Res_nonneg (Cfg_LinuxCapacity (In_Config inp))"
    using assms by (simp_all add: envelope_wf_def)
  show ?thesis
    by (simp add: freeCapacity_def liveResources_total staticFree_def elasticFree_def charge_total [OF nn]
        model_occupies_def open_envelope_def zero Let_def)
qed

lemma open_envelope_mono:
  assumes "CanFit free' free" and "CanFit live live'"
  shows "CanFit (open_envelope inp free' live' aged) (open_envelope inp free live aged)"
  using assms
  by (auto simp: open_envelope_def CanFit_def Let_def intro!: physicalBound_mono min.mono
      intro: order_trans [OF min.cobounded1 physicalBound_mono])

lemma open_envelope_nonneg:
  assumes "Res_nonneg free" and "envelope_wf inp is"
  shows "Res_nonneg (open_envelope inp free live aged)"
  using assms by (simp add: open_envelope_def Res_nonneg_def envelope_wf_def Let_def physicalBound_nonneg)

lemma freeCapacity_nonneg: "envelope_wf inp is \<Longrightarrow> Res_nonneg (freeCapacity inp is aged)"
proof -
  assume wf: "envelope_wf inp is"
  let ?cap = "Cfg_LinuxCapacity (In_Config inp)" and ?used = "total_of (model_occupies (In_Config inp)) is"
  show ?thesis
  proof (cases "CanFit ?cap ?used")
    case True
    then have "Res_nonneg (fst (Res_Sub ?cap ?used))"
      by (simp add: Res_nonneg_def fst_Res_Sub_sel) (simp add: CanFit_def)
    from open_envelope_nonneg [OF this wf] True show ?thesis
      by (simp add: freeCapacity_shape [OF wf] Let_def Res_nonneg_def physicalBound_nonneg)
  qed (simp add: freeCapacity_shape [OF wf] Let_def)
qed

lemma total_of_mono_pred:
  "list_all (\<lambda>i. Res_nonneg (Inst_Resources i)) is \<Longrightarrow> (\<And>i. Q i \<Longrightarrow> P i) \<Longrightarrow> CanFit (total_of P is) (total_of Q is)"
proof (induction "is")
  case (Cons i "is")
  then show ?case by (cases "Q i"; cases "P i") (auto simp: CanFit_def Res_nonneg_def)
qed simp

lemma envelope_wf_filter: "envelope_wf inp is \<Longrightarrow> envelope_wf inp (filter Q is)"
  by (auto simp: envelope_wf_def list_all_iff)

lemma envelope_wf_append [simp]:
  "envelope_wf inp (is @ js) \<longleftrightarrow> envelope_wf inp is \<and> list_all (\<lambda>i. Res_nonneg (Inst_Resources i)) js"
  by (auto simp: envelope_wf_def)

lemma Res_Sub_antimono: "CanFit cap a \<Longrightarrow> CanFit a b \<Longrightarrow> CanFit (fst (Res_Sub cap b)) (fst (Res_Sub cap a))"
  by (auto simp: CanFit_def Res_Sub_def)

lemma budgetBound_mono: "CanFit f' f \<Longrightarrow> CanFit l l' \<Longrightarrow> CanFit (budgetBound f' b l') (budgetBound f b l)"
  by (auto simp: CanFit_def intro: physicalBound_mono)

text \<open>Removing instances never narrows the envelope.\<close>

lemma freeCapacity_filter:
  assumes wf: "envelope_wf inp is"
  shows "CanFit (freeCapacity inp (filter Q is) aged) (freeCapacity inp is aged)"
proof -
  let ?cap = "Cfg_LinuxCapacity (In_Config inp)" and ?P = "model_occupies (In_Config inp)"
  have nn: "list_all (\<lambda>i. Res_nonneg (Inst_Resources i)) is" using wf by (simp add: envelope_wf_def)
  note wf' = envelope_wf_filter [OF wf, of Q]
  show ?thesis
  proof (cases "CanFit ?cap (total_of ?P is)")
    case True
    with total_of_filter [OF nn, of ?P Q] have "CanFit ?cap (total_of ?P (filter Q is))"
      using CanFit_trans by blast
    with True show ?thesis
      by (simp add: freeCapacity_shape [OF wf] freeCapacity_shape [OF wf'] Let_def)
         (intro budgetBound_mono open_envelope_mono Res_Sub_antimono total_of_filter [OF nn])
  next
    case False
    with freeCapacity_nonneg [OF wf', of aged] show ?thesis
      by (simp add: freeCapacity_shape [OF wf] Let_def)
  qed
qed

text \<open>
  Charging an instance that fits takes at most its vector out of the envelope: the envelope
  after a spawn is at least what subtracting the vector leaves.
\<close>

lemma open_envelope_charge:
  assumes "Res_nonneg v" and "CanFit free' (fst (Res_Sub free v))" and "CanFit free v"
  shows "CanFit (Res_Add (open_envelope inp free' (Res_Add live v) aged) v) (open_envelope inp free live aged)"
proof -
  have sel: "CPU free - CPU v \<le> CPU free'" "MemoryMB free - MemoryMB v \<le> MemoryMB free'" "Slots free - Slots v \<le> Slots free'"
    using assms(2,3) by (auto simp: CanFit_def Res_Sub_def)
  note pb = physicalBound_charge [OF _ sel(1)] physicalBound_charge [OF _ sel(2)] physicalBound_charge [OF _ sel(3)]
  show ?thesis
    using assms(1) sel
      pb(1) [where t = "CPU (Host_Capacity (Ob_Value (In_Host inp)))" and l = "CPU live"]
      pb(2) [where t = "MemoryMB (Host_Capacity (Ob_Value (In_Host inp)))" and l = "MemoryMB live"]
      pb(3) [where t = "Slots (Host_Capacity (Ob_Value (In_Host inp)))" and l = "Slots live"]
    by (auto simp: open_envelope_def CanFit_def Let_def Res_nonneg_def)
qed

lemma budgetBound_charge:
  assumes "Res_nonneg v" and "CanFit (Res_Add f' v) f"
  shows "CanFit (Res_Add (budgetBound f' b (Res_Add l v)) v) (budgetBound f b l)"
  using assms physicalBound_charge [of "CPU v" "CPU f" "CPU f'" "CPU b" "CPU l"]
    physicalBound_charge [of "MemoryMB v" "MemoryMB f" "MemoryMB f'" "MemoryMB b" "MemoryMB l"]
    physicalBound_charge [of "Slots v" "Slots f" "Slots f'" "Slots b" "Slots l"]
  by (simp add: CanFit_def Res_nonneg_def)

lemma open_envelope_le: "CanFit free (open_envelope inp free live aged)"
  using physicalBound_le by (auto simp: open_envelope_def CanFit_def Let_def intro: min.coboundedI1)

lemma budgetBound_le: "CanFit f (budgetBound f b l)"
  by (simp add: CanFit_def physicalBound_le)

lemma freeCapacity_charge:
  assumes wf: "envelope_wf inp is" and i: "ConsumesHostResources i" "Res_nonneg (Inst_Resources i)"
    and fits: "CanFit (freeCapacity inp is aged) (Inst_Resources i)"
  shows "CanFit (freeCapacity inp (is @ [i]) aged) (fst (Res_Sub (freeCapacity inp is aged) (Inst_Resources i)))"
proof -
  let ?cap = "Cfg_LinuxCapacity (In_Config inp)" and ?P = "model_occupies (In_Config inp)"
  let ?v = "Inst_Resources i" and ?used = "total_of (model_occupies (In_Config inp)) is"
  let ?live = "total_of ConsumesHostResources is"
  have wf': "envelope_wf inp (is @ [i])" using wf i by simp
  have add0: "Res_Add r zero_Resources = r" for r by (simp add: Res_Add_def zero_Resources_def)
  have sub: "CanFit x (fst (Res_Sub y ?v))" if "CanFit (Res_Add x ?v) y" "CanFit y ?v" for x y
    using that by (auto simp: CanFit_def Res_Sub_def)
  show ?thesis
  proof (cases "CanFit ?cap ?used")
    case False
    then have zero: "freeCapacity inp is aged = zero_Resources" by (simp add: freeCapacity_shape [OF wf] Let_def)
    with fits i(2) have "?v = zero_Resources" by (simp add: CanFit_def Res_nonneg_def)
    with zero freeCapacity_nonneg [OF wf', of aged] show ?thesis by (simp add: CanFit_def Res_Sub_def Res_nonneg_def)
  next
    case True
    let ?free = "fst (Res_Sub ?cap ?used)"
    let ?env = "open_envelope inp ?free ?live aged"
    have shape: "freeCapacity inp is aged = budgetBound ?env (Cfg_HostBudget (In_Config inp)) ?live"
      using True by (simp add: freeCapacity_shape [OF wf] Let_def)
    have v_le: "CanFit ?free ?v"
      using fits shape budgetBound_le open_envelope_le by (metis CanFit_trans)
    define used' where "used' = total_of ?P (is @ [i])"
    have fits': "CanFit ?cap used'" and free': "CanFit (fst (Res_Sub ?cap used')) (fst (Res_Sub ?free ?v))"
      using v_le True i(2) by (auto simp: used'_def CanFit_def Res_Sub_def Res_nonneg_def)
    have "freeCapacity inp (is @ [i]) aged =
        budgetBound (open_envelope inp (fst (Res_Sub ?cap used')) (Res_Add ?live ?v) aged)
          (Cfg_HostBudget (In_Config inp)) (Res_Add ?live ?v)"
      using fits' i(1) by (simp add: freeCapacity_shape [OF wf'] Let_def used'_def add0)
    moreover have "CanFit (Res_Add \<dots> ?v) (budgetBound ?env (Cfg_HostBudget (In_Config inp)) ?live)"
      by (intro budgetBound_charge open_envelope_charge i(2) free' v_le)
    ultimately show ?thesis using sub fits shape by simp
  qed
qed

text \<open>An instance with no vector leaves the envelope as it is.\<close>

lemma freeCapacity_charge_zero:
  assumes wf: "envelope_wf inp is" and "Inst_Resources i = zero_Resources"
  shows "freeCapacity inp (is @ [i]) aged = freeCapacity inp is aged"
proof -
  have wf': "envelope_wf inp (is @ [i])" using assms by simp
  have add0: "Res_Add r zero_Resources = r" for r by (simp add: Res_Add_def zero_Resources_def)
  have "total_of P (is @ [i]) = total_of P is" for P
    using assms(2) by (simp add: add0)
  then show ?thesis
    by (simp add: freeCapacity_shape [OF wf] freeCapacity_shape [OF wf'] del: total_of_append)
qed
section \<open>What the envelope promises\<close>

lemmas envelope_arith = model_occupies_def open_envelope_def Let_def fst_Res_Sub_sel physicalBound_def

lemma freeCapacity_static_le:
  assumes wf: "envelope_wf inp is" and "\<not> Cfg_ElasticHostEnvelope (In_Config inp)" and "x \<in> {CPU, MemoryMB, Slots}"
  shows "x (freeCapacity inp is aged) \<le> max 0 (x (Cfg_LinuxCapacity (In_Config inp)) - x (total_of ConsumesHostResources is))"
  using assms by (auto simp: freeCapacity_shape [OF wf] envelope_arith)

lemma freeCapacity_elastic_le:
  assumes wf: "envelope_wf inp is" and el: "Cfg_ElasticHostEnvelope (In_Config inp)" and x: "x \<in> {CPU, MemoryMB, Slots}"
  shows "x (freeCapacity inp is aged) \<le> max 0 (x (Cfg_LinuxCapacity (In_Config inp)) - x (total_of consumes_linux is))"
    and "0 < x (Host_Capacity (Ob_Value (In_Host inp))) \<Longrightarrow>
      x (freeCapacity inp is aged) \<le> max 0 (x (Host_Capacity (Ob_Value (In_Host inp))) - x (total_of ConsumesHostResources is))"
proof -
  let ?cap = "Cfg_LinuxCapacity (In_Config inp)" and ?phys = "Host_Capacity (Ob_Value (In_Host inp))"
  let ?used = "total_of consumes_linux is" and ?live = "total_of ConsumesHostResources is"
  have le: "x (freeCapacity inp is aged) \<le> max 0 (physicalBound (x ?cap - x ?used) (x ?phys) (x ?live))"
  proof (cases "CanFit ?cap ?used")
    case True
    let ?f = "budgetBound (fst (Res_Sub ?cap ?used)) ?phys ?live"
    have "CanFit ?f (freeCapacity inp is aged)"
      using True el by (auto simp: freeCapacity_shape [OF wf] model_occupies_def open_envelope_def Let_def CanFit_def
          intro: order_trans [OF physicalBound_le])
    with True x show ?thesis by (auto simp: CanFit_def fst_Res_Sub_sel)
  next
    case False
    with el x show ?thesis by (auto simp: freeCapacity_shape [OF wf] model_occupies_def Let_def)
  qed
  then show "x (freeCapacity inp is aged) \<le> max 0 (x ?cap - x ?used)"
    using physicalBound_le [of "x ?cap - x ?used" "x ?phys" "x ?live"] by linarith
  assume "0 < x ?phys"
  with le physicalBound_limit [of "x ?phys" "x ?cap - x ?used" "x ?live"]
  show "x (freeCapacity inp is aged) \<le> max 0 (x ?phys - x ?live)" by linarith
qed

lemma freeCapacity_budget_le:
  assumes wf: "envelope_wf inp is" and "0 < x (Cfg_HostBudget (In_Config inp))" and "x \<in> {CPU, MemoryMB, Slots}"
  shows "x (freeCapacity inp is aged) \<le> max 0 (x (Cfg_HostBudget (In_Config inp)) - x (total_of ConsumesHostResources is))"
  using assms physicalBound_limit by (auto simp: freeCapacity_shape [OF wf] Let_def)

lemma freeCapacity_aged_fits:
  "CanFit (freeCapacity inp is True) (freeCapacity inp is False)"
  "MemoryMB (freeCapacity inp is True) = MemoryMB (freeCapacity inp is False)"
  "Slots (freeCapacity inp is True) = Slots (freeCapacity inp is False)"
  by (auto simp: freeCapacity_def elasticFree_def staticFree_def Let_def CanFit_def intro!: physicalBound_mono split: option.split)

text \<open>
  C25. The envelope lends no more than is left. With nonnegative capacity, availability and instances the
  free vector is nonnegative, and in every dimension what is live plus what is free is at most the larger
  of what is live and the limit, so that nothing is free past a limit: in the static model all instances
  and the Linux capacity; in the elastic model the Linux instances and the Linux capacity, and all
  instances and the physical total where a positive one is observed; in both all instances and the
  operator's budget where a positive one is set.
\<close>

theorem freeCapacity_bounds:
  assumes "envelope_wf inp is" and "x \<in> {CPU, MemoryMB, Slots}"
  shows "let live = x (total_of ConsumesHostResources is); free = x (freeCapacity inp is aged) in
    (\<not> Cfg_ElasticHostEnvelope (In_Config inp) \<longrightarrow> live + free \<le> max live (x (Cfg_LinuxCapacity (In_Config inp))))
    \<and> (Cfg_ElasticHostEnvelope (In_Config inp) \<longrightarrow>
         x (total_of consumes_linux is) + free \<le> max (x (total_of consumes_linux is)) (x (Cfg_LinuxCapacity (In_Config inp)))
         \<and> (0 < x (Host_Capacity (Ob_Value (In_Host inp))) \<longrightarrow> live + free \<le> max live (x (Host_Capacity (Ob_Value (In_Host inp))))))
    \<and> (0 < x (Cfg_HostBudget (In_Config inp)) \<longrightarrow> live + free \<le> max live (x (Cfg_HostBudget (In_Config inp))))
    \<and> 0 \<le> free"
proof -
  have "0 \<le> x (freeCapacity inp is aged)"
    using freeCapacity_nonneg [OF assms(1)] assms(2) by (auto simp: Res_nonneg_def)
  moreover have "a + f \<le> max a b" if "f \<le> max 0 (b - a)" for a b f :: int using that by auto
  ultimately show ?thesis
    using freeCapacity_static_le [OF assms(1) _ assms(2), of aged] freeCapacity_elastic_le [OF assms(1) _ assms(2), of aged]
      freeCapacity_budget_le [OF assms(1) _ assms(2), of aged]
    unfolding Let_def by blast
qed

theorem freeCapacity_bounds_witness:
  "2 + CPU (linuxFree (fx_input fx_config [] fx_busy (fx_res 7 32 5))) \<le> 10"
proof -
  let ?inp = "fx_input fx_config [] fx_busy (fx_res 7 32 5)"
  have wf: "envelope_wf ?inp fx_busy" by code_simp
  have live: "CPU (total_of ConsumesHostResources fx_busy) = 2" by code_simp
  have cfg: "\<not> Cfg_ElasticHostEnvelope fx_config" "CPU (Cfg_LinuxCapacity fx_config) = 10" by code_simp+
  from freeCapacity_bounds [OF wf, of CPU False] live cfg show ?thesis
    by (simp add: linuxFree_def Let_def)
qed

text \<open>
  The starvation envelope of aged work contains the throttled one: it differs in the CPU
  dimension alone, where the advisory clamp on idle CPU is lifted, and never in memory or slots.
\<close>

theorem linuxFree_within_aged:
  "CanFit (linuxFreeAged inp) (linuxFree inp)
   \<and> MemoryMB (linuxFreeAged inp) = MemoryMB (linuxFree inp) \<and> Slots (linuxFreeAged inp) = Slots (linuxFree inp)"
  by (simp add: linuxFree_def linuxFreeAged_def freeCapacity_aged_fits)

section \<open>Counting\<close>

lemma activeRepoCounts_eq: "activeRepoCounts is repo = int (length (filter (\<lambda>i. charges_repo i \<and> Inst_Repo i = repo) is))"
proof -
  have "foldl (\<lambda>m i. if charges_repo i then bump m (Inst_Repo i) else m) m0 is repo
    = m0 repo + int (length (filter (\<lambda>i. charges_repo i \<and> Inst_Repo i = repo) is))" for m0
    by (induction "is" arbitrary: m0) (auto simp: bump_def)
  then show ?thesis by (simp add: activeRepoCounts_def)
qed

lemma activeRepoCounts_append [simp]:
  "activeRepoCounts (is @ js) repo = activeRepoCounts is repo + activeRepoCounts js repo"
  by (simp add: activeRepoCounts_eq)

lemma activeRepoCounts_Nil [simp]: "activeRepoCounts [] repo = 0"
  by (simp add: activeRepoCounts_eq)

lemma repoCapLimit_pos: "1 \<le> repoCapLimit caps repo"
  by (auto simp: repoCapLimit_def split: option.split)

lemma admissionAxis_None_iff:
  "admissionAxis r free repo base sel caps = ReservationAxisNone \<longleftrightarrow>
     CanFit free r \<and> base repo + int (length (filter (\<lambda>k. Key_Repo k = repo) sel)) < repoCapLimit caps repo"
  by (auto simp: admissionAxis_def Let_def)

abbreviation demand_match :: "Demand \<Rightarrow> string" where
  "demand_match d \<equiv> matchKey (Key_Repo (Dem_Key d)) (Dem_Profile d) (Dem_Route d)"

lemma consume_idle_class:
  assumes "0 \<le> idle k"
  shows "filter (\<lambda>d. demand_match d = k) (consume_idle idle ds) = drop (nat (idle k)) (filter (\<lambda>d. demand_match d = k) ds)"
  using assms
proof (induction ds arbitrary: idle)
  case (Cons d ds)
  show ?case
  proof (cases "idle (demand_match d) > 0 \<and> demand_match d = k")
    case True
    then have pos: "0 < idle k" and k: "demand_match d = k" by auto
    then have "nat (idle k) = Suc (nat (idle k - 1))" by (auto simp: Suc_nat_eq_nat_zadd1)
    with pos k Cons.IH [of "idle(k := idle k - 1)"] show ?thesis by (simp add: Let_def fun_upd_def)
  next
    case False
    with Cons show ?thesis by (auto simp: Let_def)
  qed
qed simp

lemma idle_count:
  "foldl (\<lambda>m i. if Inst_State i = InstanceOnlineIdle then bump m (matchKey (Inst_Repo i) (Inst_Profile i) (Inst_Route i)) else m) m0 is k
   = m0 k + int (length (filter (\<lambda>i. Inst_State i = InstanceOnlineIdle \<and> matchKey (Inst_Repo i) (Inst_Profile i) (Inst_Route i) = k) is))"
  by (induction "is" arbitrary: m0) (auto simp: bump_def)

lemma subseq_consume_idle: "subseq (consume_idle idle ds) ds"
  by (induction ds arbitrary: idle) (auto simp: Let_def)

text \<open>
  Idle instances serve queued work one for one: within every class of demands with one
  repository, profile and route, as many of the foremost demands leave the queue as there are idle
  instances of that class, and the rest stay in order.
\<close>

theorem consumeCompatibleIdle_class:
  "filter (\<lambda>d. demand_match d = k) (consumeCompatibleIdle ds is) =
     drop (length (filter (\<lambda>i. Inst_State i = InstanceOnlineIdle \<and> matchKey (Inst_Repo i) (Inst_Profile i) (Inst_Route i) = k) is))
       (filter (\<lambda>d. demand_match d = k) ds)"
  by (simp add: consumeCompatibleIdle_def consume_idle_class idle_count)
end
