(* ===== verification/Ordering.thy ===== *)
theory Ordering
  imports Admission_Envelope
begin

text \<open>
  The order of the queue (\<open>internal/scheduler/scheduler.go\<close>): normalisation, the aged band with
  its tiers and the per-scope fair share, the young lanes with their throughput order, and the
  single order \<open>priorityOrder\<close> assembled from them.
\<close>

section \<open>Normalisation\<close>

definition demandLess :: "Demand \<Rightarrow> Demand \<Rightarrow> bool" where
  "demandLess a b =
     (if Dem_CreatedAt a \<noteq> Dem_CreatedAt b then Dem_CreatedAt a < Dem_CreatedAt b
      else Key_String (Dem_Key a) < Key_String (Dem_Key b))"

definition demand_refused :: "Input \<Rightarrow> Demand \<Rightarrow> bool" where
  "demand_refused inp d \<longleftrightarrow>
     \<not> Key_Valid (Dem_Key d) \<or> \<not> profile_known (In_Config inp) (Dem_Profile d)
     \<or> Prof_Platform (profile_at (In_Config inp) (Dem_Profile d)) \<noteq> Dem_Platform d
     \<or> Prof_Route (profile_at (In_Config inp) (Dem_Profile d)) \<noteq> Dem_Route d
     \<or> (\<not> time_IsZero (Dem_NotBefore d) \<and> Dem_NotBefore d > In_Now inp)"

fun admit_demands :: "Input \<Rightarrow> DemandKey list \<Rightarrow> Demand list \<Rightarrow> Demand list" where
  "admit_demands inp seen [] = []"
| "admit_demands inp seen (d # ds) =
     (if Dem_Key d \<in> set seen \<or> demand_refused inp d then admit_demands inp seen ds
      else d # admit_demands inp (Dem_Key d # seen) ds)"

definition normalizedDemands :: "Input \<Rightarrow> Demand list" where
  "normalizedDemands inp = sort_slice demandLess (admit_demands inp [] (Ob_Value (In_Demands inp)))"

definition partition_linux :: "Demand list \<Rightarrow> Demand list" where
  "partition_linux demands = filter (\<lambda>d. Dem_Platform d = PlatformLinux) demands"

definition partition_macos :: "Demand list \<Rightarrow> Demand list" where
  "partition_macos demands = filter (\<lambda>d. Dem_Platform d = PlatformMacOS) demands"

section \<open>Age and tier\<close>

definition demandAged :: "time \<Rightarrow> duration \<Rightarrow> Demand \<Rightarrow> bool" where
  "demandAged now age d \<longleftrightarrow> age > 0 \<and> \<not> time_IsZero (Dem_CreatedAt d) \<and> time_Sub now (Dem_CreatedAt d) \<ge> age"

definition splitAged :: "time \<Rightarrow> duration \<Rightarrow> Demand list \<Rightarrow> Demand list \<times> Demand list" where
  "splitAged now age demands = (filter (demandAged now age) demands, filter (\<lambda>d. \<not> demandAged now age d) demands)"

definition effectiveTier :: "time \<Rightarrow> Demand \<Rightarrow> Config \<Rightarrow> int" where
  "effectiveTier now d cfg =
     (if Cfg_PriorityEscalation cfg \<le> 0 \<or> time_IsZero (Dem_CreatedAt d) then Pr_Rank (Dem_Priority d)
      else (let waited = time_Sub now (Dem_CreatedAt d) in
        if waited \<le> 0 then Pr_Rank (Dem_Priority d)
        else Pr_Rank (Dem_Priority d) + waited div Cfg_PriorityEscalation cfg))"

abbreviation tier_of :: "Input \<Rightarrow> Demand \<Rightarrow> int" where
  "tier_of inp d \<equiv> effectiveTier (In_Now inp) d (In_Config inp)"

definition tier_less :: "Input \<Rightarrow> Demand \<Rightarrow> Demand \<Rightarrow> bool" where
  "tier_less inp a b \<longleftrightarrow> tier_of inp a > tier_of inp b"

definition byTier :: "Input \<Rightarrow> Demand list \<Rightarrow> Demand list" where
  "byTier inp demands = (if length demands < 2 then demands else sort_slice (tier_less inp) demands)"

section \<open>Fair share in the aged band\<close>

definition scopeOf :: "string \<Rightarrow> string" where
  "scopeOf repo = (if CHR ''/'' \<in> set repo then takeWhile (\<lambda>c. c \<noteq> CHR ''/'') repo else repo)"

definition reservedChargePrefix :: string where
  "reservedChargePrefix = ''reserved-''"

definition activeScopeCounts :: "Instance list \<Rightarrow> counts" where
  "activeScopeCounts instances =
     foldl (\<lambda>m i. if \<not> ConsumesHostResources i \<or> prefix reservedChargePrefix (Inst_ID i) then m
                  else bump m (scopeOf (Inst_Repo i))) (\<lambda>_. 0) instances"

fun fairShareRanks :: "counts \<Rightarrow> Demand list \<Rightarrow> (DemandKey \<Rightarrow> int) \<Rightarrow> (DemandKey \<Rightarrow> int)" where
  "fairShareRanks nxt [] ranks = ranks"
| "fairShareRanks nxt (d # ds) ranks =
     (let scope = scopeOf (Key_Repo (Dem_Key d)) in
      fairShareRanks (bump nxt scope) ds (ranks(Dem_Key d := nxt scope)))"

text \<open>
  \<open>fairShareSegments\<close> keeps one open run of indices per profile; a demand of the other platform
  closes the runs of the first. The runs are kept in the order they were opened, and the result
  is sorted by its first index, so Go's map iteration order does not matter.
\<close>

type_synonym open_runs = "(ProfileID \<times> nat list) list"

definition run_closed :: "Demand list \<Rightarrow> Demand \<Rightarrow> ProfileID \<times> nat list \<Rightarrow> bool" where
  "run_closed demands d r \<longleftrightarrow>
     \<not> (fst r = Dem_Profile d \<or> Dem_Platform (demands ! hd (snd r)) = Dem_Platform d)"

fun add_to_run :: "ProfileID \<Rightarrow> nat \<Rightarrow> open_runs \<Rightarrow> open_runs" where
  "add_to_run p i [] = [(p, [i])]"
| "add_to_run p i ((q, run) # rs) = (if q = p then (q, run @ [i]) # rs else (q, run) # add_to_run p i rs)"

fun segments_loop :: "Demand list \<Rightarrow> nat \<Rightarrow> Demand list \<Rightarrow> open_runs \<Rightarrow> nat list list \<Rightarrow> open_runs \<times> nat list list" where
  "segments_loop demands i [] opn segs = (opn, segs)"
| "segments_loop demands i (d # ds) opn segs =
     (let closed = filter (run_closed demands d) opn;
          kept = filter (\<lambda>r. \<not> run_closed demands d r) opn
      in segments_loop demands (Suc i) ds (add_to_run (Dem_Profile d) i kept) (segs @ map snd closed))"

definition segment_less :: "nat list \<Rightarrow> nat list \<Rightarrow> bool" where
  "segment_less a b \<longleftrightarrow> hd a < hd b"

definition fairShareSegments :: "Demand list \<Rightarrow> nat list list" where
  "fairShareSegments demands =
     (case segments_loop demands 0 demands [] [] of (opn, segs) \<Rightarrow> sort_slice segment_less (segs @ map snd opn))"

definition share_less :: "Input \<Rightarrow> (DemandKey \<Rightarrow> int) \<Rightarrow> Demand \<Rightarrow> Demand \<Rightarrow> bool" where
  "share_less inp share a b =
     (if tier_of inp a \<noteq> tier_of inp b then tier_of inp a > tier_of inp b
      else share (Dem_Key a) < share (Dem_Key b))"

fun place :: "Demand list \<Rightarrow> (nat \<times> Demand) list \<Rightarrow> Demand list" where
  "place ordered [] = ordered"
| "place ordered ((i, d) # ps) = place (ordered[i := d]) ps"

fun permute_segments :: "Input \<Rightarrow> (DemandKey \<Rightarrow> int) \<Rightarrow> Demand list \<Rightarrow> nat list list \<Rightarrow> Demand list \<Rightarrow> Demand list" where
  "permute_segments inp share demands [] ordered = ordered"
| "permute_segments inp share demands (seg # segs) ordered =
     (if length seg < 2 then permute_segments inp share demands segs ordered
      else (let competing = sort_slice (share_less inp share) (map (\<lambda>i. demands ! i) seg) in
        permute_segments inp share demands segs (place ordered (zip seg competing))))"

definition byScopeFairShare :: "Input \<Rightarrow> Demand list \<Rightarrow> Demand list" where
  "byScopeFairShare inp demands =
     (if length demands < 2 then demands
      else (let share = fairShareRanks (activeScopeCounts (In_insts inp)) demands (\<lambda>_. 0) in
        permute_segments inp share demands (fairShareSegments demands) demands))"

definition agedOrder :: "Input \<Rightarrow> Demand list \<Rightarrow> Demand list" where
  "agedOrder inp demands = byScopeFairShare inp (byTier inp demands)"

text \<open>A Go map from keys to positions, filled in list order: a later entry overwrites.\<close>

definition positions :: "Demand list \<Rightarrow> DemandKey \<rightharpoonup> nat" where
  "positions ds = map_of (rev (zip (map Dem_Key ds) [0..<length ds]))"

definition agedQueueOrder :: "Input \<Rightarrow> Demand list \<Rightarrow> Demand list" where
  "agedQueueOrder inp demands =
     (if length demands < 2 then demands
      else
        (let band = fst (splitAged (In_Now inp) (In_aged inp) (normalizedDemands inp));
             rank = positions (agedOrder inp band);
             ranked = map_of (rev (map (\<lambda>(i, d).
               (Dem_Key d, case rank (Dem_Key d) of Some p \<Rightarrow> p | None \<Rightarrow> length band + i))
               (zip [0..<length demands] demands)));
             rank_at = (\<lambda>d. case ranked (Dem_Key d) of Some n \<Rightarrow> n | None \<Rightarrow> 0)
         in sort_slice (\<lambda>a b. rank_at a < rank_at b) demands))"

section \<open>Throughput order of young work\<close>

definition eventRank :: "Event \<Rightarrow> int" where
  "eventRank e = (if e = EventPullRequest then 0 else 1)"

text \<open>The loop of \<open>dominantShare\<close> over the memory and slot shares.\<close>

definition share_max :: "int \<times> int \<Rightarrow> int \<times> int \<Rightarrow> int \<times> int" where
  "share_max acc nxt = (if fst nxt * snd acc > fst acc * snd nxt then nxt else acc)"

definition dominantShare :: "Resources \<Rightarrow> Resources \<Rightarrow> int \<times> int" where
  "dominantShare resources capacity =
     foldl share_max (CPU resources, max (CPU capacity) 1)
       [(MemoryMB resources, max (MemoryMB capacity) 1), (Slots resources, max (Slots capacity) 1)]"

definition resourceCostLess :: "Resources \<Rightarrow> Resources \<Rightarrow> Resources \<Rightarrow> bool" where
  "resourceCostLess a b capacity =
     (let (an, ad) = dominantShare a capacity; (bn, bd) = dominantShare b capacity in
      if an * bd \<noteq> bn * ad then an * bd < bn * ad
      else if CPU a \<noteq> CPU b then CPU a < CPU b
      else if MemoryMB a \<noteq> MemoryMB b then MemoryMB a < MemoryMB b
      else Slots a < Slots b)"

definition repo_less :: "Demand \<Rightarrow> Demand \<Rightarrow> bool" where
  "repo_less a b =
     (if eventRank (Dem_Event a) \<noteq> eventRank (Dem_Event b) then eventRank (Dem_Event a) < eventRank (Dem_Event b)
      else demandLess a b)"

abbreviation Dem_Repo :: "Demand \<Rightarrow> string" where
  "Dem_Repo d \<equiv> Key_Repo (Dem_Key d)"

definition rotate_repos :: "string list \<Rightarrow> string \<Rightarrow> string list" where
  "rotate_repos repos cursor =
     (if length repos > 1 \<and> cursor \<noteq> [] then
        (let start = length (takeWhile (\<lambda>r. r < cursor) repos) in
         if start < length repos \<and> repos ! start = cursor then
           (let s = Suc start mod length repos in drop s repos @ take s repos)
         else repos)
      else repos)"

function (domintros) rr_rounds :: "nat \<Rightarrow> Demand list list \<Rightarrow> Demand list" where
  "rr_rounds r qs =
     (let added = map (\<lambda>q. q ! r) (filter (\<lambda>q. r < length q) qs) in
      if added = [] then [] else added @ rr_rounds (Suc r) qs)"
  by pat_completeness auto
termination
proof (relation "measure (\<lambda>(r, qs). Max (set (0 # map length qs)) - r)")
  fix r :: nat and qs :: "Demand list list" and added
  assume "added = map (\<lambda>q. q ! r) (filter (\<lambda>q. r < length q) qs)" "added \<noteq> []"
  then obtain q where "q \<in> set qs" "r < length q" by (auto simp: filter_empty_conv)
  then have "r < Max (set (0 # map length qs))"
    by (subst Max_gr_iff) auto
  then show "((Suc r, qs), (r, qs)) \<in> measure (\<lambda>(r, qs). Max (set (0 # map length qs)) - r)"
    by auto
qed simp

declare rr_rounds.simps [simp del]

definition fairOrder :: "Demand list \<Rightarrow> string \<Rightarrow> Demand list" where
  "fairOrder demands cursor =
     (let repos = rotate_repos (sort_slice (<) (rev (remdups (rev (map Dem_Repo demands))))) cursor;
          byRepo = (\<lambda>repo. sort_slice repo_less (filter (\<lambda>d. Dem_Repo d = repo) demands))
      in rr_rounds 0 (map byRepo repos))"

record throughputBucket =
  TB_event :: int
  TB_resources :: Resources
  TB_demands :: "Demand list"

fun add_to_bucket :: "Config \<Rightarrow> Demand \<Rightarrow> throughputBucket list \<Rightarrow> throughputBucket list" where
  "add_to_bucket cfg d [] =
     [\<lparr>TB_event = eventRank (Dem_Event d), TB_resources = Prof_Resources (profile_at cfg (Dem_Profile d)), TB_demands = [d]\<rparr>]"
| "add_to_bucket cfg d (b # bs) =
     (if TB_event b = eventRank (Dem_Event d) \<and> TB_resources b = Prof_Resources (profile_at cfg (Dem_Profile d))
      then b\<lparr>TB_demands := TB_demands b @ [d]\<rparr> # bs else b # add_to_bucket cfg d bs)"

definition bucket_less :: "Config \<Rightarrow> throughputBucket \<Rightarrow> throughputBucket \<Rightarrow> bool" where
  "bucket_less cfg a b =
     (if TB_event a \<noteq> TB_event b then TB_event a < TB_event b
      else resourceCostLess (TB_resources a) (TB_resources b) (Cfg_LinuxCapacity cfg))"

definition throughputOrder :: "Demand list \<Rightarrow> string \<Rightarrow> Config \<Rightarrow> Demand list" where
  "throughputOrder demands cursor cfg =
     concat (map (\<lambda>b. fairOrder (TB_demands b) cursor)
       (sort_slice (bucket_less cfg) (foldl (\<lambda>bs d. add_to_bucket cfg d bs) [] demands)))"

definition youngPriorityOrder :: "Input \<Rightarrow> Demand list \<Rightarrow> string \<Rightarrow> Config \<Rightarrow> Demand list" where
  "youngPriorityOrder inp demands cursor cfg =
     (let controlPlane = filter (\<lambda>d. controlPlane_repo cfg (Dem_Repo d)) demands;
          standard = filter (\<lambda>d. \<not> controlPlane_repo cfg (Dem_Repo d)) demands
      in byTier inp (throughputOrder controlPlane cursor cfg) @ byTier inp (throughputOrder standard cursor cfg))"

section \<open>The whole order\<close>

definition priorityOrder :: "Input \<Rightarrow> Demand list \<Rightarrow> Demand list" where
  "priorityOrder inp demands =
     (case splitAged (In_Now inp) (In_aged inp) demands of (aged, young) \<Rightarrow>
        agedQueueOrder inp aged @ youngPriorityOrder inp young (St_DRRCursor (In_Prior inp)) (In_Config inp))"

definition priorityRank :: "Input \<Rightarrow> DemandKey \<rightharpoonup> nat" where
  "priorityRank inp = positions (priorityOrder inp (normalizedDemands inp))"

lemmas [fleet_eval] =
  demandLess_def demand_refused_def normalizedDemands_def partition_linux_def partition_macos_def
  demandAged_def splitAged_def effectiveTier_def tier_less_def byTier_def scopeOf_def
  reservedChargePrefix_def activeScopeCounts_def run_closed_def segment_less_def fairShareSegments_def
  share_less_def byScopeFairShare_def agedOrder_def positions_def agedQueueOrder_def eventRank_def
  share_max_def dominantShare_def resourceCostLess_def repo_less_def rotate_repos_def fairOrder_def
  bucket_less_def throughputOrder_def youngPriorityOrder_def priorityOrder_def priorityRank_def

section \<open>Comparators\<close>

definition age_key :: "Demand \<Rightarrow> time \<times> string" where
  "age_key d = (Dem_CreatedAt d, Key_String (Dem_Key d))"

interpretation demand_order: keyed_order demandLess age_key
  by unfold_locales (auto simp: demandLess_def age_key_def)

interpretation tier_order: keyed_order "tier_less inp" "\<lambda>d. - tier_of inp d" for inp
  by unfold_locales (auto simp: tier_less_def)

interpretation share_order: keyed_order "share_less inp share" "\<lambda>d. (- tier_of inp d, share (Dem_Key d))" for inp share
  by unfold_locales (auto simp: share_less_def)

interpretation segment_order: keyed_order segment_less hd
  by unfold_locales (simp add: segment_less_def)

interpretation repo_order: keyed_order repo_less "\<lambda>d. (eventRank (Dem_Event d), age_key d)"
  by unfold_locales (auto simp: repo_less_def demandLess_def age_key_def)

lemma age_key_inj: "age_key a = age_key b \<Longrightarrow> Dem_Key a = Dem_Key b"
  by (simp add: age_key_def)

section \<open>Normalised demands\<close>

lemma admit_demands_props:
  "set (admit_demands inp seen ds) \<subseteq> set ds"
  "\<forall>d \<in> set (admit_demands inp seen ds). \<not> demand_refused inp d \<and> Dem_Key d \<notin> set seen"
  "distinct (map Dem_Key (admit_demands inp seen ds))"
  by (induction ds arbitrary: seen) (auto, fastforce+)

lemma admit_demands_complete:
  "d \<in> set ds \<Longrightarrow> \<not> demand_refused inp d \<Longrightarrow> Dem_Key d \<notin> set seen \<Longrightarrow>
     Dem_Key d \<in> Dem_Key ` set (admit_demands inp seen ds)"
  by (induction ds arbitrary: seen) (auto, metis image_eqI insert_iff list.set(2))

lemma admit_demands_distinct:
  "distinct (map Dem_Key ds) \<Longrightarrow> set (map Dem_Key ds) \<inter> set seen = {} \<Longrightarrow>
     admit_demands inp seen ds = filter (\<lambda>d. \<not> demand_refused inp d) ds"
  by (induction ds arbitrary: seen) auto

lemma normalized_props:
  "set (normalizedDemands inp) \<subseteq> set (Ob_Value (In_Demands inp))"
  "d \<in> set (normalizedDemands inp) \<Longrightarrow> \<not> demand_refused inp d"
  "distinct (map Dem_Key (normalizedDemands inp))"
  "sorted (map age_key (normalizedDemands inp))"
proof -
  let ?n = "admit_demands inp [] (Ob_Value (In_Demands inp))"
  show "set (normalizedDemands inp) \<subseteq> set (Ob_Value (In_Demands inp))"
    using admit_demands_props(1) by (simp add: normalizedDemands_def)
  show "d \<in> set (normalizedDemands inp) \<Longrightarrow> \<not> demand_refused inp d"
    using admit_demands_props(2) by (simp add: normalizedDemands_def)
  show "distinct (map Dem_Key (normalizedDemands inp))"
    using admit_demands_props(3) distinct_map_mset [of "normalizedDemands inp" ?n Dem_Key]
    by (simp add: normalizedDemands_def)
  show "sorted (map age_key (normalizedDemands inp))"
    by (simp add: normalizedDemands_def demand_order.sorted_key)
qed

lemma key_eq_demand:
  "distinct (map Dem_Key ds) \<Longrightarrow> a \<in> set ds \<Longrightarrow> b \<in> set ds \<Longrightarrow> Dem_Key a = Dem_Key b \<Longrightarrow> a = b"
  unfolding distinct_map inj_on_def by blast


text \<open>
  The queue does not depend on the order in which the demands were observed.
\<close>

theorem normalizedDemands_order_independent:
  assumes "mset (Ob_Value (In_Demands inp)) = mset ds" and "distinct (map Dem_Key ds)"
  shows "normalizedDemands (inp\<lparr>In_Demands := (In_Demands inp)\<lparr>Ob_Value := ds\<rparr>\<rparr>) = normalizedDemands inp"
proof -
  let ?ds = "Ob_Value (In_Demands inp)" and ?inp = "inp\<lparr>In_Demands := (In_Demands inp)\<lparr>Ob_Value := ds\<rparr>\<rparr>"
  have d: "distinct (map Dem_Key ?ds)" using assms distinct_map_mset by blast
  have ref: "demand_refused ?inp = demand_refused inp" by (simp add: demand_refused_def fun_eq_iff)
  have "normalizedDemands ?inp = sort_slice demandLess (filter (\<lambda>d. \<not> demand_refused inp d) ds)"
    using assms(2) by (simp add: normalizedDemands_def admit_demands_distinct ref)
  also have "\<dots> = sort_slice demandLess (filter (\<lambda>d. \<not> demand_refused inp d) ?ds)"
  proof (rule demand_order.sort_slice_unique_key)
    show "mset (sort_slice demandLess (filter (\<lambda>d. \<not> demand_refused inp d) ?ds)) = mset (filter (\<lambda>d. \<not> demand_refused inp d) ds)"
      using assms(1) by simp
    show "sorted (map age_key (sort_slice demandLess (filter (\<lambda>d. \<not> demand_refused inp d) ?ds)))"
      by (rule demand_order.sorted_key)
    show "inj_on age_key (set (filter (\<lambda>d. \<not> demand_refused inp d) ds))"
      using assms(2) by (auto intro!: inj_onI dest!: age_key_inj intro: key_eq_demand)
  qed
  also have "\<dots> = normalizedDemands inp"
    using d by (simp add: normalizedDemands_def admit_demands_distinct)
  finally show ?thesis .
qed

theorem normalizedDemands_order_independent_witness:
  "let old = fx_demand ''a/x'' 1 500 ''small'' PlatformLinux; young = fx_demand ''b/y'' 2 600 ''small'' PlatformLinux
   in normalizedDemands ((fx_input fx_config [old, young] [] (fx_res 9 9 9))
        \<lparr>In_Demands := (In_Demands (fx_input fx_config [old, young] [] (fx_res 9 9 9)))\<lparr>Ob_Value := [young, old]\<rparr>\<rparr>)
      = normalizedDemands (fx_input fx_config [old, young] [] (fx_res 9 9 9))"
  unfolding Let_def
proof (rule normalizedDemands_order_independent)
  show "distinct (map Dem_Key [fx_demand ''b/y'' 2 600 ''small'' PlatformLinux, fx_demand ''a/x'' 1 500 ''small'' PlatformLinux])"
    by code_simp
qed simp

section \<open>Tiers\<close>

lemma effectiveTier_ge: "Pr_Rank (Dem_Priority d) \<le> effectiveTier now d cfg"
  by (auto simp: effectiveTier_def Let_def pos_imp_zdiv_nonneg_iff)

text \<open>
  Escalation bounds overtaking: a demand never loses a rank as time passes, and once it is
  older than another by as many whole escalation periods as the other's declared rank exceeds its
  own, it is ranked at least as high.
\<close>

theorem effectiveTier_escalation:
  assumes "0 < Cfg_PriorityEscalation cfg" and "Dem_CreatedAt old \<noteq> 0" and "Dem_CreatedAt young \<noteq> 0"
    and "Dem_CreatedAt young \<le> now" and "now - Dem_CreatedAt old \<le> max_Duration"
    and "Dem_CreatedAt young - Dem_CreatedAt old
          \<ge> (Pr_Rank (Dem_Priority young) - Pr_Rank (Dem_Priority old)) * Cfg_PriorityEscalation cfg"
    and "Dem_CreatedAt old \<le> Dem_CreatedAt young" and "now \<le> later"
  shows "effectiveTier now old cfg \<le> effectiveTier later old cfg
    \<and> effectiveTier now young cfg \<le> effectiveTier now old cfg"
proof -
  let ?e = "Cfg_PriorityEscalation cfg" and ?r = "\<lambda>d. Pr_Rank (Dem_Priority d)"
  have tier: "effectiveTier t d cfg = ?r d + time_Sub t (Dem_CreatedAt d) div ?e"
    if "Dem_CreatedAt d \<noteq> 0" "Dem_CreatedAt d \<le> t" for t d
    using assms(1) that time_Sub_nonneg [of "Dem_CreatedAt d" t] by (auto simp: effectiveTier_def Let_def)
  have mono: "effectiveTier now old cfg \<le> effectiveTier later old cfg"
    using assms by (simp add: tier zdiv_mono1 time_Sub_mono)
  have sub: "time_Sub now (Dem_CreatedAt d) = now - Dem_CreatedAt d" if "d \<in> {old, young}" for d
    using assms that by (intro time_Sub_exact) (auto simp: min_Duration_def)
  have "now - Dem_CreatedAt young + (?r young - ?r old) * ?e \<le> now - Dem_CreatedAt old" using assms(6) by simp
  then have "(now - Dem_CreatedAt young + (?r young - ?r old) * ?e) div ?e \<le> (now - Dem_CreatedAt old) div ?e"
    using assms(1) by (rule zdiv_mono1)
  moreover have "(now - Dem_CreatedAt young + (?r young - ?r old) * ?e) div ?e
      = (now - Dem_CreatedAt young) div ?e + (?r young - ?r old)"
    using assms(1) by simp
  ultimately show ?thesis using mono assms(2-4,7) by (simp add: tier sub)
qed

theorem effectiveTier_escalation_witness:
  "let cfg = fx_config\<lparr>Cfg_PriorityEscalation := 100\<rparr>; old = fx_demand ''a/x'' 1 500 ''small'' PlatformLinux;
       young = (fx_demand ''b/y'' 2 800 ''small'' PlatformLinux)\<lparr>Dem_Priority := \<lparr>Pr_Tier = ''release'', Pr_Rank = 3\<rparr>\<rparr>
   in effectiveTier 1000 young cfg \<le> effectiveTier 1000 old cfg"
  using effectiveTier_escalation [of "fx_config\<lparr>Cfg_PriorityEscalation := 100\<rparr>" "fx_demand ''a/x'' 1 500 ''small'' PlatformLinux"
      "(fx_demand ''b/y'' 2 800 ''small'' PlatformLinux)\<lparr>Dem_Priority := \<lparr>Pr_Tier = ''release'', Pr_Rank = 3\<rparr>\<rparr>" 1000 1000]
  by (simp add: fx_demand_def max_Duration_def zero_Priority_def)

section \<open>Repository round robin\<close>

lemma mset_byTier [simp, perm_simps]: "mset (byTier inp ds) = mset ds"
  by (simp add: byTier_def)

lemma byTier_sort: "byTier inp ds = sort_slice (tier_less inp) ds"
proof (cases "length ds < 2")
  case True
  then show ?thesis by (cases ds) (auto simp: byTier_def)
qed (simp add: byTier_def)

lemma rr_rounds_mset: "mset (rr_rounds r qs) = sum_list (map (\<lambda>q. mset (drop r q)) qs)"
proof (induction r qs rule: rr_rounds.induct)
  case (1 r qs)
  let ?added = "map (\<lambda>q. q ! r) (filter (\<lambda>q. r < length q) qs)"
  have split: "sum_list (map (\<lambda>q. mset (drop r q)) ps) =
      mset (map (\<lambda>q. q ! r) (filter (\<lambda>q. r < length q) ps)) + sum_list (map (\<lambda>q. mset (drop (Suc r) q)) ps)" for ps :: "Demand list list"
    by (induction ps) (auto simp: Cons_nth_drop_Suc [symmetric])
  show ?case
  proof (cases "?added = []")
    case True
    then have "\<forall>q \<in> set qs. length q \<le> r" by (auto simp: filter_empty_conv not_less)
    then have "sum_list (map (\<lambda>q. mset (drop r q)) qs) = {#}" by (induction qs) auto
    with True show ?thesis by (simp add: rr_rounds.simps [of r qs])
  next
    case False
    with 1 [OF refl False] split [of qs] show ?thesis by (simp add: rr_rounds.simps [of r qs] Let_def)
  qed
qed

definition first_seen :: "'a list \<Rightarrow> 'a list" where
  "first_seen xs = rev (remdups (rev xs))"

lemma first_seen_props [simp]: "set (first_seen xs) = set xs" "distinct (first_seen xs)"
  by (simp_all add: first_seen_def)

lemma mset_rotate_repos [simp, perm_simps]: "mset (rotate_repos repos cursor) = mset repos"
  by (simp add: rotate_repos_def Let_def) (metis append_take_drop_id mset_append union_commute)

lemma sum_classes:
  assumes "distinct ks" and "f ` set xs \<subseteq> set ks"
  shows "sum_list (map (\<lambda>k. mset (filter (\<lambda>x. f x = k) xs)) ks) = mset xs"
  using assms(2)
proof (induction xs)
  case Nil
  then show ?case by (simp add: sum_list_0)
next
  case (Cons x xs)
  have "sum_list (map (\<lambda>k. mset (filter (\<lambda>y. f y = k) (x # xs))) ls)
      = (if f x \<in> set ls then {#x#} else {#}) + sum_list (map (\<lambda>k. mset (filter (\<lambda>y. f y = k) xs)) ls)"
    if "distinct ls" for ls using that by (induction ls) auto
  with Cons assms(1) show ?case by simp
qed

lemma mset_fairOrder [simp, perm_simps]: "mset (fairOrder ds cursor) = mset ds"
proof -
  let ?repos = "rotate_repos (sort_slice (<) (first_seen (map Dem_Repo ds))) cursor"
  have m: "mset ?repos = mset (first_seen (map Dem_Repo ds))" by simp
  then have "distinct ?repos" "set ?repos = Dem_Repo ` set ds"
    by (metis first_seen_props(2) mset_eq_imp_distinct_iff, metis first_seen_props(1) image_set mset_eq_setD)
  then show ?thesis
    using sum_classes [of ?repos Dem_Repo ds]
    by (simp add: fairOrder_def Let_def rr_rounds_mset comp_def flip: first_seen_def)
qed

lemma mset_add_to_bucket:
  "sum_list (map (\<lambda>b. mset (TB_demands b)) (add_to_bucket cfg d bs)) = add_mset d (sum_list (map (\<lambda>b. mset (TB_demands b)) bs))"
  by (induction bs) auto

lemma mset_throughputOrder [simp, perm_simps]: "mset (throughputOrder ds cursor cfg) = mset ds"
proof -
  have "sum_list (map (\<lambda>b. mset (TB_demands b)) (foldl (\<lambda>bs d. add_to_bucket cfg d bs) bs ds))
      = sum_list (map (\<lambda>b. mset (TB_demands b)) bs) + mset ds" for bs
    by (induction ds arbitrary: bs) (simp_all add: mset_add_to_bucket)
  moreover have "sum_list (map f (sort_slice lt xs)) = sum_list (map f xs)" for f :: "throughputBucket \<Rightarrow> Demand multiset" and lt xs
    by (metis mset_map mset_sort_slice sum_mset_sum_list)
  ultimately show ?thesis
    by (simp add: throughputOrder_def mset_concat comp_def)
qed

lemma mset_youngPriorityOrder [simp, perm_simps]: "mset (youngPriorityOrder inp ds cursor cfg) = mset ds"
  by (simp add: youngPriorityOrder_def mset_filter_partition flip: mset_filter)

abbreviation repo_count :: "string \<Rightarrow> Demand list \<Rightarrow> nat" where
  "repo_count r ds \<equiv> length (filter (\<lambda>d. Dem_Repo d = r) ds)"

lemma repo_count_mset: "mset xs = mset ys \<Longrightarrow> repo_count r xs = repo_count r ys"
  by (metis mset_filter size_mset)

text \<open>What one round adds: at most one demand of a repository, and one of each that has not run out.\<close>

lemma round_count:
  assumes "distinct repos" and "\<forall>p \<in> set repos. \<forall>d \<in> set (f p). Dem_Repo d = p"
  shows "repo_count a (map (\<lambda>q. q ! r) (filter (\<lambda>q. r < length q) (map f repos)))
    = (if a \<in> set repos \<and> r < length (f a) then 1 else 0)"
  using assms by (induction repos) (auto simp: filter_map comp_def)

lemma rr_rounds_fair:
  assumes "distinct repos" and "\<forall>p \<in> set repos. \<forall>d \<in> set (f p). Dem_Repo d = p"
    and "b \<in> set repos" and "repo_count b (take n (rr_rounds r (map f repos))) < length (f b) - r"
  shows "repo_count a (take n (rr_rounds r (map f repos))) \<le> repo_count b (take n (rr_rounds r (map f repos))) + 1"
  using assms(4)
proof (induction r "map f repos" arbitrary: n rule: rr_rounds.induct)
  case (1 r)
  let ?added = "map (\<lambda>q. q ! r) (filter (\<lambda>q. r < length q) (map f repos))"
  note count = round_count [OF assms(1,2), of _ r]
  have b: "r < length (f b)" using 1(2) by simp
  then have ne: "?added \<noteq> []" using assms(3) by (auto simp: filter_empty_conv)
  have out: "rr_rounds r (map f repos) = ?added @ rr_rounds (Suc r) (map f repos)"
    using ne by (subst rr_rounds.simps) (simp add: Let_def)
  show ?case
  proof (cases "n \<le> length ?added")
    case True
    have "repo_count a (take n ?added) \<le> repo_count a ?added"
      by (metis append_take_drop_id filter_append le_add1 length_append)
    with True show ?thesis using count [of a] by (simp only: out take_append) (simp split: if_splits)
  next
    case False
    define rest where "rest = take (n - length ?added) (rr_rounds (Suc r) (map f repos))"
    have take_out: "take n (rr_rounds r (map f repos)) = ?added @ rest"
      using False by (simp only: out take_append rest_def) simp
    have cb: "repo_count b (?added @ rest) = 1 + repo_count b rest"
      using count [of b] b assms(3) by (simp only: filter_append length_append) simp
    have ca: "repo_count a (?added @ rest) \<le> 1 + repo_count a rest"
      using count [of a] by (simp only: filter_append length_append) simp
    have "repo_count b rest < length (f b) - Suc r" using 1(2) cb by (simp only: take_out)
    then have "repo_count a rest \<le> repo_count b rest + 1"
      using 1(1) [OF refl ne, of "n - length ?added"] by (simp only: rest_def)
    with ca cb show ?thesis by (simp only: take_out)
  qed
qed

text \<open>
  C26. The repository round robin is fair: in every prefix of the order, a repository with work
  still waiting behind the prefix has at most one demand fewer in it than any other repository has.
\<close>

theorem fairOrder_round_robin:
  assumes "repo_count b (take n (fairOrder ds cursor)) < repo_count b ds"
  shows "repo_count a (take n (fairOrder ds cursor)) \<le> repo_count b (take n (fairOrder ds cursor)) + 1"
proof -
  let ?repos = "rotate_repos (sort_slice (<) (first_seen (map Dem_Repo ds))) cursor"
  let ?f = "\<lambda>repo. sort_slice repo_less (filter (\<lambda>d. Dem_Repo d = repo) ds)"
  have m: "mset ?repos = mset (first_seen (map Dem_Repo ds))" by simp
  have dist: "distinct ?repos" by (metis m first_seen_props(2) mset_eq_imp_distinct_iff)
  have b: "b \<in> set ?repos"
  proof -
    have "filter (\<lambda>d. Dem_Repo d = b) ds \<noteq> []" using assms by auto
    then have "b \<in> set (first_seen (map Dem_Repo ds))" by (auto simp: filter_empty_conv)
    then show ?thesis using m mset_eq_setD by blast
  qed
  have "fairOrder ds cursor = rr_rounds 0 (map ?f ?repos)"
    by (simp add: fairOrder_def Let_def flip: first_seen_def)
  with rr_rounds_fair [OF dist _ b, of ?f n 0 a] assms show ?thesis by simp
qed

theorem fairOrder_round_robin_witness:
  "let ds = [fx_demand ''a/x'' 1 500 ''small'' PlatformLinux, fx_demand ''a/x'' 2 501 ''small'' PlatformLinux,
             fx_demand ''b/y'' 3 502 ''small'' PlatformLinux]
   in repo_count ''a/x'' (take 1 (fairOrder ds [])) \<le> repo_count ''b/y'' (take 1 (fairOrder ds [])) + 1"
  unfolding Let_def by (rule fairOrder_round_robin) code_simp

section \<open>Cost order of young work\<close>

definition cost_key :: "Resources \<Rightarrow> Resources \<Rightarrow> rat \<times> int \<times> int \<times> int" where
  "cost_key capacity r = (case dominantShare r capacity of (n, d) \<Rightarrow> (of_int n / of_int d, CPU r, MemoryMB r, Slots r))"

lemma dominantShare_pos: "0 < snd (dominantShare r capacity)"
  by (auto simp: dominantShare_def share_max_def less_max_iff_disj)

lemma cross_multiply:
  assumes "0 < b" and "0 < d"
  shows "(a * d < c * b) = (of_int a / of_int b < (of_int c / of_int d :: rat))"
    and "(a * d = c * b) = (of_int a / of_int b = (of_int c / of_int d :: rat))"
proof -
  have pos: "0 < (of_int b :: rat)" "0 < (of_int d :: rat)" using assms by simp_all
  have "(of_int a / of_int b < (of_int c / of_int d :: rat)) = (of_int a * of_int d < (of_int c * of_int b :: rat))"
    using pos by (simp add: frac_less_eq divide_less_0_iff mult_less_0_iff)
  then show "(a * d < c * b) = (of_int a / of_int b < (of_int c / of_int d :: rat))"
    by (simp flip: of_int_mult)
  have "(of_int a / of_int b = (of_int c / of_int d :: rat)) = (of_int a * of_int d = (of_int c * of_int b :: rat))"
    using pos by (simp add: frac_eq_eq)
  then show "(a * d = c * b) = (of_int a / of_int b = (of_int c / of_int d :: rat))"
    by (simp flip: of_int_mult)
qed

interpretation cost_order: keyed_order "\<lambda>a b. resourceCostLess a b capacity" "cost_key capacity" for capacity
proof unfold_locales
  fix x y
  show "resourceCostLess x y capacity \<longleftrightarrow> cost_key capacity x < cost_key capacity y"
    using cross_multiply [OF dominantShare_pos [of x capacity] dominantShare_pos [of y capacity]]
    by (auto simp: resourceCostLess_def cost_key_def Let_def split: prod.splits)
qed

interpretation bucket_order: keyed_order "bucket_less cfg" "\<lambda>b. (TB_event b, cost_key (Cfg_LinuxCapacity cfg) (TB_resources b))" for cfg
  by unfold_locales (auto simp: bucket_less_def cost_order.less_key)

definition throughput_key :: "Config \<Rightarrow> Demand \<Rightarrow> int \<times> rat \<times> int \<times> int \<times> int" where
  "throughput_key cfg d = (eventRank (Dem_Event d), cost_key (Cfg_LinuxCapacity cfg) (Prof_Resources (profile_at cfg (Dem_Profile d))))"

definition bucket_ok :: "Config \<Rightarrow> throughputBucket \<Rightarrow> bool" where
  "bucket_ok cfg b \<longleftrightarrow> (\<forall>d \<in> set (TB_demands b). throughput_key cfg d = (TB_event b, cost_key (Cfg_LinuxCapacity cfg) (TB_resources b)))"

lemma add_to_bucket_ok: "list_all (bucket_ok cfg) bs \<Longrightarrow> list_all (bucket_ok cfg) (add_to_bucket cfg d bs)"
  by (induction bs) (auto simp: bucket_ok_def throughput_key_def)

lemma buckets_ok: "list_all (bucket_ok cfg) bs \<Longrightarrow> list_all (bucket_ok cfg) (foldl (\<lambda>bs d. add_to_bucket cfg d bs) bs ds)"
  by (induction ds arbitrary: bs) (auto simp: add_to_bucket_ok)

lemma sorted_concat_const:
  assumes "sorted (map k bs)" and "\<forall>b \<in> set bs. \<forall>d \<in> set (g b). key d = k b"
  shows "sorted (map key (concat (map g bs)))"
  using assms
proof (induction bs)
  case (Cons b bs)
  have const: "map key (g b) = replicate (length (g b)) (k b)"
    using Cons.prems(2) by (auto intro!: replicate_eqI)
  with Cons show ?case by (auto simp: sorted_append)
qed simp

lemma set_fairOrder [simp]: "set (fairOrder ds c) = set ds"
  by (metis mset_fairOrder set_mset_mset)

text \<open>
  Young work is ordered by pull request first and then by resource cost, the dominant share
  of the node a profile asks for: the order of the lane is non-decreasing in that key.
\<close>

theorem throughputOrder_sorted: "sorted (map (throughput_key cfg) (throughputOrder ds cursor cfg))"
proof -
  let ?bs = "sort_slice (bucket_less cfg) (foldl (\<lambda>bs d. add_to_bucket cfg d bs) [] ds)"
  have "list_all (bucket_ok cfg) ?bs" using buckets_ok [of cfg "[]" ds] by (simp add: list_all_iff)
  then show ?thesis
    unfolding throughputOrder_def
    by (intro sorted_concat_const [where k = "\<lambda>b. (TB_event b, cost_key (Cfg_LinuxCapacity cfg) (TB_resources b))"]
        bucket_order.sorted_key) (auto simp: list_all_iff bucket_ok_def)
qed

end
