(* ===== verification/Fair_Share.thy ===== *)
theory Fair_Share
  imports Ordering
begin

text \<open>
  What the fair share of the aged band (\<open>byScopeFairShare\<close>, \<open>internal/scheduler/scheduler.go\<close>) does and
  does not exchange, and the shape of \<open>priorityOrder\<close> that follows.
\<close>

section \<open>Segments of the aged band\<close>

text \<open>The profile of a run is the profile of the demand at its first index.\<close>

abbreviation run_profile :: "Demand list \<Rightarrow> nat list \<Rightarrow> ProfileID" where
  "run_profile ds seg \<equiv> Dem_Profile (ds ! hd seg)"

definition run_ok :: "Demand list \<Rightarrow> nat list \<Rightarrow> bool" where
  "run_ok ds seg \<longleftrightarrow> seg \<noteq> [] \<and> (\<forall>j \<in> set seg. Dem_Profile (ds ! j) = run_profile ds seg)"

definition profile_indices :: "Demand list \<Rightarrow> ProfileID \<Rightarrow> nat \<Rightarrow> nat list" where
  "profile_indices ds p i = filter (\<lambda>j. Dem_Profile (ds ! j) = p) [0..<i]"

definition runs_inv :: "Demand list \<Rightarrow> nat \<Rightarrow> open_runs \<Rightarrow> nat list list \<Rightarrow> bool" where
  "runs_inv ds i opn segs \<longleftrightarrow>
     distinct (map fst opn) \<and> (\<forall>seg \<in> set segs. run_ok ds seg)
     \<and> (\<forall>r \<in> set opn. run_ok ds (snd r) \<and> run_profile ds (snd r) = fst r)
     \<and> (\<forall>p. concat (filter (\<lambda>seg. run_profile ds seg = p) (segs @ map snd opn)) = profile_indices ds p i)"

lemma filter_profile_opn:
  assumes "distinct (map fst opn)" and "\<forall>r \<in> set opn. run_profile ds (snd r) = fst r"
  shows "filter (\<lambda>seg. run_profile ds seg = p) (map snd opn) = (case map_of opn p of None \<Rightarrow> [] | Some run \<Rightarrow> [run])"
  using assms
proof (induction opn)
  case (Cons r opn)
  have "filter (\<lambda>seg. run_profile ds seg = p) (map snd opn) = []" if "fst r = p"
  proof -
    have "p \<notin> fst ` set opn" using Cons.prems(1) that by simp
    then have "\<forall>r' \<in> set opn. fst r' \<noteq> p" by (metis image_eqI)
    with Cons.prems(2) show ?thesis by (auto simp: filter_empty_conv)
  qed
  with Cons show ?case by (cases r) auto
qed simp

lemma add_to_run_map_of: "map_of (add_to_run p i opn) q =
    (if q = p then Some ((case map_of opn p of None \<Rightarrow> [] | Some run \<Rightarrow> run) @ [i]) else map_of opn q)"
  by (induction p i opn rule: add_to_run.induct) auto

lemma add_to_run_fst: "set (map fst (add_to_run p i opn)) = insert p (set (map fst opn))"
  by (induction p i opn rule: add_to_run.induct) auto

lemma add_to_run_distinct: "distinct (map fst opn) \<Longrightarrow> distinct (map fst (add_to_run p i opn))"
proof (induction p i opn rule: add_to_run.induct)
  case (2 p i q run rs)
  then show ?case using add_to_run_fst [of p i rs] by auto
qed simp

lemma set_add_to_run:
  "distinct (map fst opn) \<Longrightarrow> r \<in> set (add_to_run p i opn) \<longleftrightarrow>
    (r \<in> set opn \<and> fst r \<noteq> p) \<or> r = (p, (case map_of opn p of None \<Rightarrow> [] | Some run \<Rightarrow> run) @ [i])"
proof (cases r)
  case (Pair q run)
  assume d: "distinct (map fst opn)"
  have "r \<in> set (add_to_run p i opn) \<longleftrightarrow> map_of (add_to_run p i opn) q = Some run"
    using map_of_eq_Some_iff [OF add_to_run_distinct [OF d]] Pair by simp
  moreover have "r \<in> set opn \<longleftrightarrow> map_of opn q = Some run"
    using map_of_eq_Some_iff [OF d] Pair by simp
  ultimately show ?thesis using Pair by (auto simp: add_to_run_map_of)
qed

lemma map_of_filter_distinct:
  "distinct (map fst xs) \<Longrightarrow>
     map_of (filter Q xs) k = (case map_of xs k of None \<Rightarrow> None | Some v \<Rightarrow> if Q (k, v) then Some v else None)"
  by (induction xs) (auto split: option.splits simp: map_of_eq_None_iff)

lemma concat_map_snd_profile:
  assumes "distinct (map fst opn)" and "\<forall>r \<in> set opn. run_profile ds (snd r) = fst r"
  shows "concat (filter (\<lambda>seg. run_profile ds seg = p) (map snd opn)) = (case map_of opn p of None \<Rightarrow> [] | Some run \<Rightarrow> run)"
  by (simp add: filter_profile_opn [OF assms] split: option.split)

lemma added_run_ok:
  assumes "distinct (map fst opn)" and "\<forall>r \<in> set opn. run_ok ds (snd r) \<and> run_profile ds (snd r) = fst r"
    and "r \<in> set (add_to_run (Dem_Profile (ds ! i)) i opn)"
  shows "run_ok ds (snd r) \<and> run_profile ds (snd r) = fst r"
proof -
  let ?p = "Dem_Profile (ds ! i)"
  from assms(3) consider "r \<in> set opn" | "r = (?p, (case map_of opn ?p of None \<Rightarrow> [] | Some run \<Rightarrow> run) @ [i])"
    by (auto simp: set_add_to_run [OF assms(1)])
  then show ?thesis
  proof cases
    case 1
    then show ?thesis using assms(2) by blast
  next
    case 2
    show ?thesis
    proof (cases "map_of opn ?p")
      case None
      then show ?thesis using 2 by (simp add: run_ok_def)
    next
      case (Some run)
      from map_of_SomeD [OF this] have "run_ok ds run" "run_profile ds run = ?p"
        using assms(2) by auto
      then show ?thesis using 2 Some by (simp add: run_ok_def)
    qed
  qed
qed

text \<open>Closing the runs of the other platform and opening index \<open>i\<close> adds it to the runs of its profile.\<close>

lemma profile_concat_step:
  assumes "distinct (map fst opn)" and "\<forall>r \<in> set opn. run_ok ds (snd r) \<and> run_profile ds (snd r) = fst r"
    and d: "d = ds ! i"
  defines "kept \<equiv> filter (\<lambda>r. \<not> run_closed ds d r) opn" and "shut \<equiv> filter (run_closed ds d) opn"
  shows "concat (filter (\<lambda>seg. run_profile ds seg = p) (map snd shut @ map snd (add_to_run (Dem_Profile d) i kept)))
      = concat (filter (\<lambda>seg. run_profile ds seg = p) (map snd opn)) @ (if p = Dem_Profile d then [i] else [])"
proof -
  have dist: "distinct (map fst kept)" "distinct (map fst shut)"
    using assms(1) by (simp_all add: kept_def shut_def distinct_map_filterI)
  have maps: "map_of kept p = (case map_of opn p of None \<Rightarrow> None | Some v \<Rightarrow> if \<not> run_closed ds d (p, v) then Some v else None)"
    "map_of shut p = (case map_of opn p of None \<Rightarrow> None | Some v \<Rightarrow> if run_closed ds d (p, v) then Some v else None)"
    by (simp_all add: kept_def shut_def map_of_filter_distinct assms(1))
  have prof: "\<forall>r \<in> set shut. run_profile ds (snd r) = fst r" "\<forall>r \<in> set opn. run_profile ds (snd r) = fst r"
    using assms(2) by (auto simp: shut_def)
  have kept_ok: "\<forall>r \<in> set kept. run_ok ds (snd r) \<and> run_profile ds (snd r) = fst r"
    using assms(2) by (simp add: kept_def)
  have "\<forall>r \<in> set (add_to_run (Dem_Profile (ds ! i)) i kept). run_profile ds (snd r) = fst r"
    using added_run_ok [OF dist(1) kept_ok] by blast
  then have added: "\<forall>r \<in> set (add_to_run (Dem_Profile d) i kept). run_profile ds (snd r) = fst r" by (simp add: d)
  have "\<not> run_closed ds d (Dem_Profile d, v)" for v by (simp add: run_closed_def)
  with maps show ?thesis
    by (cases "map_of opn p")
      (auto simp: concat_map_snd_profile [OF assms(1) prof(2)] concat_map_snd_profile [OF dist(2) prof(1)]
        concat_map_snd_profile [OF add_to_run_distinct [OF dist(1)] added] add_to_run_map_of)
qed

lemma runs_inv_step:
  assumes inv: "runs_inv ds i opn segs" and d: "d = ds ! i"
  shows "runs_inv ds (Suc i) (add_to_run (Dem_Profile d) i (filter (\<lambda>r. \<not> run_closed ds d r) opn))
    (segs @ map snd (filter (run_closed ds d) opn))"
proof -
  let ?kept = "filter (\<lambda>r. \<not> run_closed ds d r) opn"
  have dist: "distinct (map fst opn)" and segs: "\<forall>seg \<in> set segs. run_ok ds seg"
    and ok: "\<forall>r \<in> set opn. run_ok ds (snd r) \<and> run_profile ds (snd r) = fst r"
    and old: "\<And>p. concat (filter (\<lambda>seg. run_profile ds seg = p) (segs @ map snd opn)) = profile_indices ds p i"
    using inv by (auto simp: runs_inv_def)
  have dist': "distinct (map fst ?kept)" using dist by (rule distinct_map_filterI)
  have "concat (filter (\<lambda>seg. run_profile ds seg = p) ((segs @ map snd (filter (run_closed ds d) opn))
      @ map snd (add_to_run (Dem_Profile d) i ?kept))) = profile_indices ds p (Suc i)" for p
    using profile_concat_step [OF dist ok d, of p] old [of p] d by (simp add: profile_indices_def)
  moreover have "\<forall>r \<in> set (add_to_run (Dem_Profile d) i ?kept). run_ok ds (snd r) \<and> run_profile ds (snd r) = fst r"
    using added_run_ok [OF dist', of ds] ok d by auto
  ultimately show ?thesis
    unfolding runs_inv_def using segs ok dist' by (auto simp: add_to_run_distinct)
qed

lemma segments_loop_inv:
  assumes "runs_inv ds i opn segs" and "drop i ds = rest" and "i \<le> length ds"
    and "segments_loop ds i rest opn segs = (opn', segs')"
  shows "runs_inv ds (length ds) opn' segs'"
  using assms
proof (induction ds i rest opn segs arbitrary: opn' segs' rule: segments_loop.induct)
  case (1 ds i opn segs)
  then show ?case by simp
next
  case (2 ds i d rest opn segs)
  from 2(3) have "i < length ds" "d = ds ! i" "drop (Suc i) ds = rest"
    by (metis drop_all list.distinct(1) not_less, metis nth_via_drop, metis drop_Suc list.sel(3) tl_drop)
  with 2 runs_inv_step show ?case by (simp add: Let_def)
qed

lemma runs_inv_bound:
  assumes "runs_inv ds i opn segs" and "seg \<in> set (segs @ map snd opn)" and "j \<in> set seg"
  shows "j < i"
proof -
  have "j \<in> set (concat (filter (\<lambda>s. run_profile ds s = run_profile ds seg) (segs @ map snd opn)))"
    using assms(2,3) by auto
  moreover have "concat (filter (\<lambda>s. run_profile ds s = run_profile ds seg) (segs @ map snd opn)) = profile_indices ds (run_profile ds seg) i"
    using assms(1) by (simp add: runs_inv_def)
  ultimately show ?thesis by (simp only:) (simp add: profile_indices_def)
qed

lemma fairShareSegments_profile:
  "concat (filter (\<lambda>seg. run_profile ds seg = p) (fairShareSegments ds)) = profile_indices ds p (length ds)"
  "\<forall>seg \<in> set (fairShareSegments ds). run_ok ds seg"
proof -
  obtain opn segs where loop: "segments_loop ds 0 ds [] [] = (opn, segs)" by fastforce
  have "runs_inv ds 0 [] []" by (simp add: runs_inv_def profile_indices_def)
  from segments_loop_inv [OF this _ _ loop] have inv: "runs_inv ds (length ds) opn segs" by simp
  then have cat: "concat (filter (\<lambda>seg. run_profile ds seg = p) (segs @ map snd opn)) = profile_indices ds p (length ds)" for p
    by (simp add: runs_inv_def)
  have ok: "\<forall>seg \<in> set (segs @ map snd opn). run_ok ds seg" using inv by (auto simp: runs_inv_def)
  then show "\<forall>seg \<in> set (fairShareSegments ds). run_ok ds seg" by (simp add: fairShareSegments_def loop)
  have heads: "sorted (map hd xss)" if "sorted (concat xss)" "\<forall>xs \<in> set xss. xs \<noteq> []" for xss :: "nat list list"
    using that
  proof (induction xss)
    case (Cons xs xss)
    then have "hd xs \<le> hd ys" if "ys \<in> set xss" for ys
      using that Cons.prems by (auto simp: sorted_append)
    with Cons show ?case by (auto simp: sorted_append)
  qed simp
  let ?F = "filter (\<lambda>seg. run_profile ds seg = p) (segs @ map snd opn)"
  have "sorted (concat ?F)" by (simp only: cat) (simp add: profile_indices_def sorted_wrt_filter)
  moreover have "\<forall>xs \<in> set ?F. xs \<noteq> []" using ok by (auto simp: run_ok_def)
  ultimately have "sorted (map hd ?F)" by (rule heads)
  then have "sort_slice segment_less ?F = ?F"
    by (rule segment_order.sort_slice_sorted_key)
  then show "concat (filter (\<lambda>seg. run_profile ds seg = p) (fairShareSegments ds)) = profile_indices ds p (length ds)"
    using cat [of p] by (simp only: fairShareSegments_def loop prod.case segment_order.filter_sort_slice)
qed
section \<open>Permuting inside segments\<close>

lemma length_place [simp]: "length (place xs ps) = length xs"
  by (induction xs ps rule: place.induct) auto

lemma place_notin: "j \<notin> fst ` set ps \<Longrightarrow> place xs ps ! j = xs ! j"
  by (induction xs ps rule: place.induct) auto

lemma place_zip:
  assumes "distinct seg" and "length cs0 = length seg" and "\<forall>j \<in> set seg. j < length xs"
  shows "map (\<lambda>j. place xs (zip seg cs0) ! j) seg = cs0"
  using assms
proof (induction seg arbitrary: cs0 xs)
  case (Cons i seg)
  then obtain c cs where cs0: "cs0 = c # cs" by (cases cs0) auto
  have "i \<notin> fst ` set (zip seg cs)" using Cons.prems(1) by (auto dest: set_zip_leftD)
  then have "place (xs[i := c]) (zip seg cs) ! i = c" using Cons.prems(3) by (simp add: place_notin)
  with Cons cs0 show ?case by simp
qed simp

text \<open>Every segment of the result holds the sorted demands of that segment.\<close>

lemma permute_segments_sorted:
  assumes "distinct (concat segs)" and "\<forall>j \<in> set (concat segs). j < length ds \<and> ordered ! j = ds ! j"
    and "length ordered = length ds"
  shows "length (permute_segments inp share ds segs ordered) = length ds
    \<and> (\<forall>j. j \<notin> set (concat segs) \<longrightarrow> permute_segments inp share ds segs ordered ! j = ordered ! j)
    \<and> (\<forall>seg \<in> set segs. map (\<lambda>j. permute_segments inp share ds segs ordered ! j) seg
         = sort_slice (share_less inp share) (map (\<lambda>j. ds ! j) seg))"
  using assms
proof (induction segs arbitrary: ordered)
  case (Cons seg segs)
  show ?case
  proof (cases "length seg < 2")
    case True
    have "map (\<lambda>j. permute_segments inp share ds segs ordered ! j) seg = map (\<lambda>j. ds ! j) seg"
      using Cons.IH [of ordered] Cons.prems by (auto simp: disjoint_iff)
    moreover have "sort_slice (share_less inp share) (map (\<lambda>j. ds ! j) seg) = map (\<lambda>j. ds ! j) seg"
      using True by (cases seg) auto
    ultimately show ?thesis using True Cons.IH [of ordered] Cons.prems by auto
  next
    case False
    let ?comp = "sort_slice (share_less inp share) (map (\<lambda>j. ds ! j) seg)"
    let ?ord = "place ordered (zip seg ?comp)"
    have keep: "?ord ! j = ordered ! j" if "j \<notin> set seg" for j
      using that by (intro place_notin) (auto dest: set_zip_leftD)
    have disj: "j \<notin> set seg" if "j \<in> set (concat segs)" for j using Cons.prems(1) that by auto
    have "distinct (concat segs)" "length ?ord = length ds"
      "\<forall>j \<in> set (concat segs). j < length ds \<and> ?ord ! j = ds ! j"
      using Cons.prems by (simp_all add: keep disj)
    from Cons.IH [OF this(1,3,2)] have IH: "length (permute_segments inp share ds segs ?ord) = length ds"
      "\<forall>j. j \<notin> set (concat segs) \<longrightarrow> permute_segments inp share ds segs ?ord ! j = ?ord ! j"
      "\<forall>seg \<in> set segs. map (\<lambda>j. permute_segments inp share ds segs ?ord ! j) seg
         = sort_slice (share_less inp share) (map (\<lambda>j. ds ! j) seg)"
      by blast+
    have "map (\<lambda>j. permute_segments inp share ds segs ?ord ! j) seg = map (\<lambda>j. ?ord ! j) seg"
      using IH(2) Cons.prems(1) by (auto simp: disjoint_iff)
    also have "\<dots> = ?comp" using Cons.prems by (intro place_zip) auto
    finally show ?thesis using False IH keep by (auto simp: Let_def)
  qed
qed auto

lemma filter_concat_runs:
  "\<forall>seg \<in> set segs. run_ok ds seg \<Longrightarrow>
     filter (\<lambda>j. Dem_Profile (ds ! j) = p) (concat segs) = concat (filter (\<lambda>seg. run_profile ds seg = p) segs)"
proof (induction segs)
  case (Cons seg segs)
  then have "\<forall>j \<in> set seg. Dem_Profile (ds ! j) = run_profile ds seg" unfolding run_ok_def by (meson list.set_intros(1))
  then have "filter (\<lambda>j. Dem_Profile (ds ! j) = p) seg = filter (\<lambda>j. run_profile ds seg = p) seg"
    by (metis (mono_tags, lifting) filter_cong)
  with Cons show ?case by simp
qed simp

lemma distinct_by_classes: "\<forall>p. distinct (filter (\<lambda>x. f x = p) xs) \<Longrightarrow> distinct xs"
proof (induction xs)
  case (Cons x xs)
  then have "distinct (filter (\<lambda>y. f y = f x) (x # xs))" by blast
  moreover have "\<forall>p. distinct (filter (\<lambda>y. f y = p) xs)" using Cons.prems by (metis distinct.simps(2) filter.simps(2))
  ultimately show ?case using Cons.IH by auto
qed simp

lemma fairShareSegments_classes:
  "filter (\<lambda>j. Dem_Profile (ds ! j) = p) (concat (fairShareSegments ds)) = profile_indices ds p (length ds)"
  by (simp only: filter_concat_runs [OF fairShareSegments_profile(2)] fairShareSegments_profile(1))

lemma fairShareSegments_indices:
  "set (concat (fairShareSegments ds)) = {..<length ds}" "distinct (concat (fairShareSegments ds))"
proof -
  have "j \<in> set (concat (fairShareSegments ds)) \<longleftrightarrow> j \<in> set (profile_indices ds (Dem_Profile (ds ! j)) (length ds))" for j
    by (simp only: fairShareSegments_classes [symmetric]) simp
  then show "set (concat (fairShareSegments ds)) = {..<length ds}"
    by (auto simp: profile_indices_def)
  show "distinct (concat (fairShareSegments ds))"
    by (rule distinct_by_classes [where f = "\<lambda>j. Dem_Profile (ds ! j)"]) (simp add: fairShareSegments_classes profile_indices_def)
qed

definition share_ranks :: "Input \<Rightarrow> Demand list \<Rightarrow> DemandKey \<Rightarrow> int" where
  "share_ranks inp ds = fairShareRanks (activeScopeCounts (In_insts inp)) ds (\<lambda>_. 0)"

lemma permute_segments_short: "\<forall>seg \<in> set segs. length seg < 2 \<Longrightarrow> permute_segments inp share ds segs ordered = ordered"
  by (induction segs) auto

lemma byScopeFairShare_permute:
  "byScopeFairShare inp ds = permute_segments inp (share_ranks inp ds) ds (fairShareSegments ds) ds"
proof (cases "length ds < 2")
  case True
  have "length seg < 2" if "seg \<in> set (fairShareSegments ds)" for seg
  proof -
    have "distinct seg" "set seg \<subseteq> {..<length ds}"
      using that fairShareSegments_indices [of ds] by (auto simp: distinct_concat_iff)
    then have "length seg \<le> length ds"
      by (metis card_lessThan card_mono distinct_card finite_lessThan)
    with True show ?thesis by simp
  qed
  then show ?thesis using True by (simp add: byScopeFairShare_def permute_segments_short)
qed (simp add: byScopeFairShare_def share_ranks_def Let_def)

lemma byScopeFairShare_segments:
  "length (byScopeFairShare inp ds) = length ds"
  "seg \<in> set (fairShareSegments ds) \<Longrightarrow> map (\<lambda>j. byScopeFairShare inp ds ! j) seg =
     sort_slice (share_less inp (share_ranks inp ds)) (map (\<lambda>j. ds ! j) seg)"
proof -
  have "\<forall>j \<in> set (concat (fairShareSegments ds)). j < length ds \<and> ds ! j = ds ! j"
    by (simp only: fairShareSegments_indices(1)) simp
  from permute_segments_sorted [OF fairShareSegments_indices(2) this refl, of inp "share_ranks inp ds"]
  show "length (byScopeFairShare inp ds) = length ds"
    and "seg \<in> set (fairShareSegments ds) \<Longrightarrow> map (\<lambda>j. byScopeFairShare inp ds ! j) seg =
      sort_slice (share_less inp (share_ranks inp ds)) (map (\<lambda>j. ds ! j) seg)"
    by (simp_all only: byScopeFairShare_permute)
qed

text \<open>The fair share exchanges demands of one profile only: the profile at each place stays.\<close>

lemma byScopeFairShare_same_profile:
  assumes "j < length ds"
  shows "Dem_Profile (byScopeFairShare inp ds ! j) = Dem_Profile (ds ! j)"
proof -
  obtain seg where seg: "seg \<in> set (fairShareSegments ds)" "j \<in> set seg"
    using fairShareSegments_indices(1) [of ds] assms by auto
  then have ok: "run_ok ds seg" using fairShareSegments_profile(2) by blast
  have "byScopeFairShare inp ds ! j \<in> set (map (\<lambda>j. byScopeFairShare inp ds ! j) seg)" using seg(2) by simp
  then have "byScopeFairShare inp ds ! j \<in> (\<lambda>j. ds ! j) ` set seg"
    by (simp only: byScopeFairShare_segments(2) [OF seg(1)] set_sort_slice set_map)
  with ok seg(2) show ?thesis unfolding run_ok_def by (metis imageE)
qed

text \<open>The demands of one profile, segment by segment.\<close>

lemma byScopeFairShare_profile:
  "filter (\<lambda>d. Dem_Profile d = p) (byScopeFairShare inp ds) =
     concat (map (\<lambda>seg. sort_slice (share_less inp (share_ranks inp ds)) (map (\<lambda>j. ds ! j) seg))
       (filter (\<lambda>seg. run_profile ds seg = p) (fairShareSegments ds)))"
proof -
  let ?R = "byScopeFairShare inp ds" and ?F = "filter (\<lambda>seg. run_profile ds seg = p) (fairShareSegments ds)"
  have "filter (\<lambda>d. Dem_Profile d = p) ?R = filter (\<lambda>d. Dem_Profile d = p) (map (\<lambda>j. ?R ! j) [0..<length ds])"
    by (simp add: map_nth flip: byScopeFairShare_segments(1) [of inp ds])
  also have "\<dots> = map (\<lambda>j. ?R ! j) (filter (\<lambda>j. Dem_Profile (?R ! j) = p) [0..<length ds])"
    by (simp add: filter_map comp_def)
  also have "filter (\<lambda>j. Dem_Profile (?R ! j) = p) [0..<length ds] = profile_indices ds p (length ds)"
    unfolding profile_indices_def by (rule filter_cong) (simp_all add: byScopeFairShare_same_profile)
  also have "map (\<lambda>j. ?R ! j) \<dots> = concat (map (\<lambda>seg. map (\<lambda>j. ?R ! j) seg) ?F)"
    by (simp only: fairShareSegments_profile(1) [symmetric] map_concat)
  also have "\<dots> = concat (map (\<lambda>seg. sort_slice (share_less inp (share_ranks inp ds)) (map (\<lambda>j. ds ! j) seg)) ?F)"
    by (intro arg_cong [where f = concat] map_cong refl) (simp add: byScopeFairShare_segments(2))
  finally show ?thesis .
qed

lemma band_profile:
  "filter (\<lambda>d. Dem_Profile d = p) ds =
     concat (map (\<lambda>seg. map (\<lambda>j. ds ! j) seg) (filter (\<lambda>seg. run_profile ds seg = p) (fairShareSegments ds)))"
proof -
  have "filter (\<lambda>d. Dem_Profile d = p) ds = filter (\<lambda>d. Dem_Profile d = p) (map (\<lambda>j. ds ! j) [0..<length ds])"
    by (simp add: map_nth)
  also have "\<dots> = map (\<lambda>j. ds ! j) (profile_indices ds p (length ds))"
    by (simp add: filter_map comp_def profile_indices_def)
  finally show ?thesis by (simp only: fairShareSegments_profile(1) [symmetric] map_concat)
qed

lemma mset_by_classes: "(\<And>p. mset (filter (\<lambda>x. f x = p) xs) = mset (filter (\<lambda>x. f x = p) ys)) \<Longrightarrow> mset xs = mset ys"
proof (rule multiset_eqI)
  fix x assume "\<And>p. mset (filter (\<lambda>x. f x = p) xs) = mset (filter (\<lambda>x. f x = p) ys)"
  from this [of "f x"] have "count (filter_mset (\<lambda>y. f y = f x) (mset xs)) x = count (filter_mset (\<lambda>y. f y = f x) (mset ys)) x"
    by simp
  then show "count (mset xs) x = count (mset ys) x" by simp
qed

lemma mset_concat_map_cong:
  "(\<And>x. x \<in> set xs \<Longrightarrow> mset (f x) = mset (g x)) \<Longrightarrow> mset (concat (map f xs)) = mset (concat (map g xs))"
  by (induction xs) auto

lemma mset_byScopeFairShare [simp, perm_simps]: "mset (byScopeFairShare inp ds) = mset ds"
proof (rule mset_by_classes [where f = Dem_Profile])
  show "mset (filter (\<lambda>d. Dem_Profile d = p) (byScopeFairShare inp ds)) = mset (filter (\<lambda>d. Dem_Profile d = p) ds)" for p
    unfolding byScopeFairShare_profile band_profile [of p ds] by (rule mset_concat_map_cong) simp
qed

lemma mset_agedOrder [simp, perm_simps]: "mset (agedOrder inp ds) = mset ds"
  by (simp add: agedOrder_def)

lemma mset_agedQueueOrder [simp, perm_simps]: "mset (agedQueueOrder inp ds) = mset ds"
  by (simp add: agedQueueOrder_def Let_def)

lemma mset_priorityOrder [simp, perm_simps]: "mset (priorityOrder inp ds) = mset ds"
  by (simp add: priorityOrder_def splitAged_def)

lemma set_priorityOrder [simp]: "set (priorityOrder inp ds) = set ds"
  by (metis mset_priorityOrder set_mset_mset)

lemma priorityOrder_Nil_iff [simp]: "priorityOrder inp ds = [] \<longleftrightarrow> ds = []"
  by (metis mset_priorityOrder mset_zero_iff)

lemma distinct_priorityOrder [simp]: "distinct (map Dem_Key (priorityOrder inp ds)) \<longleftrightarrow> distinct (map Dem_Key ds)"
  by (rule distinct_map_mset) simp

section \<open>Tiers and shares of the aged band\<close>

lemma sorted_concat_member: "sorted (concat xss) \<Longrightarrow> xs \<in> set xss \<Longrightarrow> sorted xs"
  by (induction xss) (auto simp: sorted_append)

lemma segment_sorted: "seg \<in> set (fairShareSegments ds) \<Longrightarrow> sorted seg"
proof -
  assume seg: "seg \<in> set (fairShareSegments ds)"
  let ?F = "filter (\<lambda>s. run_profile ds s = run_profile ds seg) (fairShareSegments ds)"
  have cat: "sorted (concat ?F)"
    by (simp only: fairShareSegments_profile(1)) (simp add: profile_indices_def sorted_wrt_filter)
  show ?thesis by (rule sorted_concat_member [OF cat]) (use seg in simp)
qed

lemma segment_of:
  assumes "j < length ds"
  obtains seg k where "seg \<in> set (fairShareSegments ds)" "k < length seg" "seg ! k = j"
proof -
  have "j \<in> set (concat (fairShareSegments ds))" using assms by (simp only: fairShareSegments_indices(1)) simp
  with that show ?thesis by (auto simp: in_set_conv_nth)
qed

lemma sorted_map_nth:
  "sorted (map f xs) \<Longrightarrow> sorted js \<Longrightarrow> \<forall>j \<in> set js. j < length xs \<Longrightarrow> sorted (map (\<lambda>j. f (xs ! j)) js)"
proof (induction js)
  case (Cons i js)
  have "f (xs ! i) \<le> f (xs ! j)" if "j \<in> set js" for j
    using Cons.prems that sorted_nth_mono [OF Cons.prems(1), of i j] by auto
  with Cons show ?case by auto
qed simp

text \<open>On a band in tier order the fair share leaves the tier at each place as it was.\<close>

lemma byScopeFairShare_same_tier:
  assumes tiers: "sorted (map (\<lambda>d. - tier_of inp d) ds)" and j: "j < length ds"
  shows "tier_of inp (byScopeFairShare inp ds ! j) = tier_of inp (ds ! j)"
proof -
  obtain seg k where seg: "seg \<in> set (fairShareSegments ds)" "k < length seg" "seg ! k = j"
    using segment_of [OF j] by metis
  let ?lt = "share_less inp (share_ranks inp ds)" and ?band = "map (\<lambda>j. ds ! j) seg"
  let ?neg = "\<lambda>d. - tier_of inp d"
  have bound: "\<forall>i \<in> set seg. i < length ds"
    using seg(1) fairShareSegments_indices(1) [of ds] by auto
  have "sorted (map ?neg (sort_slice ?lt ?band))"
    using share_order.sorted_key [of inp "share_ranks inp ds" ?band]
    by (auto simp: sorted_wrt_map elim: sorted_wrt_mono_rel [rotated])
  moreover have "sorted (map ?neg ?band)"
    using sorted_map_nth [OF tiers segment_sorted [OF seg(1)] bound] by (simp add: comp_def)
  ultimately have "map ?neg (sort_slice ?lt ?band) = map ?neg ?band"
    by (metis mset_map mset_sort_slice properties_for_sort)
  then have "map ?neg (map (\<lambda>j. byScopeFairShare inp ds ! j) seg) = map ?neg ?band"
    by (simp only: byScopeFairShare_segments(2) [OF seg(1)])
  from arg_cong [OF this, of "\<lambda>xs. xs ! k"] seg(2,3) show ?thesis by simp
qed

lemma byTier_sorted: "sorted (map (\<lambda>d. - tier_of inp d) (byTier inp ds))"
  unfolding byTier_sort by (rule tier_order.sorted_key)

text \<open>
  C24. The order of the aged band is a permutation of it in which tiers never rise; at each place it
  holds the profile and the tier the tier order put there, so the fair share only exchanges demands of
  one profile and one tier, and within each segment demands of one tier appear by ascending share.
\<close>

theorem agedOrder_fair:
  fixes inp ds
  defines "band \<equiv> byTier inp ds" and "R \<equiv> agedOrder inp ds"
  shows "mset R = mset ds \<and> map (tier_of inp) R = map (tier_of inp) band \<and> sorted (map (\<lambda>d. - tier_of inp d) R)
    \<and> map Dem_Profile R = map Dem_Profile band
    \<and> set (fairShareSegments band) \<subseteq>
        {seg. sorted (map (\<lambda>j. (- tier_of inp (R ! j), share_ranks inp band (Dem_Key (R ! j)))) seg)}"
proof -
  have R: "R = byScopeFairShare inp band" by (simp add: R_def band_def agedOrder_def)
  note len = byScopeFairShare_segments(1) [of inp band]
  have tier: "map (tier_of inp) R = map (tier_of inp) band"
    using byScopeFairShare_same_tier [OF byTier_sorted] len by (auto simp: R band_def intro!: nth_equalityI)
  have "map Dem_Profile R = map Dem_Profile band"
    using byScopeFairShare_same_profile len by (auto simp: R intro!: nth_equalityI)
  moreover have "map (\<lambda>d. - tier_of inp d) R = map (\<lambda>d. - tier_of inp d) band"
    using arg_cong [OF tier, of "map uminus"] by (simp add: comp_def)
  moreover have "sorted (map (\<lambda>j. (- tier_of inp (R ! j), share_ranks inp band (Dem_Key (R ! j)))) seg)"
    if "seg \<in> set (fairShareSegments band)" for seg
    using share_order.sorted_key [of inp "share_ranks inp band" "map (\<lambda>j. band ! j) seg"]
    by (simp only: R byScopeFairShare_segments(2) [OF that, symmetric] map_map comp_def)
  ultimately show ?thesis using tier byTier_sorted [of inp ds] by (auto simp: R_def band_def)
qed

section \<open>One order for every caller\<close>

lemma map_of_zip_upt: "distinct ks \<Longrightarrow> i < length ks \<Longrightarrow> map_of (rev (zip ks [0..<length ks])) (ks ! i) = Some i"
proof -
  assume d: "distinct ks" "i < length ks"
  then have "(ks ! i, i) \<in> set (zip ks [0..<length ks])" by (auto simp: in_set_zip)
  moreover have "distinct (map fst (rev (zip ks [0..<length ks])))" using d(1) by (simp flip: rev_map)
  ultimately show ?thesis by (simp add: map_of_eq_Some_iff)
qed

lemma positions_nth: "distinct (map Dem_Key ds) \<Longrightarrow> i < length ds \<Longrightarrow> positions ds (Dem_Key (ds ! i)) = Some i"
  using map_of_zip_upt [of "map Dem_Key ds" i] by (simp add: positions_def)

abbreviation aged_band :: "Input \<Rightarrow> Demand list" where
  "aged_band inp \<equiv> fst (splitAged (In_Now inp) (In_aged inp) (normalizedDemands inp))"

lemma aged_band_distinct: "distinct (map Dem_Key (agedOrder inp (aged_band inp)))"
proof -
  have "distinct (map Dem_Key (aged_band inp))"
    by (simp add: splitAged_def distinct_map_filterI normalized_props(3))
  then show ?thesis using distinct_map_mset [of "agedOrder inp (aged_band inp)" "aged_band inp" Dem_Key] by (simp only: mset_agedOrder)
qed

lemma distinct_keys_filter_mset:
  assumes "distinct (map Dem_Key xs)" and "distinct (map Dem_Key ds)" and "set ds \<subseteq> set xs"
  shows "mset (filter (\<lambda>d. d \<in> set ds) xs) = mset ds"
  using assms by (intro set_eq_iff_mset_eq_distinct [THEN iffD1]) (auto simp: distinct_map)

text \<open>An index that recovers the position sorts a subsequence the way the list has it.\<close>

lemma position_index:
  assumes "\<And>k. k < length xs \<Longrightarrow> P (xs ! k) \<Longrightarrow> pos (xs ! k) = k"
  shows "sorted (map pos (filter P xs))" and "inj_on pos (set (filter P xs))"
proof -
  have "filter P xs = map (\<lambda>k. xs ! k) (filter (\<lambda>k. P (xs ! k)) [0..<length xs])"
    by (simp add: filter_map [unfolded comp_def, symmetric] map_nth)
  then have "map pos (filter P xs) = map (\<lambda>k. pos (xs ! k)) (filter (\<lambda>k. P (xs ! k)) [0..<length xs])" by simp
  also have "\<dots> = map (\<lambda>k. k) (filter (\<lambda>k. P (xs ! k)) [0..<length xs])"
    by (rule map_cong) (auto simp: assms)
  finally show "sorted (map pos (filter P xs))" by (simp add: sorted_wrt_filter)
  show "inj_on pos (set (filter P xs))"
  proof (rule inj_onI)
    fix x y assume x: "x \<in> set (filter P xs)" and y: "y \<in> set (filter P xs)" and eq: "pos x = pos y"
    obtain i where i: "i < length xs" "x = xs ! i" "P x" using x by (auto simp: in_set_conv_nth)
    obtain j where j: "j < length xs" "y = xs ! j" "P y" using y by (auto simp: in_set_conv_nth)
    from assms [of i] assms [of j] i j eq show "x = y" by metis
  qed
qed

definition aged_rank :: "Input \<Rightarrow> Demand list \<Rightarrow> Demand \<Rightarrow> nat" where
  "aged_rank inp ds d =
     (case map_of (rev (map (\<lambda>(i, d). (Dem_Key d, case positions (agedOrder inp (aged_band inp)) (Dem_Key d) of
             Some p \<Rightarrow> p | None \<Rightarrow> length (aged_band inp) + i)) (zip [0..<length ds] ds))) (Dem_Key d) of
        Some n \<Rightarrow> n | None \<Rightarrow> 0)"

lemma aged_rank_position:
  assumes "distinct (map Dem_Key ds)" and k: "k < length (agedOrder inp (aged_band inp))"
    and "agedOrder inp (aged_band inp) ! k \<in> set ds"
  shows "aged_rank inp ds (agedOrder inp (aged_band inp) ! k) = k"
proof -
  let ?A = "agedOrder inp (aged_band inp)"
  let ?f = "\<lambda>(i, d). (Dem_Key d, case positions ?A (Dem_Key d) of Some p \<Rightarrow> p | None \<Rightarrow> length (aged_band inp) + i)"
  have rank: "positions ?A (Dem_Key (?A ! k)) = Some k" by (rule positions_nth [OF aged_band_distinct k])
  obtain i where "i < length ds" "ds ! i = ?A ! k" using assms(3) by (auto simp: in_set_conv_nth)
  then have "(i, ?A ! k) \<in> set (zip [0..<length ds] ds)" by (auto simp: set_zip intro!: exI [of _ i])
  then have "?f (i, ?A ! k) \<in> set (map ?f (zip [0..<length ds] ds))" unfolding set_map by (rule imageI)
  moreover have "map fst (map ?f (zip [0..<length ds] ds)) = map Dem_Key ds"
    by (rule nth_equalityI) auto
  ultimately have "map_of (rev (map ?f (zip [0..<length ds] ds))) (Dem_Key (?A ! k)) = Some k"
    using assms(1) rank by (simp add: map_of_eq_Some_iff flip: rev_map)
  then show ?thesis by (simp add: aged_rank_def)
qed

text \<open>
  The aged part of the queue has one order. Whatever aged candidates a pass hands in, and in
  whatever order, they come back as the subsequence of the whole aged band that holds them: a filter
  in front of a pass never changes who precedes whom.
\<close>

theorem agedQueueOrder_restricts:
  assumes "distinct (map Dem_Key ds)" and "set ds \<subseteq> set (aged_band inp)"
  shows "agedQueueOrder inp ds = filter (\<lambda>d. d \<in> set ds) (agedOrder inp (aged_band inp))"
proof -
  let ?A = "agedOrder inp (aged_band inp)"
  let ?F = "filter (\<lambda>d. d \<in> set ds) ?A"
  have sub: "set ds \<subseteq> set ?A" using assms(2) mset_agedOrder [of inp "aged_band inp"] by (metis set_mset_mset)
  have perm: "mset ?F = mset ds" by (rule distinct_keys_filter_mset [OF aged_band_distinct assms(1) sub])
  have set: "set ?F = set ds" using sub by auto
  note index = position_index [of ?A "\<lambda>d. d \<in> set ds" "aged_rank inp ds", OF aged_rank_position [OF assms(1)]]
  have "sort_slice (\<lambda>a b. aged_rank inp ds a < aged_rank inp ds b) ds = ?F"
    using index perm set by (intro key_lt.sort_slice_unique_key) simp_all
  moreover have "agedQueueOrder inp ds = sort_slice (\<lambda>a b. aged_rank inp ds a < aged_rank inp ds b) ds"
  proof (cases "length ds < 2")
    case True
    then consider "ds = []" | d where "ds = [d]" by (cases ds rule: list.exhaust; cases "tl ds") auto
    then show ?thesis by cases (simp_all add: agedQueueOrder_def)
  qed (simp add: agedQueueOrder_def Let_def aged_rank_def)
  ultimately show ?thesis by simp
qed

theorem agedQueueOrder_restricts_witness:
  "let a = fx_demand ''a/x'' 1 500 ''small'' PlatformLinux; b = fx_demand ''b/y'' 2 600 ''small'' PlatformLinux;
       inp = fx_input fx_config [b, a] [] (fx_res 7 32 5)
   in agedQueueOrder inp [b, a] = [a, b] \<and> agedOrder inp (aged_band inp) = [a, b]"
proof -
  let ?a = "fx_demand ''a/x'' 1 500 ''small'' PlatformLinux" and ?b = "fx_demand ''b/y'' 2 600 ''small'' PlatformLinux"
  let ?inp = "fx_input fx_config [?b, ?a] [] (fx_res 7 32 5)"
  have d: "distinct (map Dem_Key [?b, ?a])" by code_simp
  have s: "set [?b, ?a] \<subseteq> set (aged_band ?inp)" by code_simp
  have ord: "agedOrder ?inp (aged_band ?inp) = [?a, ?b]" by code_simp
  from agedQueueOrder_restricts [OF d s] ord show ?thesis by (simp add: Let_def)
qed

end
