(* ===== verification/Exact_Select.thy ===== *)
theory Exact_Select
  imports Fair_Share
begin

text \<open>
  The exact allocator \<open>exactSelect\<close> (\<open>internal/scheduler/scheduler.go\<close>): an exhaustive search over
  the feasible selections of at most \<open>admissionsPerTick\<close> candidates, ranked band by band.
\<close>

section \<open>Bands\<close>

definition schedulingBand :: "time \<Rightarrow> Demand \<Rightarrow> Config \<Rightarrow> nat" where
  "schedulingBand now d cfg =
     (if demandAged now (Cfg_FairnessAge cfg) d then 0
      else if controlPlane_repo cfg (Dem_Repo d) then 1 else 2)"

definition tiers_present :: "time \<Rightarrow> Demand list \<Rightarrow> Config \<Rightarrow> int list" where
  "tiers_present now candidates cfg =
     sort_slice (\<lambda>a b. a > b) (rev (remdups (rev (map (\<lambda>d. effectiveTier now d cfg) candidates))))"

definition index_in :: "'a list \<Rightarrow> 'a \<Rightarrow> nat" where
  "index_in xs x = length (takeWhile (\<lambda>y. y \<noteq> x) xs)"

definition admissionBands :: "time \<Rightarrow> Demand list \<Rightarrow> Config \<Rightarrow> nat list" where
  "admissionBands now candidates cfg =
     (let present = tiers_present now candidates cfg in
      map (\<lambda>d. schedulingBand now d cfg * length present + index_in present (effectiveTier now d cfg)) candidates)"

definition bandMembers :: "nat list \<Rightarrow> nat list \<Rightarrow> nat \<Rightarrow> nat list" where
  "bandMembers chosen bands band = filter (\<lambda>index. bands ! index = band) chosen"

text \<open>The inner loop of \<open>betterAdmission\<close>: the first position where two members differ decides.\<close>

fun first_difference :: "nat list \<Rightarrow> nat list \<Rightarrow> bool option" where
  "first_difference (c # cs) (i # is) = (if c \<noteq> i then Some (c < i) else first_difference cs is)"
| "first_difference _ _ = None"

fun better_bands :: "nat list \<Rightarrow> nat list \<Rightarrow> nat list \<Rightarrow> nat list \<Rightarrow> bool" where
  "better_bands candidate incumbent bands [] = False"
| "better_bands candidate incumbent bands (band # rest) =
     (let candidateBand = bandMembers candidate bands band; incumbentBand = bandMembers incumbent bands band in
      if length candidateBand \<noteq> length incumbentBand then length candidateBand > length incumbentBand
      else (case first_difference candidateBand incumbentBand of
              Some verdict \<Rightarrow> verdict
            | None \<Rightarrow> better_bands candidate incumbent bands rest))"

definition betterAdmission :: "nat list \<Rightarrow> nat list \<Rightarrow> nat list \<Rightarrow> nat \<Rightarrow> bool" where
  "betterAdmission candidate incumbent bands numBands = better_bands candidate incumbent bands [0..<numBands]"

section \<open>The search\<close>

abbreviation vector_of :: "Config \<Rightarrow> Demand \<Rightarrow> Resources" where
  "vector_of cfg d \<equiv> Prof_Resources (profile_at cfg (Dem_Profile d))"

text \<open>
  \<open>search\<close> and its loop over the candidates from \<open>index\<close> on, each paired with its index. The Go
  closure assigns the captured variable \<open>best\<close>; here it is threaded through.
\<close>

fun search :: "Config \<Rightarrow> (nat list \<Rightarrow> nat list \<Rightarrow> bool) \<Rightarrow> int \<Rightarrow> (nat \<times> Demand) list \<Rightarrow> Resources \<Rightarrow> counts
      \<Rightarrow> nat list \<Rightarrow> nat list \<Rightarrow> nat list"
  and search_loop :: "Config \<Rightarrow> (nat list \<Rightarrow> nat list \<Rightarrow> bool) \<Rightarrow> int \<Rightarrow> (nat \<times> Demand) list \<Rightarrow> Resources \<Rightarrow> counts
      \<Rightarrow> nat list \<Rightarrow> nat list \<Rightarrow> nat list" where
  "search cfg better limit cands remaining counts chosen best =
     (let best' = (if better chosen best then chosen else best) in
      if cands = [] \<or> int (length chosen) \<ge> limit then best'
      else search_loop cfg better limit cands remaining counts chosen best')"
| "search_loop cfg better limit [] remaining counts chosen best = best"
| "search_loop cfg better limit ((i, d) # rest) remaining counts chosen best =
     (if counts (Dem_Repo d) \<ge> repoCapLimit (Cfg_RepoCaps cfg) (Dem_Repo d) \<or> \<not> CanFit remaining (vector_of cfg d)
      then search_loop cfg better limit rest remaining counts chosen best
      else search_loop cfg better limit rest remaining counts chosen
        (search cfg better limit rest (fst (Res_Sub remaining (vector_of cfg d))) (bump counts (Dem_Repo d))
           (chosen @ [i]) best))"

definition num_bands :: "nat list \<Rightarrow> nat" where
  "num_bands bands = foldl (\<lambda>n band. if band + 1 > n then band + 1 else n) 0 bands"

definition exactSelect_indices :: "time \<Rightarrow> Demand list \<Rightarrow> Resources \<Rightarrow> counts \<Rightarrow> Config \<Rightarrow> nat list" where
  "exactSelect_indices now candidates free baseCounts cfg =
     (let bands = admissionBands now candidates cfg;
          numBands = num_bands bands
      in search cfg (\<lambda>c i. betterAdmission c i bands numBands) (min (Slots free) admissionsPerTick)
           (zip [0..<length candidates] candidates) free baseCounts [] [])"

definition exactSelect :: "time \<Rightarrow> Demand list \<Rightarrow> Resources \<Rightarrow> counts \<Rightarrow> Config \<Rightarrow> Demand list" where
  "exactSelect now candidates free baseCounts cfg =
     map (\<lambda>index. candidates ! index) (exactSelect_indices now candidates free baseCounts cfg)"

lemmas [fleet_eval] =
  schedulingBand_def tiers_present_def index_in_def admissionBands_def bandMembers_def betterAdmission_def
  num_bands_def exactSelect_indices_def exactSelect_def

section \<open>What the search explores\<close>

text \<open>
  A selection packs when each demand, in turn, finds its repository below its cap and its vector
  within what the earlier ones left, and there are at most \<open>n\<close> of them.
\<close>

fun packs :: "Config \<Rightarrow> int \<Rightarrow> Resources \<Rightarrow> counts \<Rightarrow> Demand list \<Rightarrow> bool" where
  "packs cfg n free counts [] = True"
| "packs cfg n free counts (d # ds) \<longleftrightarrow>
     0 < n \<and> counts (Dem_Repo d) < repoCapLimit (Cfg_RepoCaps cfg) (Dem_Repo d) \<and> CanFit free (vector_of cfg d)
     \<and> packs cfg (n - 1) (fst (Res_Sub free (vector_of cfg d))) (bump counts (Dem_Repo d)) ds"

definition explored :: "Config \<Rightarrow> int \<Rightarrow> (nat \<times> Demand) list \<Rightarrow> Resources \<Rightarrow> counts \<Rightarrow> nat list \<Rightarrow> nat list set" where
  "explored cfg limit cands free counts chosen =
     (\<lambda>ext. chosen @ map fst ext) ` {ext. subseq ext cands \<and> packs cfg (limit - int (length chosen)) free counts (map snd ext)}"

lemma packs_limit: "packs cfg n free counts ds \<Longrightarrow> int (length ds) \<le> max 0 n"
  by (induction ds arbitrary: n free counts) fastforce+

lemma explored_self: "chosen \<in> explored cfg limit cands free counts chosen"
  unfolding explored_def by (rule image_eqI [of _ _ "[]"]) simp_all

lemma explored_Nil [simp]: "explored cfg limit [] free counts chosen = {chosen}"
  by (auto simp: explored_def)

lemma explored_full: "limit \<le> int (length chosen) \<Longrightarrow> explored cfg limit cands free counts chosen = {chosen}"
proof -
  assume "limit \<le> int (length chosen)"
  then have "packs cfg (limit - int (length chosen)) free counts ds \<longleftrightarrow> ds = []" for ds
    by (cases ds) auto
  then show ?thesis by (auto simp: explored_def)
qed

lemma explored_Cons:
  assumes "int (length chosen) < limit"
  shows "explored cfg limit ((i, d) # rest) free counts chosen = explored cfg limit rest free counts chosen \<union>
    (if counts (Dem_Repo d) \<ge> repoCapLimit (Cfg_RepoCaps cfg) (Dem_Repo d) \<or> \<not> CanFit free (vector_of cfg d) then {}
     else explored cfg limit rest (fst (Res_Sub free (vector_of cfg d))) (bump counts (Dem_Repo d)) (chosen @ [i]))"
    (is "?L = ?R \<union> ?N")
proof -
  let ?n = "limit - int (length chosen)"
  have sub: "subseq ext ((i, d) # rest) \<longleftrightarrow> subseq ext rest \<or> (\<exists>ext'. ext = (i, d) # ext' \<and> subseq ext' rest)" for ext
    by (cases ext) (auto dest: subseq_Cons' simp: subseq_Cons2_iff)
  have "?L = (\<lambda>ext. chosen @ map fst ext) ` ({ext. subseq ext rest \<and> packs cfg ?n free counts (map snd ext)}
      \<union> (\<lambda>ext. (i, d) # ext) ` {ext. subseq ext rest \<and> packs cfg ?n free counts (d # map snd ext)})"
    unfolding explored_def sub by (rule arg_cong [where f = "image _"]) auto
  also have "\<dots> = ?R \<union> (\<lambda>ext. (chosen @ [i]) @ map fst ext) ` {ext. subseq ext rest \<and> packs cfg ?n free counts (d # map snd ext)}"
    by (simp add: image_Un image_image explored_def)
  also have "(\<lambda>ext. (chosen @ [i]) @ map fst ext) ` {ext. subseq ext rest \<and> packs cfg ?n free counts (d # map snd ext)} = ?N"
    using assms by (auto simp: explored_def diff_diff_eq add.commute)
  finally show ?thesis .
qed

text \<open>The search under any strict weak order: its result is explored, and nothing explored precedes it.\<close>

definition best_of :: "(nat list \<Rightarrow> nat list \<Rightarrow> bool) \<Rightarrow> nat list set \<Rightarrow> nat list \<Rightarrow> bool" where
  "best_of better S x \<longleftrightarrow> x \<in> S \<and> (\<forall>y \<in> S. \<not> better y x)"

lemma best_of_merge:
  assumes ord: "less_order better" and b: "best_of better (insert best N) b" and r: "best_of better (insert b R) r"
  shows "best_of better (insert best (R \<union> N)) r"
proof -
  have "\<not> better b r" and in_r: "r \<in> insert b R" using r by (auto simp: best_of_def)
  then have "\<not> better y r" if "y \<in> insert best N" for y
    using b that less_order.incomp_trans [OF ord] unfolding best_of_def by blast
  moreover have "\<not> better y r" if "y \<in> R" for y using r that by (auto simp: best_of_def)
  ultimately show ?thesis using in_r b by (auto simp: best_of_def)
qed

lemma best_of_step:
  assumes "less_order better"
  shows "best_of better {best, chosen} (if better chosen best then chosen else best)"
  using assms by (auto simp: best_of_def dest: less_order.less_asym less_order.less_irrefl)

lemma search_best:
  "less_order better \<Longrightarrow> best_of better (insert best (explored cfg limit cands free counts chosen))
     (search cfg better limit cands free counts chosen best)"
  "less_order better \<Longrightarrow> int (length chosen) < limit \<Longrightarrow> \<not> better chosen best \<Longrightarrow>
     best_of better (insert best (explored cfg limit cands free counts chosen))
       (search_loop cfg better limit cands free counts chosen best)"
proof (induction cfg better limit cands free counts chosen best and cfg better limit cands free counts chosen best
    rule: search_search_loop.induct)
  case (1 cfg better limit cands remaining counts chosen best)
  let ?best = "if better chosen best then chosen else best"
  let ?S = "explored cfg limit cands remaining counts chosen"
  note step = best_of_step [OF 1(2), of best chosen]
  have self: "insert best ({chosen} \<union> ?S) = insert best ?S" using explored_self by auto
  show ?case
  proof (cases "cands = [] \<or> limit \<le> int (length chosen)")
    case True
    then have "?S = {chosen}" using explored_full by auto
    with step True show ?thesis by (simp add: insert_commute)
  next
    case False
    have "\<not> better chosen ?best" using step by (auto simp: best_of_def)
    from 1(1) [OF refl False 1(2) _ this] False
    have "best_of better (insert ?best ?S) (search_loop cfg better limit cands remaining counts chosen ?best)" by simp
    from best_of_merge [OF 1(2) _ this, of best "{chosen}"] step False self show ?thesis
      by (simp add: insert_commute Un_commute)
  qed
next
  case (2 cfg better limit remaining counts chosen best)
  then show ?case using less_order.less_irrefl by (fastforce simp: best_of_def)
next
  case (3 cfg better limit i d rest remaining counts chosen best)
  let ?skip = "counts (Dem_Repo d) \<ge> repoCapLimit (Cfg_RepoCaps cfg) (Dem_Repo d) \<or> \<not> CanFit remaining (vector_of cfg d)"
  show ?case
  proof (cases ?skip)
    case True
    with 3(1) [OF True 3(4-6)] show ?thesis by (simp add: explored_Cons [OF 3(5)])
  next
    case False
    let ?b = "search cfg better limit rest (fst (Res_Sub remaining (vector_of cfg d))) (bump counts (Dem_Repo d)) (chosen @ [i]) best"
    note b = 3(2) [OF False 3(4)]
    then have "\<not> better best ?b" by (simp add: best_of_def)
    with 3(6) have "\<not> better chosen ?b" using less_order.incomp_trans [OF 3(4)] by blast
    from best_of_merge [OF 3(4) b 3(3) [OF False 3(4,5) this]] False show ?thesis
      by (simp add: explored_Cons [OF 3(5)])
  qed
qed

section \<open>The preference as an order\<close>

definition band_key :: "nat list \<Rightarrow> nat list \<Rightarrow> nat \<Rightarrow> int \<times> nat list" where
  "band_key bands chosen band = (- int (length (bandMembers chosen bands band)), bandMembers chosen bands band)"

lemma first_difference_less:
  "length xs = length ys \<Longrightarrow> first_difference xs ys = (if xs = ys then None else Some (xs < ys))"
  by (induction xs ys rule: list_induct2) auto

lemma better_bands_key: "better_bands c i bands bs \<longleftrightarrow> map (band_key bands c) bs < map (band_key bands i) bs"
proof (induction bs)
  case (Cons b bs)
  let ?c = "bandMembers c bands b" and ?i = "bandMembers i bands b"
  have "band_key bands c b < band_key bands i b \<longleftrightarrow> length ?c > length ?i \<or> length ?c = length ?i \<and> ?c < ?i"
    by (auto simp: band_key_def less_prod_def')
  moreover have "band_key bands c b = band_key bands i b \<longleftrightarrow> ?c = ?i" by (auto simp: band_key_def)
  ultimately show ?case using Cons by (auto simp: Let_def first_difference_less)
qed simp

interpretation admission_order: keyed_order "\<lambda>c i. betterAdmission c i bands numBands"
  "\<lambda>c. map (band_key bands c) [0..<numBands]" for bands numBands
  by unfold_locales (simp add: betterAdmission_def better_bands_key)

text \<open>On increasing selections of known bands the key determines the selection.\<close>

lemma band_key_inj:
  assumes "map (band_key bands c) [0..<n] = map (band_key bands i) [0..<n]"
    and "sorted_wrt (<) c" "sorted_wrt (<) i" and "\<forall>j \<in> set c \<union> set i. bands ! j < n"
  shows "c = i"
proof -
  have "set c = (\<Union>b \<in> {..<n}. set (bandMembers c bands b))" "set i = (\<Union>b \<in> {..<n}. set (bandMembers i bands b))"
    using assms(4) by (auto simp: bandMembers_def)
  moreover have "bandMembers c bands b = bandMembers i bands b" if "b < n" for b
    using assms(1) that by (auto simp: band_key_def)
  ultimately have "set c = set i" by simp
  with assms(2,3) show ?thesis by (metis strict_sorted_equal)
qed

section \<open>Optimality\<close>

definition total_vector :: "Config \<Rightarrow> Demand list \<Rightarrow> Resources" where
  "total_vector cfg ds = foldr (\<lambda>d. Res_Add (vector_of cfg d)) ds zero_Resources"

definition repo_demands :: "string \<Rightarrow> Demand list \<Rightarrow> int" where
  "repo_demands repo ds = int (length (filter (\<lambda>d. Dem_Repo d = repo) ds))"

text \<open>
  A selection is admissible when it is empty, or has at most \<open>n\<close> demands whose vectors together fit
  the envelope and that leave every repository within its cap.
\<close>

definition selection_ok :: "Config \<Rightarrow> int \<Rightarrow> Resources \<Rightarrow> counts \<Rightarrow> Demand list \<Rightarrow> bool" where
  "selection_ok cfg n free counts ds \<longleftrightarrow> ds = [] \<or>
     int (length ds) \<le> n \<and> CanFit free (total_vector cfg ds)
     \<and> (\<forall>d \<in> set ds. counts (Dem_Repo d) + repo_demands (Dem_Repo d) ds \<le> repoCapLimit (Cfg_RepoCaps cfg) (Dem_Repo d))"

lemma total_vector_simps [simp]:
  "total_vector cfg [] = zero_Resources" "total_vector cfg (d # ds) = Res_Add (vector_of cfg d) (total_vector cfg ds)"
  by (simp_all add: total_vector_def)

lemma total_vector_nonneg: "\<forall>d \<in> set ds. Res_nonneg (vector_of cfg d) \<Longrightarrow> Res_nonneg (total_vector cfg ds)"
  by (induction ds) (auto simp: Res_nonneg_def)

lemma repo_demands_Cons: "repo_demands r (d # ds) = (if Dem_Repo d = r then 1 else 0) + repo_demands r ds"
  by (simp add: repo_demands_def)

lemma repo_demands_nonneg [simp]: "0 \<le> repo_demands r ds"
  by (simp add: repo_demands_def)

lemma repo_demands_absent: "\<forall>d \<in> set ds. Dem_Repo d \<noteq> r \<Longrightarrow> repo_demands r ds = 0"
  by (simp add: repo_demands_def filter_empty_conv)

lemma caps_Cons:
  "(\<forall>e \<in> set (d # ds). counts (Dem_Repo e) + repo_demands (Dem_Repo e) (d # ds) \<le> cap (Dem_Repo e)) \<longleftrightarrow>
     counts (Dem_Repo d) < cap (Dem_Repo d)
     \<and> (\<forall>e \<in> set ds. bump counts (Dem_Repo d) (Dem_Repo e) + repo_demands (Dem_Repo e) ds \<le> cap (Dem_Repo e))"
proof (cases "\<exists>e \<in> set ds. Dem_Repo e = Dem_Repo d")
  case True
  then obtain e where e: "e \<in> set ds" "Dem_Repo e = Dem_Repo d" by blast
  let ?d = "Dem_Repo d"
  have nn: "0 \<le> repo_demands ?d ds" by simp
  show ?thesis
  proof
    assume L: "\<forall>e \<in> set (d # ds). counts (Dem_Repo e) + repo_demands (Dem_Repo e) (d # ds) \<le> cap (Dem_Repo e)"
    then have "counts ?d + (1 + repo_demands ?d ds) \<le> cap ?d" by (simp add: repo_demands_Cons)
    with nn have "counts ?d < cap ?d" by linarith
    with L show "counts ?d < cap ?d
        \<and> (\<forall>e \<in> set ds. bump counts ?d (Dem_Repo e) + repo_demands (Dem_Repo e) ds \<le> cap (Dem_Repo e))"
      by (auto simp: repo_demands_Cons bump_def)
  next
    assume R: "counts ?d < cap ?d
        \<and> (\<forall>e \<in> set ds. bump counts ?d (Dem_Repo e) + repo_demands (Dem_Repo e) ds \<le> cap (Dem_Repo e))"
    with e have "counts ?d + 1 + repo_demands ?d ds \<le> cap ?d" by (metis bump_def fun_upd_same)
    moreover have "counts (Dem_Repo x) + repo_demands (Dem_Repo x) (d # ds) \<le> cap (Dem_Repo x)" if "x \<in> set ds" for x
      using R that by (cases "Dem_Repo x = ?d") (auto simp: repo_demands_Cons bump_def)
    ultimately show "\<forall>e \<in> set (d # ds). counts (Dem_Repo e) + repo_demands (Dem_Repo e) (d # ds) \<le> cap (Dem_Repo e)"
      by (simp add: repo_demands_Cons)
  qed
next
  case False
  then have "repo_demands (Dem_Repo d) ds = 0" by (intro repo_demands_absent) simp
  with False show ?thesis by (auto simp: repo_demands_Cons bump_def)
qed

lemma packs_selection_ok:
  "\<forall>d \<in> set ds. Res_nonneg (vector_of cfg d) \<Longrightarrow> packs cfg n free counts ds \<longleftrightarrow> selection_ok cfg n free counts ds"
proof (induction ds arbitrary: n free counts)
  case (Cons d ds)
  let ?v = "vector_of cfg d" and ?lim = "repoCapLimit (Cfg_RepoCaps cfg)"
  have v: "Res_nonneg ?v" and t: "Res_nonneg (total_vector cfg ds)" using Cons.prems by (auto intro: total_vector_nonneg)
  have fit: "CanFit free (Res_Add ?v (total_vector cfg ds)) \<longleftrightarrow>
      CanFit free ?v \<and> CanFit (fst (Res_Sub free ?v)) (total_vector cfg ds)"
    using v t by (auto simp: CanFit_def Res_Sub_def Res_nonneg_def)
  have base: "CanFit free ?v \<Longrightarrow> Res_nonneg (fst (Res_Sub free ?v))"
    by (auto simp: CanFit_def Res_Sub_def Res_nonneg_def)
  have "packs cfg n free counts (d # ds) \<longleftrightarrow> 0 < n \<and> counts (Dem_Repo d) < ?lim (Dem_Repo d) \<and> CanFit free ?v
      \<and> selection_ok cfg (n - 1) (fst (Res_Sub free ?v)) (bump counts (Dem_Repo d)) ds"
    using Cons by simp
  also have "\<dots> \<longleftrightarrow> selection_ok cfg n free counts (d # ds)"
    unfolding selection_ok_def caps_Cons total_vector_simps fit by (cases "ds = []") (auto simp: base)
  finally show ?case .
qed (simp add: selection_ok_def)

lemma subseq_upt: "subseq xs [0..<n] \<longleftrightarrow> sorted_wrt (<) xs \<and> set xs \<subseteq> {..<n}"
proof
  assume "subseq xs [0..<n]"
  then obtain N where "xs = nths [0..<n] N" by (auto simp: subseq_conv_nths)
  then show "sorted_wrt (<) xs \<and> set xs \<subseteq> {..<n}"
    by (auto simp: strict_sorted_iff dest: in_set_nthsD intro!: sorted_nths)
next
  assume r: "sorted_wrt (<) xs \<and> set xs \<subseteq> {..<n}"
  have "xs = filter (\<lambda>i. i \<in> set xs) [0..<n]"
    using r by (intro strict_sorted_equal) (auto simp: sorted_wrt_filter)
  then show "subseq xs [0..<n]" by (metis subseq_filter_left)
qed

lemma subseq_indexed:
  "subseq ext (zip [0..<length cs] cs) \<longleftrightarrow>
     (\<exists>js. ext = map (\<lambda>i. (i, cs ! i)) js \<and> sorted_wrt (<) js \<and> set js \<subseteq> {..<length cs})"
proof -
  have zip: "zip [0..<length cs] cs = map (\<lambda>i. (i, cs ! i)) [0..<length cs]"
    by (rule nth_equalityI) auto
  show ?thesis
  proof
    assume "subseq ext (zip [0..<length cs] cs)"
    then obtain N where "ext = map (\<lambda>i. (i, cs ! i)) (nths [0..<length cs] N)"
      by (auto simp: subseq_conv_nths zip nths_map)
    moreover have "subseq (nths [0..<length cs] N) [0..<length cs]" by (auto simp: subseq_conv_nths)
    ultimately show "\<exists>js. ext = map (\<lambda>i. (i, cs ! i)) js \<and> sorted_wrt (<) js \<and> set js \<subseteq> {..<length cs}"
      unfolding subseq_upt by blast
  next
    assume "\<exists>js. ext = map (\<lambda>i. (i, cs ! i)) js \<and> sorted_wrt (<) js \<and> set js \<subseteq> {..<length cs}"
    then show "subseq ext (zip [0..<length cs] cs)"
      unfolding zip by (auto simp flip: subseq_upt intro: subseq_map)
  qed
qed

lemma num_bands_bound: "band \<in> set bands \<Longrightarrow> band < num_bands bands"
proof -
  have "n0 \<le> foldl (\<lambda>n band. if band + 1 > n then band + 1 else n) n0 bands
    \<and> (\<forall>b \<in> set bands. b < foldl (\<lambda>n band. if band + 1 > n then band + 1 else n) n0 bands)" for n0
  proof (induction bands arbitrary: n0)
    case (Cons b bands)
    from Cons [of "if b + 1 > n0 then b + 1 else n0"] show ?case by (auto split: if_splits)
  qed simp
  then show "band \<in> set bands \<Longrightarrow> band < num_bands bands" by (simp add: num_bands_def)
qed

lemma length_admissionBands [simp]: "length (admissionBands now cs cfg) = length cs"
  by (simp add: admissionBands_def Let_def)

lemma explored_root:
  assumes "\<forall>d \<in> set cs. Res_nonneg (vector_of cfg d)"
  shows "explored cfg n (zip [0..<length cs] cs) free counts [] =
    {js. sorted_wrt (<) js \<and> set js \<subseteq> {..<length cs} \<and> selection_ok cfg n free counts (map (\<lambda>i. cs ! i) js)}"
proof -
  have "packs cfg n free counts (map (\<lambda>i. cs ! i) js) \<longleftrightarrow> selection_ok cfg n free counts (map (\<lambda>i. cs ! i) js)"
    if "set js \<subseteq> {..<length cs}" for js
    using assms that by (intro packs_selection_ok) (auto simp: subset_iff)
  moreover have "map fst (map (\<lambda>i. (i, cs ! i)) js) = js" "map snd (map (\<lambda>i. (i, cs ! i)) js) = map (\<lambda>i. cs ! i) js" for js
    by (simp_all add: comp_def)
  ultimately have "{ext. subseq ext (zip [0..<length cs] cs) \<and> packs cfg n free counts (map snd ext)} =
      (\<lambda>js. map (\<lambda>i. (i, cs ! i)) js) ` {js. sorted_wrt (<) js \<and> set js \<subseteq> {..<length cs}
        \<and> selection_ok cfg n free counts (map (\<lambda>i. cs ! i) js)}"
    unfolding subseq_indexed by (auto simp: comp_def)
  then show ?thesis by (simp add: explored_def image_image comp_def)
qed

text \<open>
  C13. The exact allocator is exact. Its selection is an increasing sequence of candidates that is
  admissible: at most \<open>min (Slots free) admissionsPerTick\<close> of them, vectors that together fit the
  envelope, every repository within its cap. And it beats every other admissible selection: in the first
  band where the two differ it admits more demands, or as many with an earlier first difference.
\<close>

theorem exactSelect_optimal:
  fixes now cs free counts cfg
  defines "n \<equiv> min (Slots free) admissionsPerTick" and "bands \<equiv> admissionBands now cs cfg"
    and "sel \<equiv> exactSelect_indices now cs free counts cfg"
  assumes "\<forall>d \<in> set cs. Res_nonneg (vector_of cfg d)"
  shows "sorted_wrt (<) sel \<and> set sel \<subseteq> {..<length cs} \<and> selection_ok cfg n free counts (exactSelect now cs free counts cfg)
    \<and> exactSelect now cs free counts cfg = map (\<lambda>i. cs ! i) sel
    \<and> (\<forall>other. sorted_wrt (<) other \<longrightarrow> set other \<subseteq> {..<length cs} \<longrightarrow> selection_ok cfg n free counts (map (\<lambda>i. cs ! i) other)
         \<longrightarrow> other \<noteq> sel \<longrightarrow> betterAdmission sel other bands (num_bands bands))"
proof -
  let ?S = "{js. sorted_wrt (<) js \<and> set js \<subseteq> {..<length cs} \<and> selection_ok cfg n free counts (map (\<lambda>i. cs ! i) js)}"
  let ?better = "\<lambda>c i. betterAdmission c i bands (num_bands bands)"
  have "best_of ?better (insert [] ?S) sel"
    using search_best(1) [OF admission_order.less_order_axioms, of bands "num_bands bands" "[]" cfg n "zip [0..<length cs] cs" free counts "[]"]
    unfolding explored_root [OF assms(4)] by (simp add: sel_def exactSelect_indices_def Let_def n_def bands_def)
  moreover have "[] \<in> ?S" by (simp add: selection_ok_def)
  ultimately have best: "sel \<in> ?S" "\<forall>y \<in> ?S. \<not> ?better y sel" by (auto simp: best_of_def insert_absorb)
  have "?better sel other" if "other \<in> ?S" "other \<noteq> sel" for other
  proof -
    have "\<forall>j \<in> set sel \<union> set other. bands ! j < num_bands bands"
      using best(1) that(1) by (auto simp: subset_iff bands_def intro!: num_bands_bound)
    then have "map (band_key bands sel) [0..<num_bands bands] \<noteq> map (band_key bands other) [0..<num_bands bands]"
      using band_key_inj best(1) that by blast
    moreover have "\<not> ?better other sel" using best(2) that(1) by blast
    ultimately show ?thesis unfolding admission_order.less_key by (simp only: not_less le_less) blast
  qed
  with best(1) show ?thesis by (auto simp: exactSelect_def sel_def)
qed

theorem exactSelect_optimal_witness:
  "let cs = [fx_demand ''a/x'' 1 990 ''small'' PlatformLinux, fx_demand ''a/x'' 2 991 ''small'' PlatformLinux] in
   betterAdmission (exactSelect_indices 1000 cs (fx_res 10 64 8) (\<lambda>_. 0) fx_config) [1]
     (admissionBands 1000 cs fx_config) (num_bands (admissionBands 1000 cs fx_config))"
proof -
  let ?cs = "[fx_demand ''a/x'' 1 990 ''small'' PlatformLinux, fx_demand ''a/x'' 2 991 ''small'' PlatformLinux]"
  have nn: "\<forall>d \<in> set ?cs. Res_nonneg (vector_of fx_config d)" by code_simp
  have sel: "exactSelect_indices 1000 ?cs (fx_res 10 64 8) (\<lambda>_. 0) fx_config = [0, 1]" by code_simp
  have ok: "selection_ok fx_config (min (Slots (fx_res 10 64 8)) admissionsPerTick) (fx_res 10 64 8) (\<lambda>_. 0) (map (\<lambda>i. ?cs ! i) [1])"
    by code_simp
  from exactSelect_optimal [OF nn, of 1000 "fx_res 10 64 8" "\<lambda>_. 0"] ok sel show ?thesis by (simp add: Let_def)
qed

end
