(* ===== verification/Linux_Planner.thy ===== *)
theory Linux_Planner
  imports Exact_Select
begin

text \<open>
  The Linux admission pass \<open>planLinux\<close> (\<open>internal/scheduler/scheduler.go\<close>) with the reservation of
  an aged head, the backfill beside it, and the bound an aged head of the other platform sets.
\<close>

section \<open>Reservations\<close>

definition takesTheReservedVector :: "Config \<Rightarrow> Reservation \<Rightarrow> Demand \<Rightarrow> bool" where
  "takesTheReservedVector cfg reservation d = CanFit (vector_of cfg d) (Rv_Resources reservation)"

definition jumpsTheReservedHead :: "Config \<Rightarrow> Reservation \<Rightarrow> Resources \<Rightarrow> bool \<Rightarrow> Demand \<Rightarrow> bool" where
  "jumpsTheReservedHead cfg reservation remainder remainderExists d =
     (if remainderExists \<and> CanFit remainder (vector_of cfg d) then False
      else takesTheReservedVector cfg reservation d)"

definition reservedDemand :: "Reservation option \<Rightarrow> Demand list \<Rightarrow> Demand option" where
  "reservedDemand reservation demands =
     (case reservation of
        None \<Rightarrow> None
      | Some r \<Rightarrow> find (\<lambda>d. Dem_Key d = Rv_Demand r \<and> Dem_Profile d = Rv_Profile r) demands)"

definition outranksReservation :: "Input \<Rightarrow> Demand \<Rightarrow> Demand \<Rightarrow> bool" where
  "outranksReservation inp candidate reserved =
     (if tier_of inp candidate \<noteq> tier_of inp reserved then tier_of inp candidate > tier_of inp reserved
      else demandLess candidate reserved)"

definition reservationStillHeadsQueue :: "Input \<Rightarrow> Demand list \<Rightarrow> Demand \<Rightarrow> bool" where
  "reservationStillHeadsQueue inp demands reserved \<longleftrightarrow>
     \<not> list_ex (\<lambda>d. \<not> (Dem_Key d = Dem_Key reserved \<or> \<not> demandAged (In_Now inp) (In_aged inp) d)
                     \<and> outranksReservation inp d reserved) demands"

definition safeBackfill ::
    "Input \<Rightarrow> Demand list \<Rightarrow> Resources \<Rightarrow> counts \<Rightarrow> Reservation \<Rightarrow> DemandKey list \<Rightarrow> Operation list" where
  "safeBackfill inp demands free baseCounts reservation alreadySelected =
     (let counts = foldl (\<lambda>m k. bump m (Key_Repo k)) baseCounts alreadySelected in
      case Res_Sub free (Rv_Resources reservation) of (remainder, fits) \<Rightarrow>
        let excluded = Rv_Demand reservation # alreadySelected;
            candidates = filter (\<lambda>d. \<not> Dem_Key d \<in> set excluded
              \<and> \<not> jumpsTheReservedHead (In_Config inp) reservation remainder fits d) demands;
            ordered = priorityOrder inp candidates;
            selected = exactSelect (In_Now inp) ordered free counts (In_Config inp)
        in map (\<lambda>d. spawnOperation d []) selected)"

section \<open>The other platform's head\<close>

definition demandsAwaitingAdmission :: "Demand list \<Rightarrow> Operation list \<Rightarrow> Demand list" where
  "demandsAwaitingAdmission demands ops = filter (\<lambda>d. Dem_Key d \<notin> set (spawnedDemands ops)) demands"

definition foreignQueue :: "Input \<Rightarrow> Plan \<Rightarrow> Platform \<Rightarrow> Demand list" where
  "foreignQueue inp plan platform =
     (let served = map Inst_Demand (filter IncarnatesDemand (In_insts inp)) in
      demandsAwaitingAdmission
        (filter (\<lambda>d. Dem_Platform d = platform \<and> Dem_Key d \<notin> set served) (normalizedDemands inp))
        (Plan_Operations plan))"

definition besideAgedForeignHead :: "Input \<Rightarrow> Demand list \<Rightarrow> Demand list \<Rightarrow> Demand list" where
  "besideAgedForeignHead inp candidates foreign =
     (if Cfg_MacOSExclusive (In_Config inp) \<or> candidates = [] \<or> foreign = [] then candidates
      else
        (let foreignHead = hd (priorityOrder inp foreign) in
         if \<not> profile_known (In_Config inp) (Dem_Profile foreignHead)
            \<or> \<not> demandAged (In_Now inp) (In_aged inp) foreignHead then candidates
         else
           (let resources = vector_of (In_Config inp) foreignHead;
                head = \<lparr>Rv_Demand = Dem_Key foreignHead, Rv_Profile = Dem_Profile foreignHead,
                        Rv_Resources = resources, Rv_Since = Dem_CreatedAt foreignHead\<rparr>;
                rank = priorityRank inp
            in case Res_Sub (linuxFreeAged inp) resources of (remainder, remainderExists) \<Rightarrow>
              filter (\<lambda>d. \<not> ((case (rank (Dem_Key foreignHead), rank (Dem_Key d)) of
                                 (Some headRank, Some demandRank) \<Rightarrow> demandRank > headRank
                               | _ \<Rightarrow> False)
                             \<and> jumpsTheReservedHead (In_Config inp) head remainder remainderExists d)) candidates)))"

section \<open>The pass\<close>

text \<open>Appending a backfill moves the round-robin cursor to the repository of its last spawn.\<close>

definition append_backfill :: "Operation list \<Rightarrow> Plan \<Rightarrow> Plan" where
  "append_backfill backfill plan =
     (let plan' = add_ops backfill plan in
      if backfill = [] then plan' else set_cursor (Key_Repo (Op_Demand (last backfill))) plan')"

fun admit_aged ::
    "Input \<Rightarrow> Demand list \<Rightarrow> counts \<Rightarrow> nat \<Rightarrow> Demand list \<Rightarrow> Resources \<Rightarrow> Resources \<Rightarrow> Plan \<Rightarrow> Plan" where
  "admit_aged inp demands baseCounts admittedBefore [] agedFree free plan = plan"
| "admit_aged inp demands baseCounts admittedBefore (candidate # rest) agedFree free plan =
     (if int (length (Plan_Operations plan)) - int admittedBefore \<ge> admissionsPerTick then plan
      else
        (let resources = vector_of (In_Config inp) candidate;
             selected = spawnedDemands (Plan_Operations plan);
             axis = admissionAxis resources agedFree (Dem_Repo candidate) baseCounts selected (Cfg_RepoCaps (In_Config inp))
         in if axis \<noteq> ReservationAxisNone then
              (let reservation = \<lparr>Rv_Demand = Dem_Key candidate, Rv_Profile = Dem_Profile candidate,
                                  Rv_Resources = resources, Rv_Since = In_Now inp\<rparr>
               in append_backfill (safeBackfill inp demands free baseCounts reservation selected)
                    (set_axis axis (set_reservation (Some reservation) plan)))
            else
              admit_aged inp demands baseCounts admittedBefore rest (fst (Res_Sub agedFree resources))
                (case Res_Sub free resources of (remaining, ok) \<Rightarrow> if ok then remaining else zero_Resources)
                (add_ops [spawnOperation candidate []] plan)))"

abbreviation clamp_slots :: "int \<Rightarrow> Resources \<Rightarrow> Resources" where
  "clamp_slots n free \<equiv> free\<lparr>Slots := min (Slots free) n\<rparr>"

text \<open>\<open>copyReservation\<close> copies a pointer's target; a record value is its own copy.\<close>

definition planLinux_reserved :: "Input \<Rightarrow> Plan \<Rightarrow> Demand list \<Rightarrow> Resources \<Rightarrow> Resources \<Rightarrow> counts \<Rightarrow> Demand \<Rightarrow> Reservation \<Rightarrow> Plan" where
  "planLinux_reserved inp plan demands free agedFree baseCounts reserved reservation =
     (let axis = admissionAxis (vector_of (In_Config inp) reserved) agedFree (Dem_Repo reserved) baseCounts []
                   (Cfg_RepoCaps (In_Config inp)) in
      if axis = ReservationAxisNone then set_reservation None (add_ops [spawnOperation reserved []] plan)
      else append_backfill (safeBackfill inp demands free baseCounts reservation [])
             (set_axis axis (set_reservation (Some reservation) plan)))"

text \<open>The part of \<open>planLinux\<close> behind the reservation: the aged band in order, or the young lanes.\<close>

definition planLinux_fresh :: "Input \<Rightarrow> Plan \<Rightarrow> Demand list \<Rightarrow> Resources \<Rightarrow> Resources \<Rightarrow> counts \<Rightarrow> Plan" where
  "planLinux_fresh inp plan demands free agedFree baseCounts =
     (case splitAged (In_Now inp) (In_aged inp) demands of (aged, young) \<Rightarrow>
        if aged \<noteq> [] then
          admit_aged inp demands baseCounts (length (Plan_Operations plan)) (agedQueueOrder inp aged) agedFree free plan
        else
          (let ordered = youngPriorityOrder inp young (St_DRRCursor (In_Prior inp)) (In_Config inp);
               selected = exactSelect (In_Now inp) ordered free baseCounts (In_Config inp);
               plan' = add_ops (map (\<lambda>d. spawnOperation d []) selected) plan
           in if selected = [] then plan' else set_cursor (Dem_Repo (last selected)) plan'))"

definition planLinux :: "Input \<Rightarrow> Plan \<Rightarrow> Demand list \<Rightarrow> Plan" where
  "planLinux inp plan demands0 =
     (let demands = besideAgedForeignHead inp (consumeCompatibleIdle demands0 (In_insts inp))
                      (foreignQueue inp plan PlatformMacOS) in
      if demands = [] then set_reservation None plan
      else
        (let free = clamp_slots admissionsPerTick (linuxFree inp);
             agedFree = clamp_slots admissionsPerTick (linuxFreeAged inp);
             baseCounts = activeRepoCounts (In_insts inp)
         in case (St_Reservation (In_Prior inp), reservedDemand (St_Reservation (In_Prior inp)) demands) of
              (Some reservation, Some reserved) \<Rightarrow>
                if reservationStillHeadsQueue inp demands reserved
                then planLinux_reserved inp plan demands free agedFree baseCounts reserved reservation
                else planLinux_fresh inp (set_reservation None plan) demands free agedFree baseCounts
            | _ \<Rightarrow> planLinux_fresh inp (set_reservation None plan) demands free agedFree baseCounts))"

lemmas [fleet_eval] =
  takesTheReservedVector_def jumpsTheReservedHead_def reservedDemand_def outranksReservation_def
  reservationStillHeadsQueue_def safeBackfill_def demandsAwaitingAdmission_def foreignQueue_def
  besideAgedForeignHead_def append_backfill_def planLinux_reserved_def planLinux_fresh_def planLinux_def

end
