(* ===== verification/Mac_Planner.thy ===== *)
theory Mac_Planner
  imports Linux_Planner
begin

text \<open>
  The macOS admission pass, the handoffs between the platforms and the complementary passes of
  mixed admission (\<open>internal/scheduler/scheduler.go\<close>). A function that indexes the first element of
  a list it was given returns \<^const>\<open>None\<close> where the source panics.
\<close>

section \<open>Planned occupancy\<close>

definition planned_instance :: "Config \<Rightarrow> Operation \<Rightarrow> Instance" where
  "planned_instance cfg q =
     (let profile = profile_at cfg (Op_Profile q) in
      zero_Instance\<lparr>Inst_ID := ''planned-'' @ Op_ID q, Inst_Repo := Key_Repo (Op_Demand q), Inst_Demand := Op_Demand q,
        Inst_Platform := Prof_Platform profile, Inst_Profile := Prof_ID profile, Inst_Route := Prof_Route profile,
        Inst_Resources := Prof_Resources profile, Inst_State := InstancePlanned, Inst_Power := InstancePowerRunning\<rparr>)"

definition appendPlannedSpawns :: "Instance list \<Rightarrow> Config \<Rightarrow> Operation list \<Rightarrow> Instance list" where
  "appendPlannedSpawns instances cfg ops =
     instances @ map (planned_instance cfg) (filter (\<lambda>q. Op_Kind q = OperationSpawn) ops)"

definition demandEnvelope :: "Input \<Rightarrow> Demand \<Rightarrow> Resources \<Rightarrow> Resources \<Rightarrow> Resources" where
  "demandEnvelope inp d free agedFree = (if demandAged (In_Now inp) (In_aged inp) d then agedFree else free)"

section \<open>Profiles\<close>

definition demandsForProfile :: "Demand list \<Rightarrow> ProfileID \<Rightarrow> Demand list" where
  "demandsForProfile demands profile = filter (\<lambda>d. Dem_Profile d = profile) demands"

definition demandsExcludingProfile :: "Demand list \<Rightarrow> ProfileID \<Rightarrow> Demand list" where
  "demandsExcludingProfile demands profile = filter (\<lambda>d. Dem_Profile d \<noteq> profile) demands"

definition head_of :: "'a list \<Rightarrow> 'a option" where
  "head_of xs = (case xs of [] \<Rightarrow> None | x # _ \<Rightarrow> Some x)"

definition chosenMacProfile :: "Input \<Rightarrow> Demand list \<Rightarrow> ProfileID option" where
  "chosenMacProfile inp demands = map_option Dem_Profile (head_of (priorityOrder inp demands))"

definition macProfileLimit :: "Profile \<Rightarrow> int" where
  "macProfileLimit profile = (if Prof_MaxActive profile \<le> 0 then 1 else Prof_MaxActive profile)"

definition consumes_mac :: "Instance \<Rightarrow> bool" where
  "consumes_mac i \<longleftrightarrow> ConsumesHostResources i \<and> Inst_Platform i = PlatformMacOS"

text \<open>The number of live macOS instances of one profile, the \<open>active\<close> counter of two loops.\<close>

definition active_macs :: "Instance list \<Rightarrow> ProfileID \<Rightarrow> int" where
  "active_macs instances profile = int (length (filter (\<lambda>i. consumes_mac i \<and> Inst_Profile i = profile) instances))"

definition macProfileCanGrow :: "Input \<Rightarrow> ProfileID \<Rightarrow> bool" where
  "macProfileCanGrow inp target =
     (if \<not> Cfg_MixedProfileCohorts (In_Config inp)
         \<and> list_ex (\<lambda>i. consumes_mac i \<and> Inst_Profile i \<noteq> target) (In_insts inp) then False
      else active_macs (In_insts inp) target < macProfileLimit (profile_at (In_Config inp) target))"

text \<open>
  \<open>activeMacProfile\<close>: the loop's variable \<open>selected\<close> is empty until a live macOS instance is met;
  \<open>None\<close> is the answer \<open>("", false)\<close>.
\<close>

fun active_profile_loop :: "ProfileID \<Rightarrow> Instance list \<Rightarrow> ProfileID option" where
  "active_profile_loop selected [] = (if selected \<noteq> [] then Some selected else None)"
| "active_profile_loop selected (i # is) =
     (if \<not> consumes_mac i then active_profile_loop selected is
      else if selected \<noteq> [] \<and> selected \<noteq> Inst_Profile i then None
      else active_profile_loop (Inst_Profile i) is)"

definition activeMacProfile :: "Instance list \<Rightarrow> ProfileID option" where
  "activeMacProfile instances = active_profile_loop [] instances"

definition hasConsumingPlatform :: "Instance list \<Rightarrow> Platform \<Rightarrow> bool" where
  "hasConsumingPlatform instances platform =
     list_ex (\<lambda>i. Inst_Platform i = platform \<and> ConsumesHostResources i) instances"

definition macProfileFirst :: "Input \<Rightarrow> Demand list \<Rightarrow> ProfileID \<Rightarrow> Demand list" where
  "macProfileFirst inp demands profile =
     priorityOrder inp (demandsForProfile demands profile)
     @ filter (\<lambda>d. Dem_Profile d \<noteq> profile) (priorityOrder inp demands)"

section \<open>macOS spawns\<close>

fun select_macs ::
    "Input \<Rightarrow> Profile \<Rightarrow> int \<Rightarrow> Demand list \<Rightarrow> counts \<Rightarrow> Resources \<Rightarrow> Resources \<Rightarrow> Demand list \<Rightarrow> Demand list" where
  "select_macs inp profile available [] counts free agedFree selected = selected"
| "select_macs inp profile available (d # ds) counts free agedFree selected =
     (if int (length selected) \<ge> available then selected
      else if \<not> CanFit (demandEnvelope inp d free agedFree) (Prof_Resources profile) then selected
      else if counts (Dem_Repo d) \<ge> repoCapLimit (Cfg_RepoCaps (In_Config inp)) (Dem_Repo d)
      then select_macs inp profile available ds counts free agedFree selected
      else select_macs inp profile available ds (bump counts (Dem_Repo d))
             (case Res_Sub free (Prof_Resources profile) of (remaining, ok) \<Rightarrow> if ok then remaining else zero_Resources)
             (fst (Res_Sub agedFree (Prof_Resources profile))) (selected @ [d]))"

definition appendMacSpawns :: "Input \<Rightarrow> Plan \<Rightarrow> Demand list \<Rightarrow> string list \<Rightarrow> Plan" where
  "appendMacSpawns inp plan demands0 dependencies =
     (if demands0 = [] then plan
      else
        (let demands = besideAgedForeignHead inp demands0 (foreignQueue inp plan PlatformLinux) in
         if demands = [] then plan
         else
           (let profile = profile_at (In_Config inp) (Dem_Profile (hd demands));
                available = macProfileLimit profile - active_macs (In_insts inp) (Prof_ID profile)
            in if available \<le> 0 then plan
               else
                 (let counts = activeRepoCounts (appendPlannedSpawns (In_insts inp) (In_Config inp) (Plan_Operations plan));
                      selected = select_macs inp profile available (priorityOrder inp demands) counts
                                   (linuxFree inp) (linuxFreeAged inp) [];
                      plan' = add_ops (map (\<lambda>d. spawnOperation d dependencies) selected) plan
                  in if selected = [] then plan' else set_cursor (Dem_Repo (last selected)) plan'))))"

section \<open>Drains\<close>

definition removeInstance :: "Instance list \<Rightarrow> string \<Rightarrow> Instance list" where
  "removeInstance instances i = filter (\<lambda>x. Inst_ID x \<noteq> i) instances"

text \<open>
  The drain loop the handoffs share: of the instances to vacate, in identifier order, every idle
  one is drained and removed from the remaining occupancy, and one that is not idle clears the flag.
\<close>

record drain_scan =
  DS_drains :: "Operation list"
  DS_allIdle :: bool
  DS_filtered :: "Instance list"

fun drain_loop :: "(Instance \<Rightarrow> bool) \<Rightarrow> Instance list \<Rightarrow> drain_scan \<Rightarrow> drain_scan" where
  "drain_loop vacate [] s = s"
| "drain_loop vacate (i # is) s =
     (if \<not> vacate i then drain_loop vacate is s
      else if Inst_State i \<noteq> InstanceOnlineIdle then drain_loop vacate is (s\<lparr>DS_allIdle := False\<rparr>)
      else drain_loop vacate is (s\<lparr>DS_drains := DS_drains s @ [drainOperation i],
                                   DS_filtered := removeInstance (DS_filtered s) (Inst_ID i)\<rparr>))"

definition scan_drains :: "(Instance \<Rightarrow> bool) \<Rightarrow> Instance list \<Rightarrow> drain_scan" where
  "scan_drains vacate instances =
     drain_loop vacate (sortedInstances instances) \<lparr>DS_drains = [], DS_allIdle = True, DS_filtered = instances\<rparr>"

definition planMacOS :: "Input \<Rightarrow> Plan \<Rightarrow> Demand list \<Rightarrow> Plan option" where
  "planMacOS inp plan demands = do {
     profile \<leftarrow> chosenMacProfile inp demands;
     let attempted = appendMacSpawns inp plan (demandsForProfile demands profile) [];
     if Cfg_MixedProfileCohorts (In_Config inp)
        \<and> containsSpawn (drop (length (Plan_Operations plan)) (Plan_Operations attempted))
     then Some attempted
     else do {
       let scan = scan_drains (\<lambda>i. consumes_mac i \<and> Inst_Profile i \<noteq> profile) (In_insts inp);
       let plan' = add_ops (DS_drains scan) plan;
       Some (if DS_allIdle scan
             then appendMacSpawns (with_instances inp (DS_filtered scan)) plan' (demandsForProfile demands profile)
                    (operationIDs (DS_drains scan))
             else plan')
     }
   }"

section \<open>Handoffs\<close>

definition macHandoffFor :: "MacHandoff option \<Rightarrow> Demand \<Rightarrow> time \<Rightarrow> MacHandoff" where
  "macHandoffFor prior d now =
     (case prior of
        Some h \<Rightarrow> if MH_Demand h = Dem_Key d \<and> MH_Profile h = Dem_Profile d then h
                  else \<lparr>MH_Demand = Dem_Key d, MH_Profile = Dem_Profile d, MH_Since = now, MH_BackfillAdmitted = False\<rparr>
      | None \<Rightarrow> \<lparr>MH_Demand = Dem_Key d, MH_Profile = Dem_Profile d, MH_Since = now, MH_BackfillAdmitted = False\<rparr>)"

definition linuxHandoffFor :: "LinuxHandoff option \<Rightarrow> Demand \<Rightarrow> time \<Rightarrow> LinuxHandoff" where
  "linuxHandoffFor prior d now =
     (case prior of
        Some h \<Rightarrow> if LH_Demand h = Dem_Key d then h
                  else \<lparr>LH_Demand = Dem_Key d, LH_Since = now, LH_BackfillAdmitted = False\<rparr>
      | None \<Rightarrow> \<lparr>LH_Demand = Dem_Key d, LH_Since = now, LH_BackfillAdmitted = False\<rparr>)"

definition retainedMacHandoff :: "MacHandoff option \<Rightarrow> Demand list \<Rightarrow> MacHandoff option" where
  "retainedMacHandoff prior demands =
     (case prior of
        None \<Rightarrow> None
      | Some h \<Rightarrow> if list_ex (\<lambda>d. Dem_Key d = MH_Demand h \<and> Dem_Profile d = MH_Profile h) demands then Some h else None)"

fun stable_loop :: "MacHandoff \<Rightarrow> Demand list \<Rightarrow> Demand list \<Rightarrow> Demand list option" where
  "stable_loop h front [] = None"
| "stable_loop h front (d # ds) =
     (if Dem_Key d \<noteq> MH_Demand h \<or> Dem_Profile d \<noteq> MH_Profile h \<or> front = [] then stable_loop h (front @ [d]) ds
      else Some (d # front @ ds))"

definition stableMacHandoffOrder :: "MacHandoff option \<Rightarrow> Demand list \<Rightarrow> Demand list" where
  "stableMacHandoffOrder prior demands =
     (case prior of
        None \<Rightarrow> demands
      | Some h \<Rightarrow> (case stable_loop h [] demands of Some ordered \<Rightarrow> ordered | None \<Rightarrow> demands))"

definition profileLess :: "Profile \<Rightarrow> Profile \<Rightarrow> bool" where
  "profileLess a b =
     (if CPU (Prof_Resources a) \<noteq> CPU (Prof_Resources b) then CPU (Prof_Resources a) < CPU (Prof_Resources b)
      else if MemoryMB (Prof_Resources a) \<noteq> MemoryMB (Prof_Resources b)
      then MemoryMB (Prof_Resources a) < MemoryMB (Prof_Resources b)
      else if Slots (Prof_Resources a) \<noteq> Slots (Prof_Resources b) then Slots (Prof_Resources a) < Slots (Prof_Resources b)
      else Prof_ID a < Prof_ID b)"

fun smallest_loop :: "Profile option \<Rightarrow> Profile list \<Rightarrow> Profile option" where
  "smallest_loop smallest [] = smallest"
| "smallest_loop smallest (p # ps) =
     (if Prof_Platform p \<noteq> PlatformLinux \<or> (case smallest of None \<Rightarrow> False | Some q \<Rightarrow> \<not> profileLess p q)
      then smallest_loop smallest ps else smallest_loop (Some p) ps)"

definition smallestLinuxResources :: "(ProfileID \<times> Profile) list \<Rightarrow> Resources option" where
  "smallestLinuxResources profiles = map_option Prof_Resources (smallest_loop None (map snd profiles))"

definition drain_eligible :: "Input \<Rightarrow> Resources \<Rightarrow> Demand \<Rightarrow> bool" where
  "drain_eligible inp least d \<longleftrightarrow>
     (demandAged (In_Now inp) (In_aged inp) d \<or> controlPlane_repo (In_Config inp) (Dem_Repo d))
     \<and> Prof_Platform (profile_at (In_Config inp) (Dem_Profile d)) = PlatformLinux
     \<and> vector_of (In_Config inp) d = least"

definition boundedDrainBackfill :: "Input \<Rightarrow> Demand list \<Rightarrow> Operation list" where
  "boundedDrainBackfill inp demands =
     (case smallestLinuxResources (Cfg_Profiles (In_Config inp)) of
        None \<Rightarrow> []
      | Some least \<Rightarrow>
          (let eligible = filter (drain_eligible inp least) demands in
           if eligible = [] then []
           else
             (case exactSelect (In_Now inp) (priorityOrder inp eligible) (clamp_slots 1 (linuxFree inp))
                     (activeRepoCounts (In_insts inp)) (In_Config inp) of
                [] \<Rightarrow> []
              | d # _ \<Rightarrow> [spawnOperation d []])))"

definition vacate_platform :: "Platform \<Rightarrow> Instance \<Rightarrow> bool" where
  "vacate_platform platform i \<longleftrightarrow> \<not> (Inst_Platform i \<noteq> platform \<or> \<not> ConsumesHostResources i)"

definition planMacHandoff :: "Input \<Rightarrow> Plan \<Rightarrow> Demand list \<Rightarrow> Demand list \<Rightarrow> Plan option" where
  "planMacHandoff inp plan linuxDemands macDemands0 = do {
     let macDemands = stableMacHandoffOrder (St_MacHandoff (In_Prior inp)) macDemands0;
     head \<leftarrow> head_of macDemands;
     let handoff = macHandoffFor (St_MacHandoff (In_Prior inp)) head (In_Now inp);
     let scan = scan_drains (vacate_platform PlatformLinux) (In_insts inp);
     let plan' = add_ops (DS_drains scan) plan;
     let spawned = appendMacSpawns (with_instances inp (DS_filtered scan)) plan' macDemands (operationIDs (DS_drains scan));
     if DS_allIdle scan \<and> containsSpawn (Plan_Operations spawned) then Some (set_macHandoff None spawned)
     else if MH_BackfillAdmitted handoff then Some (set_macHandoff (Some handoff) plan')
     else
       (let backfill = boundedDrainBackfill inp linuxDemands in
        Some (set_macHandoff (Some (if backfill = [] then handoff else handoff\<lparr>MH_BackfillAdmitted := True\<rparr>))
                (add_ops backfill plan')))
   }"

definition planMacWithCoexistence :: "Input \<Rightarrow> Plan \<Rightarrow> Demand list \<Rightarrow> Demand list \<Rightarrow> Plan option" where
  "planMacWithCoexistence inp plan linuxDemands macDemands = do {
     attempted \<leftarrow> planMacOS inp plan macDemands;
     if containsSpawn (Plan_Operations attempted) then Some (set_macHandoff None attempted)
     else if length (Plan_Operations attempted) > length (Plan_Operations plan) then Some attempted
     else do {
       profile \<leftarrow> chosenMacProfile inp macDemands;
       if \<not> macProfileCanGrow inp profile then Some attempted
       else planMacHandoff inp attempted linuxDemands macDemands
     }
   }"

definition planBehindInfeasibleMacHead :: "Input \<Rightarrow> Plan \<Rightarrow> Demand list \<Rightarrow> Demand list \<Rightarrow> Plan option" where
  "planBehindInfeasibleMacHead inp plan linuxDemands macDemands = do {
     macHead \<leftarrow> head_of (priorityOrder inp macDemands);
     let handoff = macHandoffFor (St_MacHandoff (In_Prior inp)) macHead (In_Now inp);
     let plan' = set_macHandoff (Some handoff) (planLinux inp plan linuxDemands);
     if containsSpawn (drop (length (Plan_Operations plan)) (Plan_Operations plan')) then Some plan'
     else do {
       profile \<leftarrow> chosenMacProfile inp macDemands;
       let remaining = demandsExcludingProfile macDemands profile;
       if remaining = [] then Some plan' else planMacOS inp plan' remaining
     }
   }"

section \<open>Complementary passes\<close>

definition mixedRemainderInput :: "Input \<Rightarrow> Plan \<Rightarrow> Input option" where
  "mixedRemainderInput inp plan =
     (if \<not> Cfg_MixedPlatformAdmission (In_Config inp) \<or> Plan_Status plan \<noteq> PlanReady \<or> containsDrain (Plan_Operations plan)
      then None
      else Some (with_instances inp (appendPlannedSpawns (In_insts inp) (In_Config inp) (Plan_Operations plan))))"

definition reservedRemainderDemands :: "Input \<Rightarrow> Plan \<Rightarrow> Demand list \<Rightarrow> Demand list" where
  "reservedRemainderDemands inp plan demands =
     (case St_Reservation (Plan_Next plan) of
        None \<Rightarrow> demands
      | Some reservation \<Rightarrow>
          (case Res_Sub (linuxFreeAged inp) (Rv_Resources reservation) of (remainder, remainderExists) \<Rightarrow>
             filter (\<lambda>d. \<not> jumpsTheReservedHead (In_Config inp) reservation remainder remainderExists d) demands))"

definition reserved_charge :: "Config \<Rightarrow> Reservation \<Rightarrow> Instance" where
  "reserved_charge cfg reservation =
     (let profile = profile_at cfg (Rv_Profile reservation) in
      zero_Instance\<lparr>Inst_ID := reservedChargePrefix @ Key_String (Rv_Demand reservation),
        Inst_Repo := Key_Repo (Rv_Demand reservation), Inst_Demand := Rv_Demand reservation,
        Inst_Platform := Prof_Platform profile, Inst_Profile := Rv_Profile reservation, Inst_Route := Prof_Route profile,
        Inst_State := InstancePlanned, Inst_Power := InstancePowerRunning\<rparr>)"

definition chargeReservedHead :: "Input \<Rightarrow> Reservation option \<Rightarrow> Input" where
  "chargeReservedHead inp reservation =
     (case reservation of
        None \<Rightarrow> inp
      | Some r \<Rightarrow> with_instances inp (In_insts inp @ [reserved_charge (In_Config inp) r]))"

definition fillLinuxRemainder :: "Input \<Rightarrow> Plan \<Rightarrow> Demand list \<Rightarrow> Plan" where
  "fillLinuxRemainder inp plan linux0 =
     (let linux = demandsAwaitingAdmission linux0 (Plan_Operations plan) in
      if linux = [] then plan
      else (case mixedRemainderInput inp plan of
        None \<Rightarrow> plan
      | Some augmented \<Rightarrow>
          (let sub = planLinux augmented (new_Plan PlanReady (Plan_Next plan) []) linux in
           set_cursor (St_DRRCursor (Plan_Next sub))
             (set_axis (Plan_ReservationAxis sub)
               (set_reservation (St_Reservation (Plan_Next sub)) (add_ops (Plan_Operations sub) plan))))))"

definition remainder_admissible :: "Input \<Rightarrow> Demand \<Rightarrow> bool" where
  "remainder_admissible inp d \<longleftrightarrow>
     macProfileCanGrow inp (Dem_Profile d)
     \<and> CanFit (demandEnvelope inp d (linuxFree inp) (linuxFreeAged inp)) (vector_of (In_Config inp) d)
     \<and> \<not> activeRepoCounts (In_insts inp) (Dem_Repo d) \<ge> repoCapLimit (Cfg_RepoCaps (In_Config inp)) (Dem_Repo d)"

definition remainderMacProfile :: "Input \<Rightarrow> Demand list \<Rightarrow> ProfileID option" where
  "remainderMacProfile inp macos =
     (case (if Cfg_MixedProfileCohorts (In_Config inp) then None else activeMacProfile (In_insts inp)) of
        Some active \<Rightarrow> if macProfileCanGrow inp active then Some active else None
      | None \<Rightarrow> map_option Dem_Profile (find (remainder_admissible inp) (priorityOrder inp macos)))"

definition fillMacRemainder :: "Input \<Rightarrow> Plan \<Rightarrow> Demand list \<Rightarrow> Plan" where
  "fillMacRemainder inp plan macos0 =
     (let macos = reservedRemainderDemands inp plan (demandsAwaitingAdmission macos0 (Plan_Operations plan)) in
      if macos = [] then plan
      else (case mixedRemainderInput inp plan of
        None \<Rightarrow> plan
      | Some augmented0 \<Rightarrow>
          (let augmented = chargeReservedHead augmented0 (St_Reservation (Plan_Next plan)) in
           case remainderMacProfile augmented macos of
             None \<Rightarrow> plan
           | Some target \<Rightarrow>
               (let profileDemands = demandsForProfile macos target in
                if profileDemands = [] then plan
                else add_ops (Plan_Operations (appendMacSpawns augmented
                       (new_Plan PlanReady (Plan_Next plan) []) profileDemands [])) plan))))"

section \<open>Linux handoff\<close>

text \<open>The operations of the pass behind the drains, each made to depend on every drain.\<close>

definition depend_on :: "string list \<Rightarrow> Operation \<Rightarrow> Operation" where
  "depend_on dependencies q = sealed (q\<lparr>Op_DependsOn := dependencies\<rparr>)"

definition planLinuxHandoff :: "Input \<Rightarrow> Plan \<Rightarrow> Demand list \<Rightarrow> Demand list \<Rightarrow> Plan option" where
  "planLinuxHandoff inp plan0 demands macDemands = do {
     head \<leftarrow> head_of (priorityOrder inp demands);
     let handoff = linuxHandoffFor (St_LinuxHandoff (In_Prior inp)) head (In_Now inp);
     let scan = scan_drains (vacate_platform PlatformMacOS) (In_insts inp);
     let plan = add_ops (DS_drains scan) (set_linuxHandoff (Some handoff) plan0);
     if \<not> DS_allIdle scan then
       Some (if LH_BackfillAdmitted handoff then plan
             else (case activeMacProfile (In_insts inp) of
               None \<Rightarrow> plan
             | Some profile \<Rightarrow>
                 (let lending = chargeReservedHead inp (St_Reservation (Plan_Next plan));
                      candidates = reservedRemainderDemands inp plan (demandsForProfile macDemands profile);
                      plan' = appendMacSpawns lending plan candidates []
                  in if containsSpawn (drop (length (Plan_Operations plan)) (Plan_Operations plan'))
                     then set_linuxHandoff (Some (handoff\<lparr>LH_BackfillAdmitted := True\<rparr>)) plan' else plan')))
     else
       (let plan = set_linuxHandoff None plan;
            nxt = planLinux (with_instances inp (DS_filtered scan)) (new_Plan (Plan_Status plan) (Plan_Next plan) []) demands
        in Some ((add_ops (map (depend_on (operationIDs (DS_drains scan))) (Plan_Operations nxt)) plan)
                   \<lparr>Plan_Next := Plan_Next nxt\<rparr>))
   }"

definition planLinuxWithCoexistence :: "Input \<Rightarrow> Plan \<Rightarrow> Demand list \<Rightarrow> Demand list \<Rightarrow> Plan option" where
  "planLinuxWithCoexistence inp plan demands macDemands =
     (let remaining = consumeCompatibleIdle demands (In_insts inp);
          attempted = planLinux inp plan demands
      in if remaining = [] \<or> containsSpawn (Plan_Operations attempted) then Some (set_linuxHandoff None attempted)
         else planLinuxHandoff inp attempted demands macDemands)"

lemmas [fleet_eval] =
  planned_instance_def appendPlannedSpawns_def demandEnvelope_def demandsForProfile_def demandsExcludingProfile_def
  head_of_def chosenMacProfile_def macProfileLimit_def consumes_mac_def active_macs_def macProfileCanGrow_def
  activeMacProfile_def hasConsumingPlatform_def macProfileFirst_def appendMacSpawns_def removeInstance_def
  scan_drains_def planMacOS_def macHandoffFor_def linuxHandoffFor_def retainedMacHandoff_def
  stableMacHandoffOrder_def profileLess_def smallestLinuxResources_def drain_eligible_def boundedDrainBackfill_def
  vacate_platform_def planMacHandoff_def planMacWithCoexistence_def planBehindInfeasibleMacHead_def
  mixedRemainderInput_def reservedRemainderDemands_def reserved_charge_def chargeReservedHead_def
  fillLinuxRemainder_def remainder_admissible_def remainderMacProfile_def fillMacRemainder_def depend_on_def
  planLinuxHandoff_def planLinuxWithCoexistence_def

end
