(* ===== verification/Plan_Tick.thy ===== *)
theory Plan_Tick
  imports Mac_Planner
begin

text \<open>
  One scheduling tick (\<open>PlanTick\<close> and \<open>planTick\<close> of \<open>internal/scheduler/scheduler.go\<close>): the fail-closed
  guards, the recovery-only tick, macOS-exclusive admission and the two platform lanes.
\<close>

section \<open>Diagnosis\<close>

definition judgeCarriedReservation :: "Input \<Rightarrow> Plan \<Rightarrow> Plan" where
  "judgeCarriedReservation inp plan =
     (case St_Reservation (Plan_Next plan) of
        None \<Rightarrow> plan
      | Some reservation \<Rightarrow>
          if Plan_ReservationAxis plan \<noteq> ReservationAxisUnset then plan
          else set_axis (admissionAxis (Prof_Resources (profile_at (In_Config inp) (Rv_Profile reservation)))
                 (linuxFreeAged inp) (Key_Repo (Rv_Demand reservation)) (activeRepoCounts (In_insts inp))
                 (spawnedDemands (Plan_Operations plan)) (Cfg_RepoCaps (In_Config inp))) plan)"

definition observation_text :: "ObservationState \<Rightarrow> string" where
  "observation_text s =
     (case s of ObservationFresh \<Rightarrow> ''fresh'' | ObservationStale \<Rightarrow> ''stale'' | ObservationUnavailable \<Rightarrow> ''unavailable''
      | ObservationOther t \<Rightarrow> t)"

definition blocked_part :: "string \<Rightarrow> ObservationState \<Rightarrow> string \<Rightarrow> string list" where
  "blocked_part name state reason =
     (if state = ObservationFresh then []
      else [name @ '' '' @ observation_text state @ (if reason = [] then [] else '': '' @ reason)])"

definition blockedReason :: "Input \<Rightarrow> string" where
  "blockedReason inp = join_with ''; ''
     (blocked_part ''demands'' (Ob_State (In_Demands inp)) (Ob_Reason (In_Demands inp))
      @ blocked_part ''instances'' (Ob_State (In_Instances inp)) (Ob_Reason (In_Instances inp))
      @ blocked_part ''host'' (Ob_State (In_Host inp)) (Ob_Reason (In_Host inp)))"

section \<open>Exclusive admission\<close>

definition vacate_for :: "ProfileID \<Rightarrow> Instance \<Rightarrow> bool" where
  "vacate_for target i \<longleftrightarrow> \<not> (\<not> ConsumesHostResources i \<or> (Inst_Platform i = PlatformMacOS \<and> Inst_Profile i = target))"

definition planExclusiveMacHandoff :: "Input \<Rightarrow> Plan \<Rightarrow> Demand list \<Rightarrow> Plan option" where
  "planExclusiveMacHandoff inp plan macDemands0 = do {
     first \<leftarrow> head_of macDemands0;
     let target = Dem_Profile first;
     let macDemands = (case St_MacHandoff (In_Prior inp) of
           Some h \<Rightarrow> if MH_Profile h = target then stableMacHandoffOrder (Some h) macDemands0 else macDemands0
         | None \<Rightarrow> macDemands0);
     head \<leftarrow> head_of macDemands;
     let handoff = macHandoffFor (St_MacHandoff (In_Prior inp)) head (In_Now inp);
     let scan = scan_drains (vacate_for target) (In_insts inp);
     let plan' = add_ops (DS_drains scan) plan;
     if \<not> DS_allIdle scan then Some (set_macHandoff (Some handoff) plan')
     else Some (appendMacSpawns (with_instances inp (DS_filtered scan)) (set_macHandoff None plan')
            (demandsForProfile macDemands target) (operationIDs (DS_drains scan)))
   }"

definition planExclusiveAdmission :: "Input \<Rightarrow> Plan \<Rightarrow> Demand list \<Rightarrow> Demand list \<Rightarrow> Plan option" where
  "planExclusiveAdmission inp plan linuxDemands macDemands =
     (let active = activeMacProfile (In_insts inp);
          hasActiveMac = hasConsumingPlatform (In_insts inp) PlatformMacOS
      in if hasActiveMac \<and> active = None then Some plan
         else if macDemands \<noteq> [] then do {
           chosen \<leftarrow> chosenMacProfile inp macDemands;
           let target = (case active of
                 Some p \<Rightarrow> if hasActiveMac \<and> demandsForProfile macDemands p \<noteq> [] then p else chosen
               | None \<Rightarrow> chosen);
           planExclusiveMacHandoff inp (set_linuxHandoff None plan) (macProfileFirst inp macDemands target)
         }
         else if hasActiveMac then planLinuxHandoff inp (set_macHandoff None plan) linuxDemands []
         else Some (planLinux inp (set_linuxHandoff None (set_macHandoff None plan)) linuxDemands))"

section \<open>The tick\<close>

definition plan_mac_lane :: "Input \<Rightarrow> HostMode \<Rightarrow> Plan \<Rightarrow> Demand list \<Rightarrow> Demand list \<Rightarrow> Plan option" where
  "plan_mac_lane inp mode plan0 linux macos =
     (let plan = set_linuxHandoff None plan0 in
      if mode = HostLinux \<or> mode = HostMixed then do {
        plan' \<leftarrow> planMacWithCoexistence inp plan linux macos;
        Some (fillLinuxRemainder inp plan' linux)
      }
      else do {
        let plan = set_macHandoff None plan;
        attempted \<leftarrow> planMacOS inp plan macos;
        if containsSpawn (Plan_Operations attempted) then Some (fillLinuxRemainder inp attempted linux)
        else if mode = HostIdle \<or> linux = [] \<or> Cfg_MixedPlatformAdmission (In_Config inp)
        then planBehindInfeasibleMacHead inp plan linux macos
        else planMacHandoff inp plan linux macos
      })"

definition plan_linux_lane :: "Input \<Rightarrow> HostMode \<Rightarrow> Plan \<Rightarrow> Demand list \<Rightarrow> Demand list \<Rightarrow> Plan option" where
  "plan_linux_lane inp mode plan0 linux macos = do {
     let plan = set_macHandoff (retainedMacHandoff (St_MacHandoff (In_Prior inp)) macos) plan0;
     plan' \<leftarrow> (if mode = HostMacOS \<or> mode = HostMixed then planLinuxWithCoexistence inp plan linux macos
                else Some (planLinux inp (set_linuxHandoff None plan) linux));
     Some (fillMacRemainder inp plan' macos)
   }"

definition plan_lanes :: "Input \<Rightarrow> HostMode \<Rightarrow> Plan \<Rightarrow> Demand list \<Rightarrow> Plan option" where
  "plan_lanes inp mode plan ordered =
     (let linux = partition_linux ordered; macos = partition_macos ordered in
      if Cfg_MacOSExclusive (In_Config inp) then planExclusiveAdmission inp plan linux macos
      else do {
        head \<leftarrow> head_of ordered;
        case Dem_Platform head of
          PlatformMacOS \<Rightarrow> plan_mac_lane inp mode plan linux macos
        | PlatformLinux \<Rightarrow> plan_linux_lane inp mode plan linux macos
        | _ \<Rightarrow> Some plan
      })"

definition planTick :: "Input \<Rightarrow> Plan option" where
  "planTick inp =
     (if \<not> Usable (In_Demands inp) \<or> \<not> Usable (In_Instances inp) \<or> \<not> Usable (In_Host inp)
      then Some (finish (new_Plan PlanBlockedObservation (In_Prior inp) (blockedReason inp)))
      else (case DeriveHostMode (In_insts inp) of
        Inl err \<Rightarrow> Some (finish (new_Plan PlanInvalidObservation (In_Prior inp) err))
      | Inr mode \<Rightarrow>
          (let demands = normalizedDemands inp;
               plan = new_Plan PlanReady (In_Prior inp) [];
               recoveries = assignmentRecoveries (In_Now inp) (In_Config inp) (In_insts inp)
           in if recoveries \<noteq> [] then
                Some (finish (judgeCarriedReservation inp (plan\<lparr>Plan_Operations := recoveries\<rparr>)))
              else if demands = [] then
                Some (finish (set_linuxHandoff None (set_macHandoff None (set_reservation None plan))))
              else map_option (\<lambda>p. finish (judgeCarriedReservation inp p))
                     (plan_lanes inp mode plan (priorityOrder inp demands)))))"

definition PlanTick :: "Input \<Rightarrow> Plan option" where
  "PlanTick inp = map_option (\<lambda>plan.
     if Usable (In_Demands inp) \<and> Usable (In_Instances inp) \<and> Usable (In_Host inp)
     then plan\<lparr>Plan_Envelope := \<lparr>Env_Free = linuxFree inp, Env_AgedFree = linuxFreeAged inp\<rparr>\<rparr>
     else plan) (planTick inp)"

lemmas [fleet_eval] =
  judgeCarriedReservation_def observation_text_def blocked_part_def blockedReason_def vacate_for_def
  planExclusiveMacHandoff_def planExclusiveAdmission_def plan_mac_lane_def plan_linux_lane_def plan_lanes_def
  planTick_def PlanTick_def

end
