(* ===== verification/Admission_Machine.thy ===== *)
theory Admission_Machine
  imports Plan_Tick
begin

text \<open>
  What a plan without recoveries promises, as an abstract machine. A state is the list of operations
  planned so far; a step drains an observed idle instance or spawns a demand of the queue that the
  state admits. The ledger relates the bookkeeping of a pass (counters per repository, copies of the
  envelope that vectors are subtracted from) to the state it plans in, and a view relates the instance
  list a pass is given to the occupancy the plan so far leaves behind.
\<close>

section \<open>The machine\<close>

text \<open>An operation that spawns a demand, whatever it is made to depend on.\<close>

definition spawns :: "Demand \<Rightarrow> Operation \<Rightarrow> bool" where
  "spawns d q \<longleftrightarrow> Op_Kind q = OperationSpawn \<and> Op_Demand q = Dem_Key d \<and> Op_Profile q = Dem_Profile d
     \<and> Op_Route q = Dem_Route d \<and> \<not> Op_Recovery q"

definition drained :: "Operation list \<Rightarrow> Instance \<Rightarrow> bool" where
  "drained ops i \<longleftrightarrow> (\<exists>q \<in> set ops. Op_Kind q = OperationDrain \<and> Op_Instance q = Inst_ID i)"

text \<open>The occupancy once the drains of a plan are done and its spawns are made.\<close>

definition after_plan :: "Input \<Rightarrow> Operation list \<Rightarrow> Instance list" where
  "after_plan inp ops = appendPlannedSpawns (filter (\<lambda>i. \<not> drained ops i) (In_insts inp)) (In_Config inp) ops"

text \<open>
  When the envelope of a whole tick is kept: nonnegative vectors, profiles filed under their own
  identifier, and one macOS profile in the queue unless admission is exclusive.
\<close>

definition one_mac_profile :: "Demand list \<Rightarrow> bool" where
  "one_mac_profile ds \<longleftrightarrow>
     (\<forall>d \<in> set ds. \<forall>e \<in> set ds. Dem_Platform d = PlatformMacOS \<longrightarrow> Dem_Platform e = PlatformMacOS \<longrightarrow> Dem_Profile d = Dem_Profile e)"

definition sound_input :: "Input \<Rightarrow> bool" where
  "sound_input inp \<longleftrightarrow> envelope_wf inp (In_insts inp)
     \<and> list_all (\<lambda>(p, prof). Prof_ID prof = p \<and> Res_nonneg (Prof_Resources prof)) (Cfg_Profiles (In_Config inp))
     \<and> (Cfg_MacOSExclusive (In_Config inp) \<or> one_mac_profile (normalizedDemands inp))"

text \<open>What a spawn needs of the state it is planned in.\<close>

definition may_spawn :: "Input \<Rightarrow> Operation list \<Rightarrow> Demand \<Rightarrow> bool" where
  "may_spawn inp ops d \<longleftrightarrow>
     activeRepoCounts (after_plan inp ops) (Dem_Repo d) < repoCapLimit (Cfg_RepoCaps (In_Config inp)) (Dem_Repo d)
     \<and> (sound_input inp \<longrightarrow>
          CanFit (freeCapacity inp (after_plan inp ops) True) (vector_of (In_Config inp) d)
          \<and> (Dem_Platform d = PlatformMacOS \<longrightarrow>
               active_macs (after_plan inp ops) (Dem_Profile d) < macProfileLimit (profile_at (In_Config inp) (Dem_Profile d))))"

inductive planned :: "Input \<Rightarrow> Operation list \<Rightarrow> bool" for inp where
  planned_none: "planned inp []"
| planned_drain: "planned inp ops \<Longrightarrow> \<not> containsSpawn ops \<Longrightarrow> i \<in> set (In_insts inp) \<Longrightarrow>
    Inst_State i = InstanceOnlineIdle \<Longrightarrow> planned inp (ops @ [drainOperation i])"
| planned_spawn: "planned inp ops \<Longrightarrow> d \<in> set (normalizedDemands inp) \<Longrightarrow> Dem_Key d \<notin> set (spawnedDemands ops) \<Longrightarrow>
    may_spawn inp ops d \<Longrightarrow> spawns d q \<Longrightarrow> set (Op_DependsOn q) \<subseteq> Op_ID ` {r \<in> set ops. Op_Kind r = OperationDrain} \<Longrightarrow>
    planned inp (ops @ [q])"

section \<open>Occupancy\<close>

lemma spawns_spawnOperation [simp]: "spawns d (spawnOperation d deps)"
  by (simp add: spawns_def)

lemma spawnedDemands_simps [simp]:
  "spawnedDemands [] = []" "spawnedDemands (xs @ ys) = spawnedDemands xs @ spawnedDemands ys"
  "spawnedDemands [q] = (if Op_Kind q = OperationSpawn then [Op_Demand q] else [])"
  by (simp_all add: spawnedDemands_def)

lemma spawnedDemands_none: "\<not> containsSpawn ops \<Longrightarrow> spawnedDemands ops = []"
  by (auto simp: spawnedDemands_def containsSpawn_def list_ex_iff filter_empty_conv)

lemma drained_append [simp]: "drained (xs @ ys) i \<longleftrightarrow> drained xs i \<or> drained ys i"
  by (auto simp: drained_def)

lemma drained_spawn: "spawns d q \<Longrightarrow> \<not> drained [q] i"
  by (auto simp: drained_def spawns_def)

lemma after_plan_Nil [simp]: "after_plan inp [] = In_insts inp"
  by (simp add: after_plan_def appendPlannedSpawns_def drained_def)

lemma after_plan_spawn:
  "spawns d q \<Longrightarrow> after_plan inp (ops @ [q]) = after_plan inp ops @ [planned_instance (In_Config inp) q]"
  using drained_spawn by (auto simp: after_plan_def appendPlannedSpawns_def spawns_def)

lemma after_plan_drains: "\<not> containsSpawn ops \<Longrightarrow> after_plan inp ops = filter (\<lambda>i. \<not> drained ops i) (In_insts inp)"
  by (auto simp: after_plan_def appendPlannedSpawns_def containsSpawn_def list_ex_iff filter_empty_conv)

text \<open>A planned instance charges its repository, holds its profile's vector and counts as its profile.\<close>

lemma planned_instance_simps:
  assumes "spawns d q"
  shows "Inst_Repo (planned_instance cfg q) = Dem_Repo d" "charges_repo (planned_instance cfg q)"
    "ConsumesHostResources (planned_instance cfg q)" "Inst_Resources (planned_instance cfg q) = vector_of cfg d"
    "Inst_Platform (planned_instance cfg q) = Prof_Platform (profile_at cfg (Dem_Profile d))"
    "Inst_Profile (planned_instance cfg q) = Prof_ID (profile_at cfg (Dem_Profile d))"
  using assms
  by (simp_all add: planned_instance_def spawns_def Let_def charges_repo_def releasedItsRepositorySlot_def Live_def
      ConsumesHostResources_def TearingDown_def)

lemma activeRepoCounts_planned:
  "spawns d q \<Longrightarrow> activeRepoCounts (is @ [planned_instance cfg q]) = bump (activeRepoCounts is) (Dem_Repo d)"
  by (rule ext) (simp add: activeRepoCounts_eq planned_instance_simps bump_def)

lemma active_macs_append [simp]: "active_macs (xs @ ys) p = active_macs xs p + active_macs ys p"
  by (simp add: active_macs_def)

lemma active_macs_planned:
  "spawns d q \<Longrightarrow> active_macs [planned_instance cfg q] p =
     (if Prof_Platform (profile_at cfg (Dem_Profile d)) = PlatformMacOS \<and> Prof_ID (profile_at cfg (Dem_Profile d)) = p then 1 else 0)"
  by (simp add: active_macs_def consumes_mac_def planned_instance_simps)

section \<open>Sound inputs\<close>

lemma sound_profile:
  assumes "sound_input inp" and "profile_known (In_Config inp) p"
  shows "Prof_ID (profile_at (In_Config inp) p) = p" and "Res_nonneg (Prof_Resources (profile_at (In_Config inp) p))"
proof -
  obtain prof where p: "map_of (Cfg_Profiles (In_Config inp)) p = Some prof"
    using assms(2) by (auto simp: profile_known_def)
  with map_of_SomeD [OF p] assms(1)
  show "Prof_ID (profile_at (In_Config inp) p) = p" "Res_nonneg (Prof_Resources (profile_at (In_Config inp) p))"
    by (auto simp: sound_input_def profile_at_def list_all_iff)
qed

lemma normalized_known:
  "d \<in> set (normalizedDemands inp) \<Longrightarrow> profile_known (In_Config inp) (Dem_Profile d)"
  "d \<in> set (normalizedDemands inp) \<Longrightarrow> Prof_Platform (profile_at (In_Config inp) (Dem_Profile d)) = Dem_Platform d"
  using normalized_props(2) by (auto simp: demand_refused_def)

lemma sound_demand:
  "sound_input inp \<Longrightarrow> d \<in> set (normalizedDemands inp) \<Longrightarrow> Res_nonneg (vector_of (In_Config inp) d)"
  "sound_input inp \<Longrightarrow> d \<in> set (normalizedDemands inp) \<Longrightarrow> Prof_ID (profile_at (In_Config inp) (Dem_Profile d)) = Dem_Profile d"
  using sound_profile normalized_known by blast+

lemma sound_after_plan: 
  assumes "planned inp ops" and "sound_input inp"
  shows "envelope_wf inp (after_plan inp ops)"
  using assms
proof induction
  case planned_none
  then show ?case by (simp add: sound_input_def)
next
  case (planned_drain ops i)
  then have "envelope_wf inp (In_insts inp)" by (simp add: sound_input_def)
  with planned_drain show ?case by (simp add: after_plan_drains envelope_wf_filter)
next
  case (planned_spawn ops d q)
  then show ?case by (simp add: after_plan_spawn planned_instance_simps sound_demand)
qed

section \<open>The ledger a pass keeps\<close>

text \<open>
  A pass counts admissions per repository and subtracts vectors from a copy of the envelope. Its
  ledger is sound for the state behind a prefix of the plan when it admits no more than that state does.
\<close>

definition ledger :: "Input \<Rightarrow> Operation list \<Rightarrow> counts \<Rightarrow> Resources set \<Rightarrow> bool" where
  "ledger inp ops counts envelopes \<longleftrightarrow>
     (\<forall>r. activeRepoCounts (after_plan inp ops) r \<le> counts r)
     \<and> (sound_input inp \<longrightarrow> (\<forall>e \<in> envelopes. CanFit (freeCapacity inp (after_plan inp ops) True) e))"

lemma ledger_mono:
  assumes "ledger inp ops counts A" and "\<And>r. counts r \<le> counts' r" and "\<And>b. b \<in> B \<Longrightarrow> \<exists>a \<in> A. CanFit a b"
  shows "ledger inp ops counts' B"
  using assms unfolding ledger_def by (meson CanFit_trans order_trans)

definition queue_ok :: "Input \<Rightarrow> Operation list \<Rightarrow> Demand list \<Rightarrow> bool" where
  "queue_ok inp ops ds \<longleftrightarrow> distinct (map Dem_Key ds) \<and> set ds \<subseteq> set (normalizedDemands inp)
     \<and> Dem_Key ` set ds \<inter> set (spawnedDemands ops) = {}"

definition mac_room :: "Input \<Rightarrow> Operation list \<Rightarrow> Demand \<Rightarrow> bool" where
  "mac_room inp ops d \<longleftrightarrow> (sound_input inp \<longrightarrow> Dem_Platform d = PlatformMacOS \<longrightarrow>
     active_macs (after_plan inp ops) (Dem_Profile d) < macProfileLimit (profile_at (In_Config inp) (Dem_Profile d)))"

lemma Res_Sub_fits_left: "CanFit F x \<Longrightarrow> Res_nonneg (fst (Res_Sub F x)) \<Longrightarrow> CanFit F a \<Longrightarrow> CanFit (fst (Res_Sub F x)) (fst (Res_Sub a x))"
  by (auto simp: CanFit_def Res_Sub_def Res_nonneg_def)

lemma freeCapacity_spawn:
  assumes "planned inp ops" and s: "sound_input inp" and d: "d \<in> set (normalizedDemands inp)" and q: "spawns d q"
    and fit: "CanFit (freeCapacity inp (after_plan inp ops) True) (vector_of (In_Config inp) d)"
  shows "CanFit (freeCapacity inp (after_plan inp (ops @ [q])) True)
    (fst (Res_Sub (freeCapacity inp (after_plan inp ops) True) (vector_of (In_Config inp) d)))"
  using freeCapacity_charge [of inp "after_plan inp ops" "planned_instance (In_Config inp) q" True]
    sound_after_plan [OF assms(1) s] sound_demand(1) [OF s d] fit q
  by (simp add: after_plan_spawn planned_instance_simps)

text \<open>One admission: a spawn of the machine, and the ledger with it booked.\<close>

lemma admit_step:
  assumes run: "planned inp ops" and led: "ledger inp ops counts A"
    and d: "d \<in> set (normalizedDemands inp)" "Dem_Key d \<notin> set (spawnedDemands ops)"
    and cap: "counts (Dem_Repo d) < repoCapLimit (Cfg_RepoCaps (In_Config inp)) (Dem_Repo d)"
    and fit: "sound_input inp \<Longrightarrow> \<exists>e \<in> A. CanFit e (vector_of (In_Config inp) d)" and mac: "mac_room inp ops d"
    and q: "spawns d q" "set (Op_DependsOn q) \<subseteq> Op_ID ` {r \<in> set ops. Op_Kind r = OperationDrain}"
    and v: "sound_input inp \<Longrightarrow> v = vector_of (In_Config inp) d"
  shows "planned inp (ops @ [q])"
    and "ledger inp (ops @ [q]) (bump counts (Dem_Repo d)) ((\<lambda>e. fst (Res_Sub e v)) ` A)"
proof -
  let ?F = "freeCapacity inp (after_plan inp ops) True"
  have fits: "CanFit ?F (vector_of (In_Config inp) d)" if "sound_input inp"
    using led fit that CanFit_trans unfolding ledger_def by blast
  have "activeRepoCounts (after_plan inp ops) (Dem_Repo d) < repoCapLimit (Cfg_RepoCaps (In_Config inp)) (Dem_Repo d)"
    using led cap unfolding ledger_def by (meson le_less_trans)
  then have "may_spawn inp ops d" using fits mac by (simp add: may_spawn_def mac_room_def)
  then show "planned inp (ops @ [q])" using planned_spawn [OF run d] q by blast
  have "CanFit (freeCapacity inp (after_plan inp (ops @ [q])) True) (fst (Res_Sub e v))" if s: "sound_input inp" and "e \<in> A" for e
  proof -
    have "Res_nonneg (fst (Res_Sub ?F v))"
      using fits [OF s] v [OF s] by (auto simp: Res_Sub_def CanFit_def Res_nonneg_def)
    moreover have "CanFit ?F e" using led that by (simp add: ledger_def)
    ultimately have "CanFit (fst (Res_Sub ?F v)) (fst (Res_Sub e v))" using fits v s by (simp add: Res_Sub_fits_left)
    then show ?thesis using freeCapacity_spawn [OF run s d(1) q(1) fits [OF s]] v [OF s] CanFit_trans by blast
  qed
  moreover have "activeRepoCounts (after_plan inp (ops @ [q])) r \<le> bump counts (Dem_Repo d) r" for r
    using led q(1) by (simp add: ledger_def after_plan_spawn activeRepoCounts_planned bump_def)
  ultimately show "ledger inp (ops @ [q]) (bump counts (Dem_Repo d)) ((\<lambda>e. fst (Res_Sub e v)) ` A)"
    by (simp add: ledger_def)
qed

text \<open>How a pass labels the spawns it plans behind a prefix.\<close>

definition labels :: "Operation list \<Rightarrow> (Demand \<Rightarrow> Operation) \<Rightarrow> bool" where
  "labels ops mk \<longleftrightarrow> (\<forall>d. spawns d (mk d) \<and> set (Op_DependsOn (mk d)) \<subseteq> Op_ID ` {r \<in> set ops. Op_Kind r = OperationDrain})"

lemma labels_more: "labels ops mk \<Longrightarrow> labels (ops @ ops') mk"
  unfolding labels_def by auto

lemma labels_spawnOperation: "labels ops (\<lambda>d. spawnOperation d deps) \<longleftrightarrow> set deps \<subseteq> Op_ID ` {r \<in> set ops. Op_Kind r = OperationDrain}"
  by (simp add: labels_def)

lemma queue_ok_Cons: "queue_ok inp ops (d # ds) \<Longrightarrow> spawns d q \<Longrightarrow>
    d \<in> set (normalizedDemands inp) \<and> Dem_Key d \<notin> set (spawnedDemands ops) \<and> queue_ok inp (ops @ [q]) ds"
  by (auto simp: queue_ok_def spawns_def)

lemma queue_ok_subset: "queue_ok inp ops ds \<Longrightarrow> distinct (map Dem_Key xs) \<Longrightarrow> set xs \<subseteq> set ds \<Longrightarrow> queue_ok inp ops xs"
  by (auto simp: queue_ok_def)

lemma queue_ok_filter [intro]: "queue_ok inp ops ds \<Longrightarrow> queue_ok inp ops (filter P ds)"
  by (auto simp: queue_ok_def distinct_map_filterI)

lemma queue_ok_mset: "mset xs = mset ds \<Longrightarrow> queue_ok inp ops ds \<Longrightarrow> queue_ok inp ops xs"
  unfolding queue_ok_def by (metis distinct_map_mset set_mset_mset)

lemma queue_ok_priorityOrder [intro]: "queue_ok inp ops ds \<Longrightarrow> queue_ok inp ops (priorityOrder inp' ds)"
  by (rule queue_ok_mset [OF mset_priorityOrder])

lemma queue_ok_subseq: "queue_ok inp ops ds \<Longrightarrow> subseq xs ds \<Longrightarrow> queue_ok inp ops xs"
proof -
  assume ok: "queue_ok inp ops ds" and "subseq xs ds"
  then obtain N where xs: "xs = nths ds N" by (auto simp: subseq_conv_nths)
  have "distinct (map Dem_Key xs)" using ok by (simp add: xs queue_ok_def nths_map [symmetric] distinct_nthsI)
  then show ?thesis by (rule queue_ok_subset [OF ok]) (simp add: xs set_nths_subset)
qed

text \<open>A packing the ledger allows is a run of spawns; Linux demands need no room in a cohort.\<close>

lemma packs_planned:
  assumes "planned inp ops" and "ledger inp ops counts {free}" and "queue_ok inp ops ds"
    and "packs (In_Config inp) n free counts ds" and "\<forall>d \<in> set ds. Dem_Platform d = PlatformLinux" and "labels ops mk"
  shows "planned inp (ops @ map mk ds)"
  using assms
proof (induction ds arbitrary: ops n free counts)
  case (Cons d ds)
  have q: "spawns d (mk d)" "set (Op_DependsOn (mk d)) \<subseteq> Op_ID ` {r \<in> set ops. Op_Kind r = OperationDrain}"
    using Cons.prems(6) by (simp_all add: labels_def)
  have qk: "d \<in> set (normalizedDemands inp)" "Dem_Key d \<notin> set (spawnedDemands ops)" "queue_ok inp (ops @ [mk d]) ds"
    using queue_ok_Cons [OF Cons.prems(3) q(1)] by simp_all
  have "mac_room inp ops d" using Cons.prems(5) by (simp add: mac_room_def)
  from admit_step [OF Cons.prems(1,2) qk(1,2) _ _ this q refl] Cons.prems(4)
  have step: "planned inp (ops @ [mk d])"
    "ledger inp (ops @ [mk d]) (bump counts (Dem_Repo d)) {fst (Res_Sub free (vector_of (In_Config inp) d))}" by simp_all
  from Cons.IH [OF step qk(3) _ _ labels_more [OF Cons.prems(6)], of "n - 1"] Cons.prems(4,5) show ?case by simp
qed simp

section \<open>Views\<close>

text \<open>
  A pass runs on an input whose instance list anticipates what was planned before it. The view is
  sound when nothing but the instances differs and they occupy at least what the plan leaves.
\<close>

definition view :: "Input \<Rightarrow> Operation list \<Rightarrow> Input \<Rightarrow> bool" where
  "view inp ops inp' \<longleftrightarrow>
     In_Now inp' = In_Now inp \<and> In_Config inp' = In_Config inp \<and> In_Demands inp' = In_Demands inp
     \<and> In_Host inp' = In_Host inp \<and> In_Prior inp' = In_Prior inp
     \<and> (\<forall>r. activeRepoCounts (after_plan inp ops) r \<le> activeRepoCounts (In_insts inp') r)
     \<and> (\<forall>p. active_macs (after_plan inp ops) p \<le> active_macs (In_insts inp') p)
     \<and> (sound_input inp \<longrightarrow> (\<forall>aged. CanFit (freeCapacity inp (after_plan inp ops) aged) (freeCapacity inp (In_insts inp') aged)))"

lemma view_sel:
  assumes "view inp ops inp'"
  shows "In_Now inp' = In_Now inp" "In_Config inp' = In_Config inp" "In_Demands inp' = In_Demands inp"
    "In_Host inp' = In_Host inp" "In_Prior inp' = In_Prior inp"
  using assms by (simp_all add: view_def)

lemma freeCapacity_cong:
  "In_Config inp' = In_Config inp \<Longrightarrow> In_Host inp' = In_Host inp \<Longrightarrow> freeCapacity inp' is aged = freeCapacity inp is aged"
  by (simp add: freeCapacity_def elasticFree_def staticFree_def Let_def cong: option.case_cong)

lemma normalizedDemands_cong:
  assumes "In_Now inp' = In_Now inp" "In_Config inp' = In_Config inp" "In_Demands inp' = In_Demands inp"
  shows "normalizedDemands inp' = normalizedDemands inp"
proof -
  have "demand_refused inp' = demand_refused inp" by (rule ext) (simp add: demand_refused_def assms)
  then have "admit_demands inp' seen ds = admit_demands inp seen ds" for seen ds
    by (induction ds arbitrary: seen) simp_all
  then show ?thesis by (simp add: normalizedDemands_def assms)
qed

lemma clamp_slots_fits: "CanFit f (clamp_slots n f)"
  by (simp add: CanFit_def)

lemma view_ledger:
  assumes "view inp ops inp'"
  shows "ledger inp ops (activeRepoCounts (In_insts inp')) {linuxFreeAged inp', linuxFree inp'}"
proof -
  have eq: "freeCapacity inp' is aged = freeCapacity inp is aged" for "is" aged
    using assms by (intro freeCapacity_cong) (simp_all add: view_def)
  have "CanFit (freeCapacity inp (In_insts inp') True) (freeCapacity inp (In_insts inp') False)"
    by (rule freeCapacity_aged_fits)
  with assms CanFit_trans show ?thesis
    unfolding ledger_def view_def linuxFreeAged_def linuxFree_def eq by blast
qed

lemma view_refl: "view inp [] inp"
  by (simp add: view_def)

lemma activeRepoCounts_filter_le: "activeRepoCounts (filter P is) r \<le> activeRepoCounts is r"
  by (induction "is") (auto simp: activeRepoCounts_eq)

lemma active_macs_filter_le: "active_macs (filter P is) p \<le> active_macs is p"
  by (induction "is") (auto simp: active_macs_def)

text \<open>Occupancy that was drained and not yet released is still a sound view.\<close>

lemma view_drains:
  assumes "\<not> containsSpawn ops"
  shows "view inp ops inp"
  using freeCapacity_filter
  by (auto simp: view_def after_plan_drains [OF assms] activeRepoCounts_filter_le active_macs_filter_le sound_input_def)

lemma view_after: "view inp ops (with_instances inp (after_plan inp ops))"
  by (simp add: view_def Fresh_def)

text \<open>Charging the reserved head takes a repository slot and a place in a cohort, and no vector.\<close>

lemma view_reserved:
  assumes run: "planned inp ops" and v: "view inp ops inp'" and wf: "sound_input inp \<longrightarrow> envelope_wf inp (In_insts inp')"
  shows "view inp ops (chargeReservedHead inp' r)"
proof (cases r)
  case (Some res)
  let ?i = "reserved_charge (In_Config inp') res"
  have "0 \<le> activeRepoCounts [?i] rp" "0 \<le> active_macs [?i] p" for rp p
    by (simp_all add: activeRepoCounts_eq active_macs_def)
  moreover have "freeCapacity inp (In_insts inp' @ [?i]) aged = freeCapacity inp (In_insts inp') aged" if "sound_input inp" for aged
    using wf that by (intro freeCapacity_charge_zero) (simp_all add: reserved_charge_def Let_def zero_Instance_def)
  ultimately show ?thesis
    using v Some unfolding view_def chargeReservedHead_def
    by (auto simp: Fresh_def intro: add_increasing2)
qed (use v in \<open>simp add: chargeReservedHead_def\<close>)

end
