(* ===== verification/Pass_Refinement.thy ===== *)
theory Pass_Refinement
  imports Admission_Machine
begin

text \<open>
  Every pass of the planner is a run of the admission machine: the exact allocator, the Linux pass with
  its reservation and backfill, the macOS pass, the drains and handoffs, the complementary passes and
  the two lanes of a tick.
\<close>

section \<open>The Linux pass\<close>

lemma exactSelect_packs:
  "subseq (exactSelect now cs free counts cfg) cs"
  "packs cfg (min (Slots free) admissionsPerTick) free counts (exactSelect now cs free counts cfg)"
proof -
  let ?n = "min (Slots free) admissionsPerTick" and ?js = "exactSelect_indices now cs free counts cfg"
  have "?js \<in> insert [] (explored cfg ?n (zip [0..<length cs] cs) free counts [])"
    using search_best(1) [OF admission_order.less_order_axioms, of "admissionBands now cs cfg" "num_bands (admissionBands now cs cfg)"
        "[]" cfg ?n "zip [0..<length cs] cs" free counts "[]"]
    by (simp add: best_of_def exactSelect_indices_def Let_def)
  then obtain ext where ext: "?js = map fst ext" "subseq ext (zip [0..<length cs] cs)" "packs cfg ?n free counts (map snd ext)"
  proof
    assume "?js = []"
    then show thesis using that [of "[]"] by simp
  qed (auto simp: explored_def that)
  from ext(2) have "map (\<lambda>i. cs ! i) (map fst ext) = map snd ext" by (auto simp: subseq_indexed)
  then have sel: "exactSelect now cs free counts cfg = map snd ext" by (simp add: exactSelect_def ext(1))
  have "subseq (map snd ext) (map snd (zip [0..<length cs] cs))" using ext(2) by (rule subseq_map)
  then show "subseq (exactSelect now cs free counts cfg) cs" by (simp add: sel)
  show "packs cfg ?n free counts (exactSelect now cs free counts cfg)" using ext(3) by (simp add: sel)
qed

lemma subseq_set: "subseq xs ys \<Longrightarrow> set xs \<subseteq> set ys"
  by (metis set_nths_subset subseq_conv_nths)

definition linux_only :: "Demand list \<Rightarrow> bool" where
  "linux_only ds \<longleftrightarrow> (\<forall>d \<in> set ds. Dem_Platform d = PlatformLinux)"

lemma exactSelect_planned:
  assumes "planned inp ops" and "ledger inp ops counts {free}" and "queue_ok inp ops cs" and "linux_only cs" and "labels ops mk"
  shows "planned inp (ops @ map mk (exactSelect now cs free counts (In_Config inp)))"
proof (rule packs_planned [OF assms(1,2) _ exactSelect_packs(2) _ assms(5)])
  note sub = exactSelect_packs(1) [of now cs free counts "In_Config inp"]
  show "queue_ok inp ops (exactSelect now cs free counts (In_Config inp))" by (rule queue_ok_subseq [OF assms(3) sub])
  show "\<forall>d \<in> set (exactSelect now cs free counts (In_Config inp)). Dem_Platform d = PlatformLinux"
    using subseq_set [OF sub] assms(4) by (auto simp: linux_only_def)
qed

lemma foldl_bump: "foldl (\<lambda>m k. bump m (Key_Repo k)) base ks = (\<lambda>r. base r + int (length (filter (\<lambda>k. Key_Repo k = r) ks)))"
  by (induction ks arbitrary: base) (auto simp: bump_def fun_eq_iff)

abbreviation spawn_all :: "Demand list \<Rightarrow> Operation list" where
  "spawn_all ds \<equiv> map (\<lambda>d. spawnOperation d []) ds"

lemma spawnedDemands_map: "\<forall>d. spawns d (mk d) \<Longrightarrow> spawnedDemands (map mk ds) = map Dem_Key ds"
  by (induction ds) (auto simp: spawnedDemands_def spawns_def)

lemma spawnedDemands_spawn_all [simp]: "spawnedDemands (map (\<lambda>d. spawnOperation d deps) ds) = map Dem_Key ds"
  by (rule spawnedDemands_map) simp

definition counts_of :: "Input \<Rightarrow> Demand list \<Rightarrow> counts" where
  "counts_of inp sel = (\<lambda>r. activeRepoCounts (In_insts inp) r + repo_demands r sel)"

lemma counts_of_selected:
  "foldl (\<lambda>m k. bump m (Key_Repo k)) (activeRepoCounts (In_insts inp)) (map Dem_Key sel) = counts_of inp sel"
  by (simp add: foldl_bump counts_of_def repo_demands_def filter_map comp_def)

lemma counts_of_snoc: "counts_of inp (sel @ [d]) = bump (counts_of inp sel) (Dem_Repo d)"
  by (auto simp: counts_of_def repo_demands_def bump_def)

lemma counts_of_Nil [simp]: "counts_of inp [] = activeRepoCounts (In_insts inp)"
  by (simp add: counts_of_def repo_demands_def)

text \<open>The backfill beside a reservation, behind the demands already selected.\<close>

lemma safeBackfill_planned:
  assumes cfg: "In_Config inp' = In_Config inp" and lab: "labels ops mk"
    and run: "planned inp (ops @ map mk sel)" and led: "ledger inp (ops @ map mk sel) (counts_of inp' sel) {free}"
    and q: "queue_ok inp ops demands" "linux_only demands"
  shows "\<exists>sel'. safeBackfill inp' demands free (activeRepoCounts (In_insts inp')) reservation (map Dem_Key sel) = spawn_all sel'
    \<and> planned inp (ops @ map mk (sel @ sel'))"
proof -
  let ?cs = "priorityOrder inp' (filter (\<lambda>d. \<not> Dem_Key d \<in> set (Rv_Demand reservation # map Dem_Key sel)
    \<and> \<not> jumpsTheReservedHead (In_Config inp') reservation (fst (Res_Sub free (Rv_Resources reservation)))
        (snd (Res_Sub free (Rv_Resources reservation))) d) demands)"
  let ?sel = "exactSelect (In_Now inp') ?cs free (counts_of inp' sel) (In_Config inp)"
  have "spawnedDemands (map mk sel) = map Dem_Key sel" using lab by (intro spawnedDemands_map) (simp add: labels_def)
  then have "queue_ok inp (ops @ map mk sel) ?cs"
    using q(1) by (intro queue_ok_priorityOrder) (auto simp: queue_ok_def distinct_map_filterI)
  moreover have "linux_only ?cs" using q(2) by (auto simp: linux_only_def)
  ultimately have "planned inp ((ops @ map mk sel) @ map mk ?sel)"
    using run led labels_more [OF lab] by (intro exactSelect_planned)
  moreover have "safeBackfill inp' demands free (activeRepoCounts (In_insts inp')) reservation (map Dem_Key sel) = spawn_all ?sel"
    by (simp only: safeBackfill_def Let_def counts_of_selected cfg split_beta)
  ultimately show ?thesis by (intro exI [of _ ?sel]) simp
qed

text \<open>The aged band, admitted in order until a head has to be reserved.\<close>

lemma admit_aged_planned:
  assumes "In_Config inp' = In_Config inp" and lab: "labels ops mk"
    and "Plan_Operations plan = P @ spawn_all sel" and P: "\<not> containsSpawn P" and "planned inp (ops @ map mk sel)"
    and "ledger inp (ops @ map mk sel) (counts_of inp' sel) {agedFree, free}" and "queue_ok inp (ops @ map mk sel) cands"
    and "linux_only cands" and q: "queue_ok inp ops demands" "linux_only demands"
  shows "\<exists>sel'. Plan_Operations (admit_aged inp' demands (activeRepoCounts (In_insts inp')) n cands agedFree free plan) = P @ spawn_all sel'
    \<and> planned inp (ops @ map mk sel')"
  using assms(3,5-8)
proof (induction cands arbitrary: sel agedFree free plan)
  case (Cons d rest)
  let ?v = "vector_of (In_Config inp') d" and ?base = "activeRepoCounts (In_insts inp')"
  let ?selected = "spawnedDemands (Plan_Operations plan)"
  let ?axis = "admissionAxis ?v agedFree (Dem_Repo d) ?base ?selected (Cfg_RepoCaps (In_Config inp'))"
  have selected: "?selected = map Dem_Key sel" using Cons.prems(1) P by (simp add: spawnedDemands_none)
  consider "int (length (Plan_Operations plan)) - int n \<ge> admissionsPerTick"
    | "\<not> int (length (Plan_Operations plan)) - int n \<ge> admissionsPerTick" "?axis \<noteq> ReservationAxisNone"
    | "\<not> int (length (Plan_Operations plan)) - int n \<ge> admissionsPerTick" "?axis = ReservationAxisNone" by blast
  then show ?case
  proof cases
    case 1
    then show ?thesis using Cons.prems by auto
  next
    case 2
    let ?r = "\<lparr>Rv_Demand = Dem_Key d, Rv_Profile = Dem_Profile d, Rv_Resources = ?v, Rv_Since = In_Now inp'\<rparr>"
    have "ledger inp (ops @ map mk sel) (counts_of inp' sel) {free}" by (rule ledger_mono [OF Cons.prems(3)]) auto
    from safeBackfill_planned [OF assms(1) lab Cons.prems(2) this q, of ?r]
    obtain sel' where sel': "safeBackfill inp' demands free ?base ?r ?selected = spawn_all sel'" "planned inp (ops @ map mk (sel @ sel'))"
      by (auto simp: selected)
    with 2 Cons.prems(1) show ?thesis by (intro exI [of _ "sel @ sel'"]) (simp add: append_backfill_def Let_def)
  next
    case 3
    have spawns: "spawns d (mk d)" "set (Op_DependsOn (mk d)) \<subseteq> Op_ID ` {r \<in> set (ops @ map mk sel). Op_Kind r = OperationDrain}"
      using labels_more [OF lab, of "map mk sel"] by (simp_all add: labels_def)
    note qk = queue_ok_Cons [OF Cons.prems(4) spawns(1)]
    have fits: "CanFit agedFree ?v" and cap: "counts_of inp' sel (Dem_Repo d) < repoCapLimit (Cfg_RepoCaps (In_Config inp)) (Dem_Repo d)"
      using 3(2) assms(1) by (simp_all add: admissionAxis_None_iff selected counts_of_def repo_demands_def filter_map comp_def)
    have "mac_room inp (ops @ map mk sel) d" using Cons.prems(5) by (simp add: mac_room_def linux_only_def)
    from admit_step [OF Cons.prems(2,3) _ _ cap _ this spawns, of ?v] qk fits assms(1)
    have step: "planned inp (ops @ map mk (sel @ [d]))"
      "ledger inp (ops @ map mk (sel @ [d])) (counts_of inp' (sel @ [d])) {fst (Res_Sub agedFree ?v), fst (Res_Sub free ?v)}"
      by (simp_all add: counts_of_snoc)
    have "(case Res_Sub free ?v of (remaining, ok) \<Rightarrow> if ok then remaining else zero_Resources) = fst (Res_Sub free ?v)"
      by (simp add: Res_Sub_def)
    with Cons.IH [OF _ step] 3 qk Cons.prems(1,5) show ?thesis by (simp add: linux_only_def Let_def)
  qed
qed auto

lemma subseq_consumeCompatibleIdle: "subseq (consumeCompatibleIdle ds is) ds"
  by (simp add: consumeCompatibleIdle_def subseq_consume_idle)

lemma besideAgedForeignHead_subseq: "subseq (besideAgedForeignHead inp cs foreign) cs"
  by (simp add: besideAgedForeignHead_def Let_def split_beta subseq_filter_left)

lemma linux_only_subseq: "linux_only ds \<Longrightarrow> subseq xs ds \<Longrightarrow> linux_only xs"
  unfolding linux_only_def using subseq_set by blast

lemma linux_only_mset: "linux_only ds \<Longrightarrow> mset xs = mset ds \<Longrightarrow> linux_only xs"
  unfolding linux_only_def by (metis set_mset_mset)

lemma planLinux_fresh_planned:
  assumes cfg: "In_Config inp' = In_Config inp" and run: "planned inp ops" "labels ops mk"
    and led: "ledger inp ops (activeRepoCounts (In_insts inp')) {agedFree, free}"
    and P: "\<not> containsSpawn (Plan_Operations plan)" and q: "queue_ok inp ops ds" "linux_only ds"
  shows "\<exists>sel. Plan_Operations (planLinux_fresh inp' plan ds free agedFree (activeRepoCounts (In_insts inp'))) =
      Plan_Operations plan @ spawn_all sel \<and> planned inp (ops @ map mk sel)"
proof -
  let ?aged = "filter (demandAged (In_Now inp') (In_aged inp')) ds" and ?young = "filter (\<lambda>d. \<not> demandAged (In_Now inp') (In_aged inp') d) ds"
  let ?ordered = "youngPriorityOrder inp' ?young (St_DRRCursor (In_Prior inp')) (In_Config inp')"
  have sub: "linux_only ?aged" "linux_only ?young" using q(2) by (auto simp: linux_only_def)
  show ?thesis
  proof (cases "?aged = []")
    case False
    have "queue_ok inp ops (agedQueueOrder inp' ?aged)" "linux_only (agedQueueOrder inp' ?aged)"
      by (rule queue_ok_mset [OF mset_agedQueueOrder queue_ok_filter [OF q(1)]])
        (rule linux_only_mset [OF sub(1) mset_agedQueueOrder])
    with admit_aged_planned [OF cfg run(2) _ P, of plan "[]" agedFree free "agedQueueOrder inp' ?aged" ds "length (Plan_Operations plan)"]
      run(1) led q False show ?thesis by (simp add: planLinux_fresh_def splitAged_def)
  next
    case True
    have "queue_ok inp ops ?ordered" "linux_only ?ordered"
      by (rule queue_ok_mset [OF mset_youngPriorityOrder queue_ok_filter [OF q(1)]])
        (rule linux_only_mset [OF sub(2) mset_youngPriorityOrder])
    moreover have "ledger inp ops (activeRepoCounts (In_insts inp')) {free}" by (rule ledger_mono [OF led]) auto
    ultimately have "planned inp (ops @ map mk (exactSelect (In_Now inp') ?ordered free (activeRepoCounts (In_insts inp')) (In_Config inp)))"
      using run by (intro exactSelect_planned)
    with True cfg show ?thesis by (auto simp: planLinux_fresh_def splitAged_def Let_def)
  qed
qed

lemma planLinux_reserved_planned:
  assumes cfg: "In_Config inp' = In_Config inp" and run: "planned inp ops" and lab: "labels ops mk"
    and led: "ledger inp ops (activeRepoCounts (In_insts inp')) {agedFree, free}"
    and q: "queue_ok inp ops ds" "linux_only ds" and d: "d \<in> set ds"
  shows "\<exists>sel. Plan_Operations (planLinux_reserved inp' plan ds free agedFree (activeRepoCounts (In_insts inp')) d r) =
      Plan_Operations plan @ spawn_all sel \<and> planned inp (ops @ map mk sel)"
proof (cases "admissionAxis (vector_of (In_Config inp') d) agedFree (Dem_Repo d) (activeRepoCounts (In_insts inp')) []
    (Cfg_RepoCaps (In_Config inp')) = ReservationAxisNone")
  case True
  have spawns: "spawns d (mk d)" "set (Op_DependsOn (mk d)) \<subseteq> Op_ID ` {r \<in> set ops. Op_Kind r = OperationDrain}"
    using lab by (simp_all add: labels_def)
  have "mac_room inp ops d" using q(2) d by (simp add: mac_room_def linux_only_def)
  moreover have "d \<in> set (normalizedDemands inp)" "Dem_Key d \<notin> set (spawnedDemands ops)"
    using q(1) d by (auto simp: queue_ok_def)
  ultimately have "planned inp (ops @ [mk d])"
    using True cfg by (intro admit_step(1) [OF run led _ _ _ _ _ spawns refl]) (simp_all add: admissionAxis_None_iff)
  with True show ?thesis by (intro exI [of _ "[d]"]) (simp add: planLinux_reserved_def)
next
  case False
  have "ledger inp (ops @ map mk []) (counts_of inp' []) {free}" using led by (simp add: ledger_def)
  from safeBackfill_planned [OF cfg lab _ this q, of r] run
  obtain sel where "safeBackfill inp' ds free (activeRepoCounts (In_insts inp')) r [] = spawn_all sel" "planned inp (ops @ map mk sel)"
    by auto
  with False show ?thesis by (auto simp: planLinux_reserved_def append_backfill_def Let_def)
qed

lemma planLinux_planned:
  assumes v: "view inp ops inp'" and run: "planned inp ops" "labels ops mk"
    and P: "\<not> containsSpawn (Plan_Operations plan)" and q: "queue_ok inp ops ds0" "linux_only ds0"
  shows "\<exists>sel. Plan_Operations (planLinux inp' plan ds0) = Plan_Operations plan @ spawn_all sel \<and> planned inp (ops @ map mk sel)"
proof -
  let ?ds = "besideAgedForeignHead inp' (consumeCompatibleIdle ds0 (In_insts inp')) (foreignQueue inp' plan PlatformMacOS)"
  let ?free = "clamp_slots admissionsPerTick (linuxFree inp')" and ?agedFree = "clamp_slots admissionsPerTick (linuxFreeAged inp')"
  have cfg: "In_Config inp' = In_Config inp" using v by (rule view_sel)
  have sub: "subseq ?ds ds0"
    using besideAgedForeignHead_subseq subseq_consumeCompatibleIdle subseq_order.order_trans by blast
  note ok = queue_ok_subseq [OF q(1) sub] linux_only_subseq [OF q(2) sub]
  have led: "ledger inp ops (activeRepoCounts (In_insts inp')) {?agedFree, ?free}"
    by (rule ledger_mono [OF view_ledger [OF v]]) (use clamp_slots_fits in auto)
  note fresh = planLinux_fresh_planned [OF cfg run led _ ok, of "set_reservation None plan"]
  show ?thesis
  proof (cases "?ds = []")
    case True
    then show ?thesis using run(1) by (auto simp: planLinux_def Let_def)
  next
    case False
    show ?thesis
    proof (cases "reservedDemand (St_Reservation (In_Prior inp')) ?ds")
      case None
      with False fresh P show ?thesis by (simp add: planLinux_def Let_def split: option.split)
    next
      case (Some d)
      then obtain r where r: "St_Reservation (In_Prior inp') = Some r" and d: "d \<in> set ?ds"
        by (auto simp: reservedDemand_def find_Some_iff split: option.splits)
      show ?thesis
        using planLinux_reserved_planned [OF cfg run led ok d, of plan r] fresh P False Some r
        by (simp add: planLinux_def Let_def)
    qed
  qed
qed

section \<open>The macOS pass\<close>

definition mac_only :: "Demand list \<Rightarrow> bool" where
  "mac_only ds \<longleftrightarrow> (\<forall>d \<in> set ds. Dem_Platform d = PlatformMacOS)"

text \<open>All demands of a pass share its profile when the input is sound.\<close>

definition one_profile :: "Input \<Rightarrow> ProfileID \<Rightarrow> Demand list \<Rightarrow> bool" where
  "one_profile inp p ds \<longleftrightarrow> (sound_input inp \<longrightarrow> (\<forall>d \<in> set ds. Dem_Profile d = p))"

lemma active_macs_step:
  assumes "sound_input inp" and "d \<in> set (normalizedDemands inp)" and "spawns d q"
  shows "active_macs (after_plan inp (ops @ [q])) p \<le> active_macs (after_plan inp ops) p + 1"
  using assms by (simp add: after_plan_spawn active_macs_planned)

lemma select_macs_planned:
  assumes cfg: "In_Config inp' = In_Config inp" and lab: "labels ops mk" and p: "profile = profile_at (In_Config inp) p"
  shows "planned inp (ops @ map mk sel) \<Longrightarrow> ledger inp (ops @ map mk sel) counts {agedFree, free} \<Longrightarrow>
    queue_ok inp (ops @ map mk sel) ds \<Longrightarrow> one_profile inp p ds \<Longrightarrow>
    (sound_input inp \<longrightarrow> active_macs (after_plan inp (ops @ map mk sel)) p + available \<le> int (length sel) + macProfileLimit profile) \<Longrightarrow>
    planned inp (ops @ map mk (select_macs inp' profile available ds counts free agedFree sel))
    \<and> set (select_macs inp' profile available ds counts free agedFree sel) \<subseteq> set sel \<union> set ds"
proof (induction ds arbitrary: counts free agedFree sel)
  case (Cons d ds)
  let ?v = "Prof_Resources profile" and ?prefix = "ops @ map mk sel"
  have one: "one_profile inp p ds" using Cons.prems(4) by (simp add: one_profile_def)
  have q: "spawns d (mk d)" "set (Op_DependsOn (mk d)) \<subseteq> Op_ID ` {r \<in> set ?prefix. Op_Kind r = OperationDrain}"
    using labels_more [OF lab, of "map mk sel"] by (simp_all add: labels_def)
  note qk = queue_ok_Cons [OF Cons.prems(3) q(1)]
  consider (stop) "int (length sel) \<ge> available \<or> \<not> CanFit (demandEnvelope inp' d free agedFree) ?v"
    | (skip) "int (length sel) < available" "CanFit (demandEnvelope inp' d free agedFree) ?v"
        "counts (Dem_Repo d) \<ge> repoCapLimit (Cfg_RepoCaps (In_Config inp')) (Dem_Repo d)"
    | (take) "int (length sel) < available" "CanFit (demandEnvelope inp' d free agedFree) ?v"
        "counts (Dem_Repo d) < repoCapLimit (Cfg_RepoCaps (In_Config inp')) (Dem_Repo d)" by linarith
  then show ?case
  proof cases
    case stop
    then show ?thesis using Cons.prems(1) by auto
  next
    case skip
    have "queue_ok inp ?prefix ds" using Cons.prems(3) by (auto simp: queue_ok_def)
    from Cons.IH [OF Cons.prems(1,2) this one Cons.prems(5)] skip show ?thesis by auto
  next
    case take
    have prof: "sound_input inp \<Longrightarrow> Dem_Profile d = p" using Cons.prems(4) by (simp add: one_profile_def)
    have room: "mac_room inp ?prefix d" using prof p Cons.prems(5) take(1) by (auto simp: mac_room_def)
    have "\<exists>e \<in> {agedFree, free}. CanFit e ?v" using take(2) by (auto simp: demandEnvelope_def split: if_splits)
    then have step: "planned inp (?prefix @ [mk d])"
      "ledger inp (?prefix @ [mk d]) (bump counts (Dem_Repo d)) ((\<lambda>e. fst (Res_Sub e ?v)) ` {agedFree, free})"
      using admit_step [OF Cons.prems(1,2) _ _ _ _ room q, of ?v] qk take(3) cfg prof p by auto
    have free: "(case Res_Sub free ?v of (remaining, ok) \<Rightarrow> if ok then remaining else zero_Resources) = fst (Res_Sub free ?v)"
      by (simp add: Res_Sub_def)
    have "sound_input inp \<longrightarrow>
        active_macs (after_plan inp (ops @ map mk (sel @ [d]))) p + available \<le> int (length (sel @ [d])) + macProfileLimit profile"
      using active_macs_step [of inp d "mk d" ?prefix p] qk q(1) Cons.prems(5) by force
    from Cons.IH [OF _ _ _ one this] step qk take show ?thesis by (auto simp: free)
  qed
qed auto

lemma appendMacSpawns_planned:
  assumes v: "view inp ops inp'" and run: "planned inp ops" and deps: "set deps \<subseteq> Op_ID ` {r \<in> set ops. Op_Kind r = OperationDrain}"
    and P: "\<not> containsSpawn (Plan_Operations plan)" and q: "queue_ok inp ops ds0" and one: "one_profile inp p ds0"
  shows "\<exists>sel. Plan_Operations (appendMacSpawns inp' plan ds0 deps) = Plan_Operations plan @ map (\<lambda>d. spawnOperation d deps) sel
    \<and> planned inp (ops @ map (\<lambda>d. spawnOperation d deps) sel) \<and> set sel \<subseteq> set ds0"
proof -
  let ?ds = "besideAgedForeignHead inp' ds0 (foreignQueue inp' plan PlatformLinux)"
  let ?p = "Dem_Profile (hd ?ds)" and ?mk = "\<lambda>d. spawnOperation d deps"
  let ?profile = "profile_at (In_Config inp') ?p"
  let ?available = "macProfileLimit ?profile - active_macs (In_insts inp') (Prof_ID ?profile)"
  have cfg: "In_Config inp' = In_Config inp" using v by (rule view_sel)
  have sub: "subseq ?ds ds0" by (rule besideAgedForeignHead_subseq)
  have augmented: "appendPlannedSpawns (In_insts inp') (In_Config inp') (Plan_Operations plan) = In_insts inp'"
    using P by (auto simp: appendPlannedSpawns_def containsSpawn_def list_ex_iff filter_empty_conv)
  show ?thesis
  proof (cases "ds0 = [] \<or> ?ds = [] \<or> ?available \<le> 0")
    case True
    then show ?thesis using run by (intro exI [of _ "[]"]) (auto simp: appendMacSpawns_def Let_def)
  next
    case False
    have hd: "hd ?ds \<in> set ds0" using False subseq_set [OF sub] by auto
    then have known: "sound_input inp \<Longrightarrow> Prof_ID ?profile = ?p" using q sound_demand(2) cfg by (auto simp: queue_ok_def)
    let ?sel = "select_macs inp' ?profile ?available (priorityOrder inp' ?ds) (activeRepoCounts (In_insts inp')) (linuxFree inp') (linuxFreeAged inp') []"
    have "sound_input inp \<longrightarrow> active_macs (after_plan inp ops) ?p + ?available \<le> macProfileLimit ?profile"
      using v known by (auto simp: view_def)
    moreover have "one_profile inp ?p (priorityOrder inp' ?ds)"
      using one hd subseq_set [OF sub] by (auto simp: one_profile_def)
    ultimately have "planned inp (ops @ map ?mk ?sel) \<and> set ?sel \<subseteq> set ds0"
      using select_macs_planned [OF cfg, of ops ?mk ?profile ?p "[]" "activeRepoCounts (In_insts inp')" "linuxFreeAged inp'" "linuxFree inp'"
          "priorityOrder inp' ?ds" ?available] run view_ledger [OF v] queue_ok_priorityOrder [OF queue_ok_subseq [OF q sub]] deps cfg subseq_set [OF sub]
      by (auto simp: labels_spawnOperation)
    moreover have "Plan_Operations (appendMacSpawns inp' plan ds0 deps) = Plan_Operations plan @ map ?mk ?sel"
      using False by (simp add: appendMacSpawns_def Let_def augmented)
    ultimately show ?thesis by blast
  qed
qed

section \<open>Drains\<close>

definition to_drain :: "(Instance \<Rightarrow> bool) \<Rightarrow> Instance list \<Rightarrow> Instance list" where
  "to_drain vacate is = filter (\<lambda>i. vacate i \<and> Inst_State i = InstanceOnlineIdle) is"

lemma drain_loop_scan:
  "DS_drains (drain_loop vacate is s) = DS_drains s @ map drainOperation (to_drain vacate is)"
  "DS_filtered (drain_loop vacate is s) = filter (\<lambda>i. Inst_ID i \<notin> Inst_ID ` set (to_drain vacate is)) (DS_filtered s)"
  "DS_allIdle (drain_loop vacate is s) \<longleftrightarrow> DS_allIdle s \<and> (\<forall>i \<in> set is. vacate i \<longrightarrow> Inst_State i = InstanceOnlineIdle)"
proof -
  have rm: "filter (\<lambda>j. Inst_ID j \<notin> S) (removeInstance xs k) = filter (\<lambda>j. Inst_ID j \<noteq> k \<and> Inst_ID j \<notin> S) xs" for S xs k
    by (simp add: removeInstance_def conj_commute)
  show "DS_drains (drain_loop vacate is s) = DS_drains s @ map drainOperation (to_drain vacate is)"
    by (induction vacate "is" s rule: drain_loop.induct) (auto simp: to_drain_def)
  show "DS_filtered (drain_loop vacate is s) = filter (\<lambda>i. Inst_ID i \<notin> Inst_ID ` set (to_drain vacate is)) (DS_filtered s)"
    by (induction vacate "is" s rule: drain_loop.induct) (auto simp: to_drain_def rm)
  show "DS_allIdle (drain_loop vacate is s) \<longleftrightarrow> DS_allIdle s \<and> (\<forall>i \<in> set is. vacate i \<longrightarrow> Inst_State i = InstanceOnlineIdle)"
    by (induction vacate "is" s rule: drain_loop.induct) auto
qed

lemma drained_map: "drained (map drainOperation xs) i \<longleftrightarrow> Inst_ID i \<in> Inst_ID ` set xs"
  unfolding drained_def by (auto simp: image_iff) metis+

lemma scan_drains_eq:
  "DS_drains (scan_drains vacate is) = map drainOperation (to_drain vacate (sortedInstances is))"
  "DS_filtered (scan_drains vacate is) = filter (\<lambda>i. \<not> drained (DS_drains (scan_drains vacate is)) i) is"
  "DS_allIdle (scan_drains vacate is) \<longleftrightarrow> (\<forall>i \<in> set is. vacate i \<longrightarrow> Inst_State i = InstanceOnlineIdle)"
  by (simp_all add: scan_drains_def drain_loop_scan drained_map sortedInstances_def)

lemma drains_no_spawn [simp]: "\<not> containsSpawn (DS_drains (scan_drains vacate is))" "\<not> containsSpawn (map drainOperation xs)"
  by (auto simp: scan_drains_eq containsSpawn_def list_ex_iff)

lemma drains_planned: "planned inp (map drainOperation xs)"
  if "\<forall>i \<in> set xs. i \<in> set (In_insts inp) \<and> Inst_State i = InstanceOnlineIdle"
  using that by (induction xs rule: rev_induct) (auto intro: planned.intros)

lemma scan_planned:
  fixes inp vacate
  defines "scan \<equiv> scan_drains vacate (In_insts inp)"
  shows "planned inp (DS_drains scan)" and "view inp (DS_drains scan) (with_instances inp (DS_filtered scan))"
    and "set (operationIDs (DS_drains scan)) \<subseteq> Op_ID ` {r \<in> set (DS_drains scan). Op_Kind r = OperationDrain}"
proof -
  show "planned inp (DS_drains scan)"
    unfolding scan_def scan_drains_eq(1) by (rule drains_planned) (auto simp: to_drain_def sortedInstances_def)
  have "DS_filtered scan = after_plan inp (DS_drains scan)"
    unfolding scan_def by (subst after_plan_drains) (simp_all add: scan_drains_eq(2))
  then show "view inp (DS_drains scan) (with_instances inp (DS_filtered scan))" by (simp only: view_after)
  show "set (operationIDs (DS_drains scan)) \<subseteq> Op_ID ` {r \<in> set (DS_drains scan). Op_Kind r = OperationDrain}"
    by (auto simp: scan_def scan_drains_eq(1) operationIDs_def)
qed

lemma planned_prefix: "planned inp (xs @ ys) \<Longrightarrow> planned inp xs"
proof (induction ys rule: rev_induct)
  case (snoc y ys)
  from snoc.prems have "planned inp ((xs @ ys) @ [y])" by simp
  then have "planned inp (xs @ ys)" by (cases rule: planned.cases) auto
  then show ?case by (rule snoc.IH)
qed simp

section \<open>The macOS lane\<close>

lemma demandsForProfile_ok:
  "queue_ok inp ops ds \<Longrightarrow> queue_ok inp ops (demandsForProfile ds p)" "one_profile inp p (demandsForProfile ds p)"
  by (auto simp: demandsForProfile_def one_profile_def)

lemma planMacOS_planned:
  assumes "planMacOS inp plan ds = Some plan'" and empty: "Plan_Operations plan = []" and q: "queue_ok inp [] ds"
  shows "planned inp (Plan_Operations plan')"
proof -
  let ?deps = "\<lambda>p. scan_drains (\<lambda>i. consumes_mac i \<and> Inst_Profile i \<noteq> p) (In_insts inp)"
  obtain p where p: "chosenMacProfile inp ds = Some p" using assms(1) by (cases "chosenMacProfile inp ds") (auto simp: planMacOS_def)
  let ?scan = "?deps p" and ?ds = "demandsForProfile ds p"
  have now: "planned inp (Plan_Operations (appendMacSpawns inp plan ?ds []))"
    using appendMacSpawns_planned [OF view_refl planned_none, of "[]" plan inp ?ds p] q empty
    by (auto simp: demandsForProfile_ok)
  have q': "queue_ok inp (DS_drains ?scan) ?ds"
    using demandsForProfile_ok(1) [OF q, of p] by (simp add: queue_ok_def spawnedDemands_none)
  have later: "planned inp (Plan_Operations (appendMacSpawns (with_instances inp (DS_filtered ?scan)) (add_ops (DS_drains ?scan) plan) ?ds
      (operationIDs (DS_drains ?scan))))"
    using appendMacSpawns_planned [OF scan_planned(2,1,3) _ q' demandsForProfile_ok(2), of "add_ops (DS_drains ?scan) plan"] empty
    by auto
  show ?thesis
    using assms(1) now later scan_planned(1) [of inp "\<lambda>i. consumes_mac i \<and> Inst_Profile i \<noteq> p"] empty
    by (auto simp: planMacOS_def p Let_def split: if_splits)
qed

lemma stable_loop_mset: "stable_loop h front ds = Some xs \<Longrightarrow> mset xs = mset (front @ ds)"
  by (induction h front ds rule: stable_loop.induct) (auto split: if_splits)

lemma mset_stableMacHandoffOrder [simp]: "mset (stableMacHandoffOrder prior ds) = mset ds"
  by (auto simp: stableMacHandoffOrder_def dest: stable_loop_mset split: option.split)

lemma set_stableMacHandoffOrder [simp]: "set (stableMacHandoffOrder prior ds) = set ds"
  by (metis mset_stableMacHandoffOrder set_mset_mset)

lemma boundedDrainBackfill_planned:
  assumes run: "planned inp ops" and "\<not> containsSpawn ops" and q: "queue_ok inp ops ds" "linux_only ds"
  shows "\<exists>sel. boundedDrainBackfill inp ds = spawn_all sel \<and> planned inp (ops @ boundedDrainBackfill inp ds)"
proof (cases "smallestLinuxResources (Cfg_Profiles (In_Config inp))")
  case (Some least)
  let ?cs = "priorityOrder inp (filter (drain_eligible inp least) ds)"
  let ?sel = "exactSelect (In_Now inp) ?cs (clamp_slots 1 (linuxFree inp)) (activeRepoCounts (In_insts inp)) (In_Config inp)"
  have "ledger inp ops (activeRepoCounts (In_insts inp)) {clamp_slots 1 (linuxFree inp)}"
    by (rule ledger_mono [OF view_ledger [OF view_drains [OF assms(2)]]]) (use clamp_slots_fits in auto)
  moreover have "queue_ok inp ops ?cs" "linux_only ?cs" using q by (auto simp: linux_only_def)
  ultimately have "planned inp (ops @ spawn_all ?sel)"
    using run by (intro exactSelect_planned) (simp_all add: labels_def)
  then show ?thesis
    using run planned_prefix [of inp "ops @ [spawnOperation (hd ?sel) []]"] Some
    by (cases ?sel) (auto simp: boundedDrainBackfill_def Let_def intro: exI [of _ "[hd ?sel]"])
qed (use run in \<open>simp add: boundedDrainBackfill_def\<close>)

lemma planMacHandoff_planned:
  assumes "planMacHandoff inp plan linux macs = Some plan'" and empty: "Plan_Operations plan = []"
    and q: "queue_ok inp [] linux" "linux_only linux" "queue_ok inp [] macs" "one_profile inp p macs"
  shows "planned inp (Plan_Operations plan')"
proof -
  let ?macs = "stableMacHandoffOrder (St_MacHandoff (In_Prior inp)) macs"
  let ?scan = "scan_drains (vacate_platform PlatformLinux) (In_insts inp)"
  have drains: "spawnedDemands (DS_drains ?scan) = []" by (simp add: spawnedDemands_none)
  have "queue_ok inp (DS_drains ?scan) ?macs" "one_profile inp p ?macs"
    using queue_ok_mset [OF mset_stableMacHandoffOrder q(3)] q(4) drains by (simp_all add: queue_ok_def one_profile_def)
  from appendMacSpawns_planned [OF scan_planned(2,1,3) _ this, of "add_ops (DS_drains ?scan) plan"] empty
  have spawned: "planned inp (Plan_Operations (appendMacSpawns (with_instances inp (DS_filtered ?scan)) (add_ops (DS_drains ?scan) plan) ?macs
      (operationIDs (DS_drains ?scan))))" by auto
  have "queue_ok inp (DS_drains ?scan) linux" using q(1) drains by (simp add: queue_ok_def)
  from boundedDrainBackfill_planned [OF scan_planned(1) _ this q(2)]
  have "planned inp (DS_drains ?scan @ boundedDrainBackfill inp linux)" by auto
  with spawned scan_planned(1) [of inp "vacate_platform PlatformLinux"] assms(1) empty show ?thesis
    by (auto simp: planMacHandoff_def Let_def split: if_splits bind_splits)
qed

lemma planMacWithCoexistence_planned:
  assumes "planMacWithCoexistence inp plan linux macs = Some plan'" and empty: "Plan_Operations plan = []"
    and q: "queue_ok inp [] linux" "linux_only linux" "queue_ok inp [] macs" "one_profile inp p macs"
  shows "planned inp (Plan_Operations plan')"
proof -
  obtain attempted where att: "planMacOS inp plan macs = Some attempted"
    using assms(1) by (auto simp: planMacWithCoexistence_def split: bind_splits)
  note run = planMacOS_planned [OF att empty q(3)]
  show ?thesis
    using assms(1) run empty planMacHandoff_planned [of inp attempted linux macs plan', OF _ _ q]
    by (auto simp: planMacWithCoexistence_def att split: if_splits bind_splits)
qed

section \<open>The Linux lane\<close>

lemma spawn_all_none: "\<not> containsSpawn (spawn_all sel) \<Longrightarrow> sel = []"
  by (cases sel) auto

lemma planLinux_first:
  assumes "Plan_Operations plan = []" and "queue_ok inp [] ds" "linux_only ds"
  shows "\<exists>sel. Plan_Operations (planLinux inp plan ds) = spawn_all sel \<and> planned inp (spawn_all sel)"
  using planLinux_planned [OF view_refl planned_none, of "\<lambda>d. spawnOperation d []" plan inp ds] assms by (simp add: labels_def)

lemma planBehindInfeasibleMacHead_planned:
  assumes "planBehindInfeasibleMacHead inp plan linux macs = Some plan'" and empty: "Plan_Operations plan = []"
    and q: "queue_ok inp [] linux" "linux_only linux" "queue_ok inp [] macs"
  shows "planned inp (Plan_Operations plan')"
proof -
  obtain sel where sel: "Plan_Operations (planLinux inp plan linux) = spawn_all sel" "planned inp (spawn_all sel)"
    using planLinux_first [OF empty q(1,2)] by blast
  have "queue_ok inp [] (demandsExcludingProfile macs p)" for p using q(3) by (auto simp: demandsExcludingProfile_def)
  note mac = planMacOS_planned [OF _ _ this]
  show ?thesis
    using assms(1) empty sel mac spawn_all_none [of sel]
    by (auto simp: planBehindInfeasibleMacHead_def Let_def planned_none split: if_splits bind_splits)
qed

lemma queue_ok_awaiting: "queue_ok inp [] ds \<Longrightarrow> queue_ok inp ops (demandsAwaitingAdmission ds ops)"
  by (auto simp: queue_ok_def demandsAwaitingAdmission_def distinct_map_filterI)

lemma linux_only_awaiting: "linux_only ds \<Longrightarrow> linux_only (demandsAwaitingAdmission ds ops)"
  by (auto simp: linux_only_def demandsAwaitingAdmission_def)

text \<open>The input of a complementary pass anticipates the spawns of the plan.\<close>

lemma mixedRemainderInput_view:
  assumes "mixedRemainderInput inp plan = Some inp'"
  shows "inp' = with_instances inp (after_plan inp (Plan_Operations plan))"
proof -
  have "\<not> containsDrain (Plan_Operations plan)" using assms by (simp add: mixedRemainderInput_def split: if_splits)
  then have "\<not> drained (Plan_Operations plan) i" for i by (auto simp: drained_def containsDrain_def list_ex_iff)
  then have "after_plan inp (Plan_Operations plan) = appendPlannedSpawns (In_insts inp) (In_Config inp) (Plan_Operations plan)"
    by (simp add: after_plan_def)
  with assms show ?thesis by (simp add: mixedRemainderInput_def split: if_splits)
qed

lemma fillLinuxRemainder_planned:
  assumes run: "planned inp (Plan_Operations plan)" and q: "queue_ok inp [] linux" "linux_only linux"
  shows "planned inp (Plan_Operations (fillLinuxRemainder inp plan linux))"
proof (cases "mixedRemainderInput inp plan")
  case None
  then show ?thesis using run by (simp add: fillLinuxRemainder_def Let_def)
next
  case (Some inp')
  let ?ops = "Plan_Operations plan" and ?ds = "demandsAwaitingAdmission linux (Plan_Operations plan)"
  have "view inp ?ops inp'" using mixedRemainderInput_view [OF Some] view_after by simp
  from planLinux_planned [OF this run, of "\<lambda>d. spawnOperation d []" "new_Plan PlanReady (Plan_Next plan) []" ?ds]
  obtain sel where "Plan_Operations (planLinux inp' (new_Plan PlanReady (Plan_Next plan) []) ?ds) = spawn_all sel"
    "planned inp (?ops @ spawn_all sel)"
    using queue_ok_awaiting [OF q(1)] linux_only_awaiting [OF q(2)] by (auto simp: labels_def)
  then show ?thesis using run Some by (simp add: fillLinuxRemainder_def Let_def)
qed

lemma reservedRemainderDemands_subseq: "subseq (reservedRemainderDemands inp plan ds) ds"
  by (simp add: reservedRemainderDemands_def split_beta subseq_filter_left split: option.split)

lemma fillMacRemainder_planned:
  assumes run: "planned inp (Plan_Operations plan)" and q: "queue_ok inp [] macs"
  shows "planned inp (Plan_Operations (fillMacRemainder inp plan macs))"
proof (cases "mixedRemainderInput inp plan")
  case None
  then show ?thesis using run by (simp add: fillMacRemainder_def Let_def)
next
  case (Some inp0)
  let ?ops = "Plan_Operations plan" and ?new = "new_Plan PlanReady (Plan_Next plan) []"
  let ?macs = "reservedRemainderDemands inp plan (demandsAwaitingAdmission macs (Plan_Operations plan))"
  let ?inp = "chargeReservedHead inp0 (St_Reservation (Plan_Next plan))"
  have inp0: "inp0 = with_instances inp (after_plan inp ?ops)" by (rule mixedRemainderInput_view [OF Some])
  then have "In_insts inp0 = after_plan inp ?ops" by (simp add: Fresh_def)
  then have v: "view inp ?ops ?inp"
    using view_reserved [OF run, of inp0] inp0 view_after [of inp ?ops] sound_after_plan [OF run] by simp
  have "queue_ok inp ?ops ?macs"
    by (rule queue_ok_subseq [OF queue_ok_awaiting [OF q] reservedRemainderDemands_subseq])
  then have "planned inp (?ops @ Plan_Operations (appendMacSpawns ?inp ?new (demandsForProfile ?macs p) []))" for p
    using appendMacSpawns_planned [OF v run, of "[]" ?new "demandsForProfile ?macs p" p] by (auto simp: demandsForProfile_ok)
  then show ?thesis using run Some by (auto simp: fillMacRemainder_def Let_def split: option.split)
qed

lemma labels_depend_on:
  "set deps \<subseteq> Op_ID ` {r \<in> set ops. Op_Kind r = OperationDrain} \<Longrightarrow> labels ops (\<lambda>d. depend_on deps (spawnOperation d []))"
  by (simp add: labels_def spawns_def depend_on_def)

lemma planLinuxHandoff_planned:
  assumes "planLinuxHandoff inp plan0 ds macs = Some plan'" and empty: "Plan_Operations plan0 = []"
    and q: "queue_ok inp [] ds" "linux_only ds" "queue_ok inp [] macs"
  shows "planned inp (Plan_Operations plan')"
proof -
  let ?scan = "scan_drains (vacate_platform PlatformMacOS) (In_insts inp)"
  let ?ops = "DS_drains ?scan"
  have none: "spawnedDemands ?ops = []" by (simp add: spawnedDemands_none)
  obtain head where head: "head_of (priorityOrder inp ds) = Some head"
    using assms(1) by (auto simp: planLinuxHandoff_def split: bind_splits)
  let ?handoff = "linuxHandoffFor (St_LinuxHandoff (In_Prior inp)) head (In_Now inp)"
  let ?plan = "add_ops ?ops (set_linuxHandoff (Some ?handoff) plan0)"
  let ?lend = "chargeReservedHead inp (St_Reservation (Plan_Next ?plan))"
  show ?thesis
  proof (cases "DS_allIdle ?scan")
    case False
    have v: "view inp ?ops ?lend"
      by (rule view_reserved [OF scan_planned(1) view_drains]) (simp_all add: sound_input_def)
    have "planned inp (Plan_Operations (appendMacSpawns ?lend ?plan (reservedRemainderDemands inp ?plan (demandsForProfile macs p)) []))" for p
    proof -
      let ?ms = "reservedRemainderDemands inp ?plan (demandsForProfile macs p)"
      have ms: "queue_ok inp ?ops ?ms"
        using queue_ok_subseq [OF demandsForProfile_ok(1) [OF q(3)] reservedRemainderDemands_subseq] none by (simp add: queue_ok_def)
      have one: "one_profile inp p ?ms"
        using subseq_set [OF reservedRemainderDemands_subseq] demandsForProfile_ok(2) unfolding one_profile_def by blast
      have "\<not> containsSpawn (Plan_Operations ?plan)" using empty by simp
      from appendMacSpawns_planned [OF v scan_planned(1) _ this ms one, of "[]"] obtain sel where
        "Plan_Operations (appendMacSpawns ?lend ?plan ?ms []) = Plan_Operations ?plan @ spawn_all sel" "planned inp (?ops @ spawn_all sel)"
        by auto
      then show ?thesis using empty by simp
    qed
    then show ?thesis
      using assms(1) head False scan_planned(1) [of inp "vacate_platform PlatformMacOS"] empty
      by (auto simp: planLinuxHandoff_def Let_def split: if_splits option.splits)
  next
    case True
    let ?mk = "\<lambda>d. depend_on (operationIDs ?ops) (spawnOperation d [])"
    let ?new = "new_Plan (Plan_Status (set_linuxHandoff None ?plan)) (Plan_Next (set_linuxHandoff None ?plan)) []"
    have "queue_ok inp ?ops ds" using q(1) none by (simp add: queue_ok_def)
    from planLinux_planned [OF scan_planned(2,1) labels_depend_on [OF scan_planned(3)], of ?new, OF _ this q(2)]
    obtain sel where sel: "Plan_Operations (planLinux (with_instances inp (DS_filtered ?scan)) ?new ds) = spawn_all sel"
      "planned inp (?ops @ map ?mk sel)" by auto
    then show ?thesis
      using assms(1) head True empty
      by (auto simp: planLinuxHandoff_def Let_def comp_def)
  qed
qed

lemma planLinuxWithCoexistence_planned:
  assumes "planLinuxWithCoexistence inp plan ds macs = Some plan'" and empty: "Plan_Operations plan = []"
    and q: "queue_ok inp [] ds" "linux_only ds" "queue_ok inp [] macs"
  shows "planned inp (Plan_Operations plan')"
proof -
  obtain sel where sel: "Plan_Operations (planLinux inp plan ds) = spawn_all sel" "planned inp (spawn_all sel)"
    using planLinux_first [OF empty q(1,2)] by blast
  show ?thesis
    using assms(1) sel spawn_all_none [of sel] planLinuxHandoff_planned [of inp "planLinux inp plan ds" ds macs plan', OF _ _ q]
    by (auto simp: planLinuxWithCoexistence_def Let_def split: if_splits)
qed

section \<open>The tick\<close>

lemma planExclusiveMacHandoff_planned:
  assumes "planExclusiveMacHandoff inp plan macs = Some plan'" and empty: "Plan_Operations plan = []" and q: "queue_ok inp [] macs"
  shows "planned inp (Plan_Operations plan')"
proof -
  obtain first where first: "head_of macs = Some first" using assms(1) by (auto simp: planExclusiveMacHandoff_def split: bind_splits)
  let ?p = "Dem_Profile first" and ?scan = "scan_drains (vacate_for (Dem_Profile first)) (In_insts inp)"
  define ms where "ms = (case St_MacHandoff (In_Prior inp) of
    Some h \<Rightarrow> if MH_Profile h = ?p then stableMacHandoffOrder (Some h) macs else macs | None \<Rightarrow> macs)"
  have "mset ms = mset macs" by (simp add: ms_def split: option.split)
  from queue_ok_mset [OF this q] have "queue_ok inp (DS_drains ?scan) (demandsForProfile ms ?p)"
    by (auto simp: queue_ok_def spawnedDemands_none demandsForProfile_def distinct_map_filterI)
  from appendMacSpawns_planned [OF scan_planned(2,1,3) _ this demandsForProfile_ok(2), of "set_macHandoff None (add_ops (DS_drains ?scan) plan)"]
  have "planned inp (Plan_Operations (appendMacSpawns (with_instances inp (DS_filtered ?scan))
      (set_macHandoff None (add_ops (DS_drains ?scan) plan)) (demandsForProfile ms ?p) (operationIDs (DS_drains ?scan))))"
    using empty by auto
  with scan_planned(1) [of inp "vacate_for ?p"] assms(1) empty first show ?thesis
    by (auto simp: planExclusiveMacHandoff_def Let_def ms_def [symmetric] split: if_splits bind_splits)
qed

lemma mset_macProfileFirst: "mset (macProfileFirst inp macs p) = mset macs"
proof -
  have "mset (macProfileFirst inp macs p) = mset (filter (\<lambda>d. Dem_Profile d = p) macs) + mset (filter (\<lambda>d. Dem_Profile d \<noteq> p) macs)"
    by (simp add: macProfileFirst_def demandsForProfile_def)
  then show ?thesis by (simp only: mset_filter_partition)
qed

lemma planExclusiveAdmission_planned:
  assumes "planExclusiveAdmission inp plan linux macs = Some plan'" and empty: "Plan_Operations plan = []"
    and q: "queue_ok inp [] linux" "linux_only linux" and mac: "\<And>p. queue_ok inp [] (macProfileFirst inp macs p)"
  shows "planned inp (Plan_Operations plan')"
proof -
  let ?live = "hasConsumingPlatform (In_insts inp) PlatformMacOS"
  consider (unclear) "plan' = plan"
    | (mac) p where "planExclusiveMacHandoff inp (set_linuxHandoff None plan) (macProfileFirst inp macs p) = Some plan'"
    | (handoff) "planLinuxHandoff inp (set_macHandoff None plan) linux [] = Some plan'"
    | (linux) "plan' = planLinux inp (set_linuxHandoff None (set_macHandoff None plan)) linux"
    using assms(1) unfolding planExclusiveAdmission_def Let_def bind_eq_Some_conv
    by (metis (no_types, lifting) bind_eq_Some_conv option.inject)
  then show ?thesis
  proof cases
    case unclear
    then show ?thesis using empty planned_none by simp
  next
    case mac
    then show ?thesis using planExclusiveMacHandoff_planned [OF _ _ assms(5)] empty by simp
  next
    case handoff
    then show ?thesis using planLinuxHandoff_planned [OF _ _ q, of _ "[]"] empty by (simp add: queue_ok_def)
  next
    case linux
    then show ?thesis using planLinux_first [OF _ q] empty by (metis Plan.select_convs(3) Plan.surjective Plan.update_convs(4))
  qed
qed

lemma plan_lanes_planned:
  assumes "plan_lanes inp mode plan (priorityOrder inp (normalizedDemands inp)) = Some plan'" and empty: "Plan_Operations plan = []"
  shows "planned inp (Plan_Operations plan')"
proof -
  let ?ds = "priorityOrder inp (normalizedDemands inp)"
  define linux where "linux = partition_linux ?ds"
  define macs where "macs = partition_macos ?ds"
  have all: "queue_ok inp [] ?ds" by (simp add: queue_ok_def normalized_props(3))
  have q: "queue_ok inp [] linux" "linux_only linux" "queue_ok inp [] macs" "mac_only macs"
    using all by (auto simp: linux_def macs_def partition_linux_def partition_macos_def linux_only_def mac_only_def)
  show ?thesis
  proof (cases "Cfg_MacOSExclusive (In_Config inp)")
    case True
    have "queue_ok inp [] (macProfileFirst inp macs p)" for p by (rule queue_ok_mset [OF mset_macProfileFirst q(3)])
    then show ?thesis
      using assms True planExclusiveAdmission_planned [OF _ empty q(1,2)]
      by (simp add: plan_lanes_def Let_def linux_def macs_def)
  next
    case False
    have "\<exists>p. one_profile inp p macs"
    proof (cases macs)
      case (Cons d ds)
      have "one_profile inp (Dem_Profile d) macs"
      proof -
        have "d \<in> set macs" "set macs \<subseteq> set (normalizedDemands inp)" using Cons q(3) by (simp_all add: queue_ok_def)
        then show ?thesis
          using False q(4) unfolding one_profile_def sound_input_def one_mac_profile_def mac_only_def by blast
      qed
      then show ?thesis ..
    qed (simp add: one_profile_def)
    then obtain p where p: "one_profile inp p macs" ..
    have mac: "planned inp (Plan_Operations r)" if "plan_mac_lane inp mode plan linux macs = Some r" for r
      using that empty planMacWithCoexistence_planned [OF _ _ q(1-3) p] planMacOS_planned [OF _ _ q(3)]
        planBehindInfeasibleMacHead_planned [OF _ _ q(1-3)] planMacHandoff_planned [OF _ _ q(1-3) p]
        fillLinuxRemainder_planned [OF _ q(1,2)]
      by (auto simp: plan_mac_lane_def Let_def split: if_splits bind_splits)
    have linux: "planned inp (Plan_Operations r)" if "plan_linux_lane inp mode plan linux macs = Some r" for r
    proof -
      have "planned inp (Plan_Operations (planLinux inp p linux))" if "Plan_Operations p = []" for p
        using planLinux_first [OF that q(1,2)] by auto
      then show ?thesis
        using that empty planLinuxWithCoexistence_planned [OF _ _ q(1-3)] fillMacRemainder_planned [OF _ q(3)]
        by (auto simp: plan_linux_lane_def Let_def split: if_splits bind_splits)
    qed
    show ?thesis
      using assms False mac linux planned_none
      by (auto simp: plan_lanes_def Let_def linux_def [symmetric] macs_def [symmetric] split: bind_splits Platform.splits)
  qed
qed

end
