(* ===== verification/Tick_Safety.thy ===== *)
theory Tick_Safety
  imports Pass_Refinement
begin

text \<open>
  What every scheduling tick promises, proved over the runs of the admission machine: repository caps,
  the envelope, cohort limits, dependencies, that a tick returns and that it fails closed.
\<close>

section \<open>Ticks are runs\<close>

lemma recoveries_are_drains:
  assumes "q \<in> set (assignmentRecoveries now cfg is)"
  shows "Op_Kind q = OperationDrain" and "Op_Recovery q" and "Op_DependsOn q = []"
proof -
  obtain i where "recovery_of now cfg i = Some q" using assms by (auto simp: in_assignmentRecoveries)
  from recovery_is_drain [OF this] show "Op_Kind q = OperationDrain" and "Op_Recovery q" and "Op_DependsOn q = []" by simp_all
qed

lemma judgeCarriedReservation_ops [simp]: "Plan_Operations (judgeCarriedReservation inp plan) = Plan_Operations plan"
  "Plan_Status (judgeCarriedReservation inp plan) = Plan_Status plan" "Plan_Next (judgeCarriedReservation inp plan) = Plan_Next plan"
  by (auto simp: judgeCarriedReservation_def split: option.split)

abbreviation observations_usable :: "Input \<Rightarrow> bool" where
  "observations_usable inp \<equiv> Usable (In_Demands inp) \<and> Usable (In_Instances inp) \<and> Usable (In_Host inp)"

abbreviation tick_recoveries :: "Input \<Rightarrow> Operation list" where
  "tick_recoveries inp \<equiv> assignmentRecoveries (In_Now inp) (In_Config inp) (In_insts inp)"

lemma PlanTick_ops: "PlanTick inp = Some plan \<Longrightarrow> \<exists>p. planTick inp = Some p \<and> Plan_Operations plan = Plan_Operations p
    \<and> Plan_Status plan = Plan_Status p \<and> Plan_Next plan = Plan_Next p"
  by (auto simp: PlanTick_def)

lemma tick_cases:
  assumes "PlanTick inp = Some plan"
  obtains "planned inp (Plan_Operations plan)"
  | "Plan_Operations plan = tick_recoveries inp" "tick_recoveries inp \<noteq> []"
proof -
  obtain p where p: "planTick inp = Some p" "Plan_Operations plan = Plan_Operations p" using PlanTick_ops [OF assms] by blast
  show thesis
  proof (cases "observations_usable inp")
    case False
    with p have "Plan_Operations plan = []" by (auto simp: planTick_def)
    then show thesis using that(1) planned_none by simp
  next
    case True
    show thesis
    proof (cases "DeriveHostMode (In_insts inp)")
      case (Inl err)
      with p True have "Plan_Operations plan = []" by (auto simp: planTick_def)
      then show thesis using that(1) planned_none by simp
    next
      case (Inr mode)
      consider "tick_recoveries inp \<noteq> []" | "tick_recoveries inp = []" "normalizedDemands inp = []"
        | "tick_recoveries inp = []" "normalizedDemands inp \<noteq> []" by blast
      then show thesis
      proof cases
        case 1
        with p True Inr have "Plan_Operations plan = tick_recoveries inp" by (auto simp: planTick_def Let_def)
        with 1 show thesis using that(2) by simp
      next
        case 2
        with p True Inr have "Plan_Operations plan = []" by (auto simp: planTick_def Let_def)
        then show thesis using that(1) planned_none by simp
      next
        case 3
        with p True Inr obtain r where "plan_lanes inp mode (new_Plan PlanReady (In_Prior inp) []) (priorityOrder inp (normalizedDemands inp)) = Some r"
          "Plan_Operations p = Plan_Operations r" by (auto simp: planTick_def Let_def)
        with plan_lanes_planned [of inp mode _ r] p(2) that(1) show thesis by simp
      qed
    qed
  qed
qed

lemma recoveries_no_spawn [simp]: "spawnedDemands (tick_recoveries inp) = []"
  using recoveries_are_drains(1) by (auto simp: spawnedDemands_def filter_empty_conv)

lemma recoveries_containsSpawn [simp]: "\<not> containsSpawn (tick_recoveries inp)"
  using recoveries_are_drains(1) by (auto simp: containsSpawn_def list_ex_iff)

section \<open>Invariants of the machine\<close>

lemma planned_spawns:
  "planned inp ops \<Longrightarrow> distinct (spawnedDemands ops)
     \<and> set (spawnedDemands ops) \<subseteq> Dem_Key ` set (normalizedDemands inp)"
  by (induction rule: planned.induct) (auto simp: spawns_def)

lemma planned_each:
  "planned inp ops \<Longrightarrow> q \<in> set ops \<Longrightarrow>
     (Op_Kind q = OperationDrain \<and> (\<exists>i \<in> set (In_insts inp). q = drainOperation i \<and> Inst_State i = InstanceOnlineIdle))
     \<or> (\<exists>d \<in> set (normalizedDemands inp). spawns d q)"
  by (induction rule: planned.induct) auto

lemma planned_dependencies:
  "planned inp (xs @ q # ys) \<Longrightarrow> set (Op_DependsOn q) \<subseteq> Op_ID ` {r \<in> set xs. Op_Kind r = OperationDrain}"
proof -
  assume "planned inp (xs @ q # ys)"
  then have "planned inp (xs @ [q])" using planned_prefix [of inp "xs @ [q]" ys] by simp
  then show ?thesis by (cases rule: planned.cases) auto
qed

text \<open>Drained instances are idle, so a drain frees no repository slot.\<close>

lemma planned_drained_idle:
  assumes "planned inp ops" and "distinct (map Inst_ID (In_insts inp))" and "i \<in> set (In_insts inp)" and "drained ops i"
  shows "Inst_State i = InstanceOnlineIdle"
proof -
  obtain q where "q \<in> set ops" "Op_Kind q = OperationDrain" "Op_Instance q = Inst_ID i" using assms(4) by (auto simp: drained_def)
  then obtain j where "j \<in> set (In_insts inp)" "Inst_State j = InstanceOnlineIdle" "Inst_ID j = Inst_ID i"
    using planned_each [OF assms(1)] by (fastforce simp: spawns_def)
  moreover from this assms(2,3) have "j = i" by (metis distinct_map inj_onD)
  ultimately show ?thesis by simp
qed

lemma planned_repo_counts:
  assumes "planned inp ops" and "distinct (map Inst_ID (In_insts inp))"
  shows "activeRepoCounts (after_plan inp ops) r =
    activeRepoCounts (In_insts inp) r + int (length (filter (\<lambda>k. Key_Repo k = r) (spawnedDemands ops)))"
proof -
  have idle: "\<not> charges_repo i" if "i \<in> set (In_insts inp)" "drained ops i" for i
    using planned_drained_idle [OF assms that] by (simp add: charges_repo_def)
  have "activeRepoCounts (filter (\<lambda>i. \<not> drained ops i) (In_insts inp)) r = activeRepoCounts (In_insts inp) r"
    unfolding activeRepoCounts_eq filter_filter
    by (intro arg_cong [where f = "\<lambda>xs. int (length xs)"] filter_cong) (use idle in auto)
  moreover have "charges_repo (planned_instance cfg q)" "Inst_Repo (planned_instance cfg q) = Key_Repo (Op_Demand q)" for cfg q
    by (simp_all add: planned_instance_def Let_def charges_repo_def releasedItsRepositorySlot_def Live_def)
  ultimately show ?thesis
    by (simp add: after_plan_def appendPlannedSpawns_def activeRepoCounts_eq [of "map _ _"] spawnedDemands_def filter_map comp_def)
qed

lemma planned_caps:
  "planned inp ops \<Longrightarrow> activeRepoCounts (after_plan inp ops) r
     \<le> max (activeRepoCounts (In_insts inp) r) (repoCapLimit (Cfg_RepoCaps (In_Config inp)) r)"
proof (induction rule: planned.induct)
  case (planned_drain ops i)
  then show ?case using activeRepoCounts_filter_le by (simp add: after_plan_drains max.coboundedI1)
next
  case (planned_spawn ops d q)
  then show ?case by (auto simp: after_plan_spawn activeRepoCounts_planned bump_def may_spawn_def)
qed simp

lemma planned_cohort:
  assumes "sound_input inp"
  shows "planned inp ops \<Longrightarrow> active_macs (after_plan inp ops) p
     \<le> max (active_macs (In_insts inp) p) (macProfileLimit (profile_at (In_Config inp) p))"
proof (induction rule: planned.induct)
  case (planned_drain ops i)
  then show ?case using active_macs_filter_le by (simp add: after_plan_drains max.coboundedI1)
next
  case (planned_spawn ops d q)
  note d = sound_demand(2) [OF assms planned_spawn(2)] normalized_known(2) [OF planned_spawn(2)]
  show ?case
    using planned_spawn assms d by (auto simp: after_plan_spawn active_macs_planned may_spawn_def)
qed simp

text \<open>A limit the envelope respects is respected by what a plan leaves behind.\<close>

lemma planned_within:
  assumes s: "sound_input inp" and x: "x \<in> {CPU, MemoryMB, Slots}"
    and lim: "\<And>is. envelope_wf inp is \<Longrightarrow> x (freeCapacity inp is True) \<le> max 0 (L - x (total_of P is))"
  shows "planned inp ops \<Longrightarrow> x (total_of P (after_plan inp ops)) \<le> max (x (total_of P (In_insts inp))) L"
proof (induction rule: planned.induct)
  case (planned_drain ops i)
  have "list_all (\<lambda>i. Res_nonneg (Inst_Resources i)) (In_insts inp)" using s by (simp add: sound_input_def envelope_wf_def)
  from total_of_filter [OF this, of P "\<lambda>j. \<not> drained (ops @ [drainOperation i]) j"] x
  show ?case using planned_drain by (auto simp: after_plan_drains CanFit_def)
next
  case (planned_spawn ops d q)
  let ?v = "vector_of (In_Config inp) d" and ?total = "x (total_of P (after_plan inp ops))"
  have "CanFit (freeCapacity inp (after_plan inp ops) True) ?v" using planned_spawn s by (simp add: may_spawn_def)
  then have "x ?v \<le> x (freeCapacity inp (after_plan inp ops) True)" using x by (auto simp: CanFit_def)
  also have "\<dots> \<le> max 0 (L - ?total)" using lim [OF sound_after_plan [OF planned_spawn(1) s]] .
  finally have v: "x ?v \<le> max 0 (L - ?total)" .
  have "0 \<le> x ?v" using sound_demand(1) [OF s planned_spawn(2)] x by (auto simp: Res_nonneg_def)
  moreover have "x (total_of P (after_plan inp (ops @ [q]))) = ?total + x (total_of P [planned_instance (In_Config inp) q])"
    using planned_spawn(5) x by (auto simp: after_plan_spawn)
  moreover have "x (total_of P [planned_instance (In_Config inp) q]) \<in> {0, x ?v}"
    using planned_spawn(5) x by (auto simp: planned_instance_simps)
  ultimately show ?case using planned_spawn.IH v by auto
qed simp

lemma tick_within:
  assumes tick: "PlanTick inp = Some plan" and s: "sound_input inp" and x: "x \<in> {CPU, MemoryMB, Slots}"
    and lim: "\<And>is. envelope_wf inp is \<Longrightarrow> x (freeCapacity inp is True) \<le> max 0 (L - x (total_of P is))"
  shows "x (total_of P (after_plan inp (Plan_Operations plan))) \<le> max (x (total_of P (In_insts inp))) L"
  using tick
proof (cases rule: tick_cases)
  case 1
  from planned_within [OF s x _ this] lim show ?thesis by blast
next
  case 2
  have "list_all (\<lambda>i. Res_nonneg (Inst_Resources i)) (In_insts inp)" using s by (simp add: sound_input_def envelope_wf_def)
  from total_of_filter [OF this, of P "\<lambda>j. \<not> drained (Plan_Operations plan) j"] x 2
  show ?thesis by (auto simp: after_plan_drains CanFit_def)
qed

section \<open>What every tick promises\<close>

text \<open>
  C1. A tick implements the admission machine. Its operations are a run: drains of observed idle
  instances first, then spawns of queued demands, each one admitted by the state the earlier operations
  leave; or they are the recoveries of the tick and nothing else.
\<close>

theorem tick_is_a_run:
  assumes "PlanTick inp = Some plan"
  shows "planned inp (Plan_Operations plan) \<or> Plan_Operations plan = tick_recoveries inp"
  using assms by (cases rule: tick_cases) simp_all

text \<open>
  C3. No tick lets a repository exceed its cap: what it holds plus what the tick spawns for it stays
  within the cap, or is what it held already.
\<close>

theorem tick_repository_caps:
  assumes "PlanTick inp = Some plan" and ids: "distinct (map Inst_ID (In_insts inp))"
  shows "activeRepoCounts (In_insts inp) repo
      + int (length (filter (\<lambda>k. Key_Repo k = repo) (spawnedDemands (Plan_Operations plan))))
    \<le> max (activeRepoCounts (In_insts inp) repo) (repoCapLimit (Cfg_RepoCaps (In_Config inp)) repo)"
  using assms(1)
proof (cases rule: tick_cases)
  case 1
  from planned_caps [OF this, of repo] planned_repo_counts [OF this ids, of repo] show ?thesis by simp
qed simp

text \<open>
  C15. A tick spawns each demand at most once, only demands of the plannable queue with their own
  profile and route, and drains only instances that are idle or that a recovery names.
\<close>

theorem tick_spawns_the_queue:
  assumes "PlanTick inp = Some plan"
  shows "distinct (spawnedDemands (Plan_Operations plan))
    \<and> (\<forall>q \<in> set (Plan_Operations plan).
         (\<exists>d \<in> set (normalizedDemands inp). Op_Kind q = OperationSpawn \<and> Op_Demand q = Dem_Key d
            \<and> Op_Profile q = Dem_Profile d \<and> Op_Route q = Dem_Route d)
         \<or> (\<exists>i \<in> set (In_insts inp). Op_Kind q = OperationDrain \<and> Op_Instance q = Inst_ID i
              \<and> (Inst_State i = InstanceOnlineIdle \<or> recovery_of (In_Now inp) (In_Config inp) i = Some q)))"
  using assms
proof (cases rule: tick_cases)
  case 1
  then show ?thesis using planned_spawns planned_each by (fastforce simp: spawns_def)
next
  case 2
  have "\<exists>i \<in> set (In_insts inp). Op_Kind q = OperationDrain \<and> Op_Instance q = Inst_ID i
      \<and> recovery_of (In_Now inp) (In_Config inp) i = Some q" if "q \<in> set (tick_recoveries inp)" for q
    using that recoveries_are_drains(1) recovery_of_instance by (metis in_assignmentRecoveries)
  then show ?thesis using 2 by auto
qed

text \<open>
  C2. The envelope holds across a whole tick. With nonnegative vectors, profiles stored under their own
  name, and one macOS profile queued or exclusive admission, the occupancy behind the plan is in every
  dimension at most the larger of what it was and the limit: the Linux capacity, for all instances in
  the static model and for the Linux instances in the elastic one; the physical total where the elastic
  model observes a positive one; and the operator's budget where a positive one is set.
\<close>

theorem tick_within_envelope:
  assumes "PlanTick inp = Some plan" and "sound_input inp" and "x \<in> {CPU, MemoryMB, Slots}"
  shows "let used = (\<lambda>P. x (total_of P (after_plan inp (Plan_Operations plan)))); was = (\<lambda>P. x (total_of P (In_insts inp)));
      host = Ob_Value (In_Host inp); cfg = In_Config inp in
    (\<not> Cfg_ElasticHostEnvelope cfg \<longrightarrow> used ConsumesHostResources \<le> max (was ConsumesHostResources) (x (Cfg_LinuxCapacity cfg)))
    \<and> (Cfg_ElasticHostEnvelope cfg \<longrightarrow> used consumes_linux \<le> max (was consumes_linux) (x (Cfg_LinuxCapacity cfg))
         \<and> (0 < x (Host_Capacity host) \<longrightarrow> used ConsumesHostResources \<le> max (was ConsumesHostResources) (x (Host_Capacity host))))
    \<and> (0 < x (Cfg_HostBudget cfg) \<longrightarrow> used ConsumesHostResources \<le> max (was ConsumesHostResources) (x (Cfg_HostBudget cfg)))"
proof -
  note within = tick_within [OF assms]
  show ?thesis
    unfolding Let_def
    using within [OF freeCapacity_static_le [OF _ _ assms(3)]] within [OF freeCapacity_elastic_le(1) [OF _ _ assms(3)]]
      within [OF freeCapacity_elastic_le(2) [OF _ _ assms(3)]] within [OF freeCapacity_budget_le [OF _ _ assms(3)]]
    by blast
qed

text \<open>
  C18. A tick keeps macOS cohorts within their limits. With nonnegative vectors, profiles stored under
  their own name, and one macOS profile queued or exclusive admission, the instances of a profile that
  are live behind the plan number at most its limit, or what they numbered already.
\<close>

theorem tick_cohort_limit:
  assumes "PlanTick inp = Some plan" and "sound_input inp"
  shows "active_macs (after_plan inp (Plan_Operations plan)) p
    \<le> max (active_macs (In_insts inp) p) (macProfileLimit (profile_at (In_Config inp) p))"
  using assms(1)
proof (cases rule: tick_cases)
  case 1
  then show ?thesis by (rule planned_cohort [OF assms(2)])
next
  case 2
  then show ?thesis using active_macs_filter_le by (simp add: after_plan_drains max.coboundedI1)
qed

text \<open>
  C19. Dependencies point backwards: an operation depends only on drains that precede it in the plan,
  so the plan can be executed in order.
\<close>

theorem tick_dependencies_precede:
  assumes "PlanTick inp = Some plan" and "Plan_Operations plan = xs @ q # ys"
  shows "set (Op_DependsOn q) \<subseteq> Op_ID ` {r \<in> set xs. Op_Kind r = OperationDrain}"
  using assms(1)
proof (cases rule: tick_cases)
  case 1
  with assms(2) show ?thesis using planned_dependencies by simp
next
  case 2
  then have "set (tick_recoveries inp) = set (xs @ q # ys)" using assms(2) by metis
  then have "q \<in> set (tick_recoveries inp)" by simp
  then show ?thesis using recoveries_are_drains(3) by simp
qed

section \<open>Ticks return\<close>

lemma head_of_Some: "xs \<noteq> [] \<Longrightarrow> \<exists>x. head_of xs = Some x"
  by (cases xs) (auto simp: head_of_def)

lemma chosenMacProfile_Some: "ds \<noteq> [] \<Longrightarrow> \<exists>p. chosenMacProfile inp ds = Some p"
  using head_of_Some [of "priorityOrder inp ds"] by (auto simp: chosenMacProfile_def)

lemma planMacOS_Some: "ds \<noteq> [] \<Longrightarrow> \<exists>r. planMacOS inp plan ds = Some r"
  using chosenMacProfile_Some [of ds inp] by (auto simp: planMacOS_def Let_def)

lemma stableMacHandoffOrder_Nil [simp]: "stableMacHandoffOrder h ds = [] \<longleftrightarrow> ds = []"
  by (metis mset_stableMacHandoffOrder mset_zero_iff)

lemma planMacHandoff_Some: "ds \<noteq> [] \<Longrightarrow> \<exists>r. planMacHandoff inp plan linux ds = Some r"
  using head_of_Some [of "stableMacHandoffOrder (St_MacHandoff (In_Prior inp)) ds"] by (auto simp: planMacHandoff_def Let_def)

lemma planMacWithCoexistence_Some:
  assumes "ds \<noteq> []"
  shows "\<exists>r. planMacWithCoexistence inp plan linux ds = Some r"
proof -
  obtain a where "planMacOS inp plan ds = Some a" using planMacOS_Some [OF assms] by blast
  moreover obtain p where "chosenMacProfile inp ds = Some p" using chosenMacProfile_Some [OF assms] by blast
  ultimately show ?thesis using planMacHandoff_Some [OF assms, of inp a linux] by (auto simp: planMacWithCoexistence_def)
qed

lemma planBehindInfeasibleMacHead_Some: "ds \<noteq> [] \<Longrightarrow> \<exists>r. planBehindInfeasibleMacHead inp plan linux ds = Some r"
  using head_of_Some [of "priorityOrder inp ds"] chosenMacProfile_Some [of ds inp]
    planMacOS_Some [of "demandsExcludingProfile ds p" for p]
  by (auto simp: planBehindInfeasibleMacHead_def Let_def)

lemma planLinuxHandoff_Some: "ds \<noteq> [] \<Longrightarrow> \<exists>r. planLinuxHandoff inp plan ds macs = Some r"
  using head_of_Some [of "priorityOrder inp ds"] by (auto simp: planLinuxHandoff_def Let_def)

lemma plan_mac_lane_Some:
  assumes "macs \<noteq> []"
  shows "\<exists>r. plan_mac_lane inp mode plan linux macs = Some r"
proof -
  obtain a where "planMacOS inp (set_macHandoff None (set_linuxHandoff None plan)) macs = Some a" using planMacOS_Some [OF assms] by blast
  moreover obtain b where "planMacWithCoexistence inp (set_linuxHandoff None plan) linux macs = Some b"
    using planMacWithCoexistence_Some [OF assms] by blast
  moreover obtain c where "planBehindInfeasibleMacHead inp (set_macHandoff None (set_linuxHandoff None plan)) linux macs = Some c"
    using planBehindInfeasibleMacHead_Some [OF assms] by blast
  moreover obtain d where "planMacHandoff inp (set_macHandoff None (set_linuxHandoff None plan)) linux macs = Some d"
    using planMacHandoff_Some [OF assms] by blast
  ultimately show ?thesis by (simp add: plan_mac_lane_def Let_def)
qed

lemma plan_linux_lane_Some:
  assumes "linux \<noteq> []"
  shows "\<exists>r. plan_linux_lane inp mode plan linux macs = Some r"
proof -
  have "\<exists>r. planLinuxWithCoexistence inp p linux macs = Some r" for p
    using planLinuxHandoff_Some [OF assms] by (simp add: planLinuxWithCoexistence_def Let_def)
  then obtain r where "planLinuxWithCoexistence inp (set_macHandoff (retainedMacHandoff (St_MacHandoff (In_Prior inp)) macs) plan) linux macs = Some r"
    by blast
  then show ?thesis by (simp add: plan_linux_lane_def Let_def)
qed

lemma planExclusiveMacHandoff_Some:
  assumes "ds \<noteq> []"
  shows "\<exists>r. planExclusiveMacHandoff inp plan ds = Some r"
proof -
  obtain first where first: "head_of ds = Some first" using head_of_Some [OF assms] by blast
  let ?ms = "case St_MacHandoff (In_Prior inp) of
    Some h \<Rightarrow> if MH_Profile h = Dem_Profile first then stableMacHandoffOrder (Some h) ds else ds | None \<Rightarrow> ds"
  have "?ms \<noteq> []" using assms by (simp split: option.split)
  then obtain head where "head_of ?ms = Some head" using head_of_Some by blast
  with first show ?thesis by (simp add: planExclusiveMacHandoff_def Let_def)
qed

lemma planExclusiveAdmission_Some:
  assumes "linux \<noteq> [] \<or> macs \<noteq> []"
  shows "\<exists>r. planExclusiveAdmission inp plan linux macs = Some r"
proof (cases "macs = []")
  case True
  with assms planLinuxHandoff_Some [of linux] show ?thesis by (simp add: planExclusiveAdmission_def Let_def)
next
  case False
  then obtain p where p: "chosenMacProfile inp macs = Some p" using chosenMacProfile_Some by blast
  have "macProfileFirst inp macs t \<noteq> []" for t
    using False by (metis mset_macProfileFirst mset_zero_iff)
  then have "\<exists>r. planExclusiveMacHandoff inp pl (macProfileFirst inp macs t) = Some r" for pl t
    using planExclusiveMacHandoff_Some by blast
  with False p show ?thesis by (simp add: planExclusiveAdmission_def Let_def)
qed

lemma plan_lanes_Some:
  assumes "ordered \<noteq> []" and "\<forall>d \<in> set ordered. Dem_Platform d \<in> {PlatformLinux, PlatformMacOS}"
  shows "\<exists>r. plan_lanes inp mode plan ordered = Some r"
proof -
  obtain d where d: "head_of ordered = Some d" "d \<in> set ordered" using assms(1) by (cases ordered) (auto simp: head_of_def)
  have some: "partition_linux ordered \<noteq> []" if "Dem_Platform d = PlatformLinux"
    using d(2) that by (auto simp: partition_linux_def filter_empty_conv)
  have some': "partition_macos ordered \<noteq> []" if "Dem_Platform d = PlatformMacOS"
    using d(2) that by (auto simp: partition_macos_def filter_empty_conv)
  have "partition_linux ordered \<noteq> [] \<or> partition_macos ordered \<noteq> []" using assms(2) d(2) some some' by blast
  note exclusive = planExclusiveAdmission_Some [OF this]
  show ?thesis
    using exclusive plan_mac_lane_Some [OF some'] plan_linux_lane_Some [OF some] d assms(2)
    by (auto simp: plan_lanes_def Let_def split: Platform.split)
qed

text \<open>
  C16. A tick always returns a plan when every configured profile is a Linux or a macOS profile: none of
  the places where the planner takes the head of a list is reached with an empty one.
\<close>

theorem tick_never_panics:
  assumes "list_all (\<lambda>(p, prof). Prof_Platform prof \<in> {PlatformLinux, PlatformMacOS}) (Cfg_Profiles (In_Config inp))"
  shows "\<exists>plan. PlanTick inp = Some plan"
proof -
  have "Dem_Platform d \<in> {PlatformLinux, PlatformMacOS}" if d: "d \<in> set (normalizedDemands inp)" for d
  proof -
    obtain prof where p: "map_of (Cfg_Profiles (In_Config inp)) (Dem_Profile d) = Some prof"
      using normalized_known(1) [OF d] by (auto simp: profile_known_def)
    then have "Prof_Platform prof = Dem_Platform d" using normalized_known(2) [OF d] by (simp add: profile_at_def)
    with map_of_SomeD [OF p] assms show ?thesis by (auto simp: list_all_iff)
  qed
  then have "\<exists>r. plan_lanes inp mode plan (priorityOrder inp (normalizedDemands inp)) = Some r"
    if "normalizedDemands inp \<noteq> []" for mode plan
    using plan_lanes_Some [of "priorityOrder inp (normalizedDemands inp)"] that by simp
  then have "\<exists>p. planTick inp = Some p" by (fastforce simp: planTick_def Let_def split: sum.split)
  then show ?thesis by (auto simp: PlanTick_def)
qed

text \<open>
  C17. A tick fails closed: when an observation is not usable, or an instance is live on a platform the
  host mode does not know, it plans nothing, says why, and hands back the durable state it was given. A
  recovery tick hands it back as well.
\<close>

theorem tick_fails_closed:
  "(\<not> observations_usable inp \<longrightarrow> (\<exists>plan. PlanTick inp = Some plan \<and> Plan_Status plan = PlanBlockedObservation
      \<and> Plan_Operations plan = [] \<and> Plan_Next plan = In_Prior inp \<and> Plan_Reason plan = blockedReason inp))
   \<and> (observations_usable inp \<and> DeriveHostMode (In_insts inp) = Inl err \<longrightarrow>
        (\<exists>plan. PlanTick inp = Some plan \<and> Plan_Status plan = PlanInvalidObservation
           \<and> Plan_Operations plan = [] \<and> Plan_Next plan = In_Prior inp \<and> Plan_Reason plan = err))
   \<and> (observations_usable inp \<and> DeriveHostMode (In_insts inp) = Inr mode \<and> tick_recoveries inp \<noteq> [] \<longrightarrow>
        (\<exists>plan. PlanTick inp = Some plan \<and> Plan_Operations plan = tick_recoveries inp \<and> Plan_Next plan = In_Prior inp))"
  by (auto simp: PlanTick_def planTick_def Let_def)

section \<open>A handoff, evaluated\<close>

text \<open>Four idle Linux instances and a macOS demand that does not fit beside them.\<close>

definition fx_idle :: "Instance list" where
  "fx_idle = map (\<lambda>n. fx_instance n ''a/x'' ''small'' PlatformLinux (fx_res 2 4 1) InstanceOnlineIdle) [''vm1'', ''vm2'', ''vm3'', ''vm4'']"

definition fx_handoff :: Input where
  "fx_handoff = fx_input fx_config [fx_demand ''a/x'' 1 990 ''mac'' PlatformMacOS] fx_idle (fx_res 10 64 8)"

lemma fx_handoff_plan:
  "\<exists>plan. PlanTick fx_handoff = Some plan \<and> length (Plan_Operations plan) = 5"
proof -
  have "map_option (\<lambda>plan. length (Plan_Operations plan)) (PlanTick fx_handoff) = Some 5" by code_simp
  then show ?thesis by auto
qed

lemma fx_handoff_sound: "sound_input fx_handoff" "distinct (map Inst_ID (In_insts fx_handoff))"
  by code_simp+

theorem tick_is_a_run_witness:
  "\<exists>plan. PlanTick fx_handoff = Some plan \<and> length (Plan_Operations plan) = 5 \<and> planned fx_handoff (Plan_Operations plan)"
proof -
  obtain plan where plan: "PlanTick fx_handoff = Some plan" "length (Plan_Operations plan) = 5"
    using fx_handoff_plan by blast
  have "tick_recoveries fx_handoff = []" by code_simp
  with tick_is_a_run [OF plan(1)] plan planned_none show ?thesis by auto
qed

theorem tick_repository_caps_witness:
  "\<exists>plan. PlanTick fx_handoff = Some plan \<and> activeRepoCounts fx_idle ''a/x''
     + int (length (filter (\<lambda>k. Key_Repo k = ''a/x'') (spawnedDemands (Plan_Operations plan)))) \<le> 2"
proof -
  obtain plan where plan: "PlanTick fx_handoff = Some plan" using fx_handoff_plan by blast
  have "max (activeRepoCounts (In_insts fx_handoff) ''a/x'') (repoCapLimit (Cfg_RepoCaps (In_Config fx_handoff)) ''a/x'') = 2" by code_simp
  with tick_repository_caps [OF plan fx_handoff_sound(2), of "''a/x''"] plan show ?thesis by (auto simp: fx_handoff_def)
qed

theorem tick_spawns_the_queue_witness:
  "\<exists>plan. PlanTick fx_handoff = Some plan \<and> distinct (spawnedDemands (Plan_Operations plan))"
  using fx_handoff_plan tick_spawns_the_queue [of fx_handoff] by blast

theorem tick_within_envelope_witness:
  "\<exists>plan. PlanTick fx_handoff = Some plan \<and> CPU (total_of ConsumesHostResources (after_plan fx_handoff (Plan_Operations plan))) \<le> 10"
proof -
  obtain plan where plan: "PlanTick fx_handoff = Some plan" using fx_handoff_plan by blast
  have "\<not> Cfg_ElasticHostEnvelope (In_Config fx_handoff)"
    "max (CPU (total_of ConsumesHostResources (In_insts fx_handoff))) (CPU (Cfg_LinuxCapacity (In_Config fx_handoff))) = 10" by code_simp+
  with tick_within_envelope [OF plan fx_handoff_sound(1), of CPU] plan show ?thesis by (auto simp: Let_def)
qed

theorem tick_cohort_limit_witness:
  "\<exists>plan. PlanTick fx_handoff = Some plan \<and> active_macs (after_plan fx_handoff (Plan_Operations plan)) ''mac'' \<le> 2"
proof -
  obtain plan where plan: "PlanTick fx_handoff = Some plan" using fx_handoff_plan by blast
  have "max (active_macs (In_insts fx_handoff) ''mac'') (macProfileLimit (profile_at (In_Config fx_handoff) ''mac'')) = 2" by code_simp
  with tick_cohort_limit [OF plan fx_handoff_sound(1), of "''mac''"] plan show ?thesis by auto
qed

theorem tick_dependencies_precede_witness:
  "\<exists>plan xs q. PlanTick fx_handoff = Some plan \<and> Plan_Operations plan = xs @ [q] \<and> length xs = 4
     \<and> set (Op_DependsOn q) \<subseteq> Op_ID ` {r \<in> set xs. Op_Kind r = OperationDrain}"
proof -
  obtain plan where plan: "PlanTick fx_handoff = Some plan" "length (Plan_Operations plan) = 5"
    using fx_handoff_plan by blast
  then obtain xs q where ops: "Plan_Operations plan = xs @ [q]" by (cases "Plan_Operations plan" rule: rev_cases) auto
  with tick_dependencies_precede [OF plan(1), of xs q "[]"] plan show ?thesis by auto
qed

theorem tick_never_panics_witness: "\<exists>plan. PlanTick fx_handoff = Some plan"
  by (rule tick_never_panics) code_simp

theorem tick_fails_closed_witness:
  "\<exists>plan. PlanTick (fx_handoff\<lparr>In_Host := Unavailable \<lparr>Host_Available = zero_Resources, Host_Capacity = zero_Resources\<rparr> ''no reading''\<rparr>) = Some plan
     \<and> Plan_Operations plan = []"
proof -
  let ?inp = "fx_handoff\<lparr>In_Host := Unavailable \<lparr>Host_Available = zero_Resources, Host_Capacity = zero_Resources\<rparr> ''no reading''\<rparr>"
  have "\<not> observations_usable ?inp" by code_simp
  with tick_fails_closed [of ?inp] show ?thesis by blast
qed

end
