(* ===== verification/Boundary_Cases.thy ===== *)
theory Boundary_Cases
  imports Tick_Safety
begin

text \<open>
  Concrete inputs on which the planner does something its comments rule out. They mark where the
  hypotheses of the theorems about a tick are needed.
\<close>

section \<open>Where the planner leaves its stated bounds\<close>

text \<open>
  The mixed-profile handoff. Three idle Linux instances leave no room for the macOS head; behind their
  drains the pass charges every candidate with the head's vector, so a larger profile is admitted
  at the smaller price and the plan exceeds the configured nine cores.
\<close>

definition fx_two_profiles :: Input where
  "fx_two_profiles = fx_input (fx_config\<lparr>Cfg_LinuxCapacity := fx_res 9 64 8\<rparr>)
     [fx_demand ''a/x'' 1 990 ''mac'' PlatformMacOS, fx_demand ''b/y'' 2 991 ''big'' PlatformMacOS] (take 3 fx_idle) (fx_res 9 64 8)"

text \<open>
  Behind three drained Linux instances the tick plans a macOS instance of four and one of six cores
  on a configured capacity of nine.
\<close>

theorem handoff_of_two_profiles_exceeds_capacity:
  "map_option (\<lambda>plan. CPU (total_of ConsumesHostResources (after_plan fx_two_profiles (Plan_Operations plan)))) (PlanTick fx_two_profiles) = Some 10
   \<and> CPU (total_of ConsumesHostResources (In_insts fx_two_profiles)) = 6 \<and> CPU (Cfg_LinuxCapacity (In_Config fx_two_profiles)) = 9"
  by code_simp

text \<open>
  The default branch of the macOS lane. With mixed admission and mixed cohorts both off, a macOS demand
  is spawned beside a running macOS instance of another profile when Linux work is queued.
\<close>

definition fx_foreign_cohort :: Input where
  "fx_foreign_cohort = fx_input (fx_config\<lparr>Cfg_MixedPlatformAdmission := False\<rparr>)
     [fx_demand ''a/x'' 1 500 ''mac'' PlatformMacOS, fx_demand ''b/y'' 2 991 ''small'' PlatformLinux]
     [fx_instance ''vm1'' ''b/y'' ''big'' PlatformMacOS (fx_res 6 12 1) InstanceRunning] (fx_res 10 64 8)"

text \<open>
  With mixed cohorts off, the tick spawns one macOS profile beside a running instance of another.
\<close>

theorem second_cohort_is_spawned:
  "map_option (\<lambda>plan. map Op_Profile (Plan_Operations plan)) (PlanTick fx_foreign_cohort) = Some [''mac'']
   \<and> \<not> Cfg_MixedProfileCohorts (In_Config fx_foreign_cohort)"
  by code_simp

text \<open>
  The complementary pass plans against the capacity left by the planned spawns, and against the
  observed availability as it was: the combined plan takes eight cores where five were available.
\<close>

definition fx_scarce :: Input where
  "fx_scarce = fx_input fx_config
     [fx_demand ''a/x'' 1 990 ''mac'' PlatformMacOS, fx_demand ''b/y'' 2 991 ''small'' PlatformLinux,
      fx_demand ''c/z'' 3 992 ''small'' PlatformLinux] [] (fx_res 5 64 8)"

theorem remainder_exceeds_available:
  "map_option (\<lambda>plan. CPU (total_of ConsumesHostResources (after_plan fx_scarce (Plan_Operations plan)))) (PlanTick fx_scarce) = Some 8
   \<and> CPU (Host_Available (Ob_Value (In_Host fx_scarce))) = 5"
  by code_simp

text \<open>
  A profile of a third platform under exclusive admission with a live macOS instance: the Linux handoff
  takes the head of an empty queue.
\<close>

definition fx_third_platform :: Input where
  "fx_third_platform = fx_input (fx_config\<lparr>Cfg_MacOSExclusive := True,
       Cfg_Profiles := [(''odd'', fx_profile ''odd'' (PlatformOther ''bsd'') (fx_res 2 4 1) 0)]\<rparr>)
     [fx_demand ''a/x'' 1 990 ''odd'' (PlatformOther ''bsd'')]
     [fx_instance ''vm1'' ''b/y'' ''mac'' PlatformMacOS (fx_res 4 8 1) InstanceRunning] (fx_res 10 64 8)"

text \<open>
  A tick whose queue holds a third platform only, with a live macOS instance under exclusive admission, does
  not return a plan.
\<close>

theorem third_platform_panics: "PlanTick fx_third_platform = None"
  by code_simp

text \<open>
  The fair share of the aged band. A scope that holds an instance and queues two demands of one profile behind a demand
  of another profile: the younger demand of the scope precedes its older one.
\<close>

definition fx_shares :: Input where
  "fx_shares = fx_input (fx_config\<lparr>Cfg_Profiles := (''other'', fx_profile ''other'' PlatformLinux (fx_res 2 4 1) 0) # Cfg_Profiles fx_config\<rparr>)
     [fx_demand ''s/a'' 1 100 ''small'' PlatformLinux, fx_demand ''s/b'' 2 200 ''other'' PlatformLinux,
      fx_demand ''t/c'' 3 300 ''small'' PlatformLinux]
     [fx_instance ''vm1'' ''s/a'' ''small'' PlatformLinux (fx_res 2 4 1) InstanceRunning] (fx_res 10 64 8)"

theorem fair_share_reorders_one_scope:
  "map Dem_Repo (priorityOrder fx_shares (normalizedDemands fx_shares)) = [''t/c'', ''s/b'', ''s/a'']"
  by code_simp

end
