(* ===== verification/Headroom.thy ===== *)
theory Headroom
  imports Mac_Planner
begin

text \<open>
  The capacity a node advertises (\<open>internal/scheduler/headroom.go\<close>): how the residual envelope is
  divided among the scale sets that draw on it, and the standing offer of a Linux profile.
\<close>

section \<open>Claims\<close>

record Claim =
  Cl_Profile :: ProfileID
  Cl_Room :: int
  Cl_Waiting :: int

definition Unsized :: int where
  "Unsized = - 1"

definition shareRotation :: duration where
  "shareRotation = 30 * second"

text \<open>
  Go's integer division truncates towards zero and its remainder has the sign of the dividend;
  \<open>Time.Unix\<close> counts whole seconds since January 1 of 1970.
\<close>

definition go_quot :: "int \<Rightarrow> int \<Rightarrow> int" where
  "go_quot a b = sgn a * sgn b * (\<bar>a\<bar> div \<bar>b\<bar>)"

definition go_rem :: "int \<Rightarrow> int \<Rightarrow> int" where
  "go_rem a b = a - b * go_quot a b"

definition time_Unix :: "time \<Rightarrow> int" where
  "time_Unix t = t div second - 62135596800"

definition max_int :: int where
  "max_int = 2 ^ 63 - 1"

definition exhaust :: "Resources \<Rightarrow> Resources \<Rightarrow> Resources" where
  "exhaust free owed = \<lparr>CPU = max 0 (CPU free - CPU owed), MemoryMB = max 0 (MemoryMB free - MemoryMB owed),
     Slots = max 0 (Slots free - Slots owed)\<rparr>"

definition cohortSize :: "Input \<Rightarrow> ProfileID \<Rightarrow> Demand list \<Rightarrow> int" where
  "cohortSize inp profile waiting =
     (let incarnated = map Inst_Demand (filter IncarnatesDemand (In_insts inp)) in
      int (length (filter (\<lambda>i. ConsumesHostResources i \<and> Inst_Profile i = profile) (In_insts inp)))
      + int (length (filter (\<lambda>d. Dem_Profile d = profile \<and> Dem_Key d \<notin> set incarnated) waiting)))"

section \<open>The partition\<close>

record headroom =
  HS_free :: Resources
  HS_cohort :: "ProfileID \<rightharpoonup> int"
  HS_shares :: "int list"

definition sized :: "Config \<Rightarrow> ProfileID \<Rightarrow> bool" where
  "sized cfg p \<longleftrightarrow> \<not> (\<not> profile_known cfg p \<or> Prof_Resources (profile_at cfg p) = zero_Resources)"

text \<open>The loop that files the macOS cohorts and marks the claims that have no size.\<close>

fun open_claims :: "Input \<Rightarrow> Demand list \<Rightarrow> nat \<Rightarrow> Claim list \<Rightarrow> headroom \<Rightarrow> headroom" where
  "open_claims inp waiting index [] s = s"
| "open_claims inp waiting index (claim # rest) s =
     (let definition = profile_at (In_Config inp) (Cl_Profile claim) in
      if \<not> sized (In_Config inp) (Cl_Profile claim)
      then open_claims inp waiting (Suc index) rest (s\<lparr>HS_shares := (HS_shares s)[index := Unsized]\<rparr>)
      else if Prof_Platform definition = PlatformMacOS \<and> HS_cohort s (Cl_Profile claim) = None
      then open_claims inp waiting (Suc index) rest (s\<lparr>HS_cohort := (HS_cohort s)(Cl_Profile claim \<mapsto>
             max 0 (macProfileLimit definition - cohortSize inp (Cl_Profile claim) waiting))\<rparr>)
      else open_claims inp waiting (Suc index) rest s)"

text \<open>A Go map read of a missing key is zero; \<open>None\<close> is the answer false.\<close>

definition cohort_left :: "headroom \<Rightarrow> ProfileID \<Rightarrow> int" where
  "cohort_left s p = (case HS_cohort s p of Some n \<Rightarrow> n | None \<Rightarrow> 0)"

definition grant :: "Config \<Rightarrow> Claim list \<Rightarrow> nat \<Rightarrow> headroom \<Rightarrow> headroom option" where
  "grant cfg claims index s =
     (let profile = Cl_Profile (claims ! index); definition = profile_at cfg profile in
      if \<not> CanFit (HS_free s) (Prof_Resources definition) then None
      else if Prof_Platform definition = PlatformMacOS \<and> cohort_left s profile = 0 then None
      else Some (s\<lparr>HS_free := exhaust (HS_free s) (Prof_Resources definition),
                  HS_cohort := (if Prof_Platform definition = PlatformMacOS
                                then (HS_cohort s)(profile \<mapsto> cohort_left s profile - 1) else HS_cohort s),
                  HS_shares := (HS_shares s)[index := HS_shares s ! index + 1]\<rparr>))"

text \<open>One round over the claims. The indices are remainders by the number of claims, so they are in range.\<close>

fun grant_round :: "Config \<Rightarrow> Claim list \<Rightarrow> (Claim \<Rightarrow> int) \<Rightarrow> nat list \<Rightarrow> headroom \<Rightarrow> headroom \<times> bool" where
  "grant_round cfg claims limit [] s = (s, False)"
| "grant_round cfg claims limit (index # rest) s =
     (if index < length (HS_shares s) \<and> HS_shares s ! index \<noteq> Unsized \<and> HS_shares s ! index < limit (claims ! index)
      then (case grant cfg claims index s of
              Some s' \<Rightarrow> (fst (grant_round cfg claims limit rest s'), True)
            | None \<Rightarrow> grant_round cfg claims limit rest s)
      else grant_round cfg claims limit rest s)"

text \<open>What the claims may still be granted: it falls with every unit, so the rounds end.\<close>

definition wanted :: "Claim list \<Rightarrow> (Claim \<Rightarrow> int) \<Rightarrow> headroom \<Rightarrow> nat" where
  "wanted claims limit s = (\<Sum>i < length (HS_shares s). nat (limit (claims ! i) - HS_shares s ! i))"

lemma length_grant: "grant cfg claims i s = Some s' \<Longrightarrow> length (HS_shares s') = length (HS_shares s)"
  by (auto simp: grant_def Let_def split: if_splits)

lemma wanted_grant:
  assumes "grant cfg claims i s = Some s'" and i: "i < length (HS_shares s)" "HS_shares s ! i < limit (claims ! i)"
  shows "wanted claims limit s' < wanted claims limit s"
proof -
  have shares: "HS_shares s' = (HS_shares s)[i := HS_shares s ! i + 1]"
    using assms(1) by (auto simp: grant_def Let_def split: if_splits)
  show ?thesis
    unfolding wanted_def shares length_list_update
    by (rule sum_strict_mono_ex1) (use i in \<open>auto simp: nth_list_update intro!: bexI [of _ i]\<close>)
qed

lemma wanted_round:
  "wanted claims limit (fst (grant_round cfg claims limit is s)) \<le> wanted claims limit s
   \<and> (snd (grant_round cfg claims limit is s) \<longrightarrow>
        wanted claims limit (fst (grant_round cfg claims limit is s)) < wanted claims limit s)"
proof (induction "is" arbitrary: s)
  case (Cons i rest)
  let ?tried = "i < length (HS_shares s) \<and> HS_shares s ! i \<noteq> Unsized \<and> HS_shares s ! i < limit (claims ! i)"
  show ?case
  proof (cases "?tried \<and> grant cfg claims i s \<noteq> None")
    case True
    then obtain s' where s': "grant cfg claims i s = Some s'" by blast
    with True have "wanted claims limit s' < wanted claims limit s" by (simp add: wanted_grant)
    with Cons [of s'] s' True show ?thesis by simp
  next
    case False
    with Cons [of s] show ?thesis by auto
  qed
qed simp

function grant_loop :: "Config \<Rightarrow> Claim list \<Rightarrow> (Claim \<Rightarrow> int) \<Rightarrow> nat list \<Rightarrow> headroom \<Rightarrow> headroom" where
  "grant_loop cfg claims limit indices s =
     (case grant_round cfg claims limit indices s of (s', granted) \<Rightarrow>
        if granted then grant_loop cfg claims limit indices s' else s')"
  by pat_completeness auto
termination
  by (relation "measure (\<lambda>(cfg, claims, limit, indices, s). wanted claims limit s)")
    (simp_all, metis fst_conv snd_conv wanted_round)

declare grant_loop.simps [simp del]

definition residual :: "Input \<Rightarrow> Resources" where
  "residual inp = foldl exhaust (linuxFreeAged inp) (queuedVectors (In_Config inp) (In_insts inp) (normalizedDemands inp))"

text \<open>
  The answer false is the inner \<^const>\<open>None\<close>. Before 1970 the rotation would be negative and the first
  share read out of range, the outer \<^const>\<open>None\<close>.
\<close>

definition PartitionHeadroom :: "Input \<Rightarrow> Claim list \<Rightarrow> int list option option" where
  "PartitionHeadroom inp claims =
     (if \<not> Usable (In_Demands inp) \<or> \<not> Usable (In_Instances inp) \<or> \<not> Usable (In_Host inp) then Some None
      else
        (let waiting = normalizedDemands inp;
             s0 = open_claims inp waiting 0 claims
                    \<lparr>HS_free = residual inp, HS_cohort = (\<lambda>_. None), HS_shares = replicate (length claims) 0\<rparr>;
             start = (if claims \<noteq> [] then go_rem (go_quot (time_Unix (In_Now inp)) (shareRotation div second)) (int (length claims)) else 0);
             indices = map (\<lambda>offset. nat (go_rem (start + int offset) (int (length claims)))) [0..<length claims]
         in if start < 0 then None
            else
              (let s1 = grant_loop (In_Config inp) claims (\<lambda>claim. min (Cl_Room claim) (Cl_Waiting claim)) indices s0;
                   s2 = grant_loop (In_Config inp) claims Cl_Room indices s1
               in Some (Some (HS_shares s2)))))"

section \<open>The standing offer\<close>

definition holdsMeasuredMemory :: "InstanceState \<Rightarrow> bool" where
  "holdsMeasuredMemory s \<longleftrightarrow> s \<noteq> InstancePlanned \<and> s \<noteq> InstanceCloning"

definition drainedMemory :: "Input \<Rightarrow> int" where
  "drainedMemory inp =
     (if \<not> Usable (In_Host inp) then max_int
      else foldl (\<lambda>memory i. if Inst_Platform i = PlatformLinux \<and> ConsumesHostResources i \<and> holdsMeasuredMemory (Inst_State i)
                             then memory + MemoryMB (Inst_Resources i) else memory)
             (max 0 (MemoryMB (Host_Available (Ob_Value (In_Host inp))))) (In_insts inp))"

definition drained_input :: "Input \<Rightarrow> Input" where
  "drained_input inp = inp\<lparr>In_Host := (In_Host inp)\<lparr>Ob_Value := (Ob_Value (In_Host inp))\<lparr>Host_Available :=
     \<lparr>CPU = max_int, MemoryMB = drainedMemory inp, Slots = max_int\<rparr>\<rparr>\<rparr>\<rparr>"

definition FitsOnceLinuxDrains :: "Input \<Rightarrow> ProfileID \<Rightarrow> bool" where
  "FitsOnceLinuxDrains inp profile =
     (if \<not> profile_known (In_Config inp) profile \<or> Prof_Platform (profile_at (In_Config inp) profile) \<noteq> PlatformLinux then True
      else
        (let outlasting = filter (\<lambda>i. Inst_Platform i \<noteq> PlatformLinux) (In_insts inp);
             free = freeCapacity (drained_input inp) outlasting True;
             macos = partition_macos (normalizedDemands inp)
         in CanFit (foldl exhaust free (queuedVectors (In_Config inp) (In_insts inp) macos))
              (Prof_Resources (profile_at (In_Config inp) profile))))"

section \<open>Rounds\<close>

definition grant_keeps :: "Config \<Rightarrow> Claim list \<Rightarrow> (Claim \<Rightarrow> int) \<Rightarrow> (headroom \<Rightarrow> bool) \<Rightarrow> bool" where
  "grant_keeps cfg claims limit P \<longleftrightarrow> (\<forall>i s s'. P s \<longrightarrow> i < length (HS_shares s) \<longrightarrow> HS_shares s ! i \<noteq> Unsized \<longrightarrow>
     HS_shares s ! i < limit (claims ! i) \<longrightarrow> grant cfg claims i s = Some s' \<longrightarrow> P s')"

lemma grant_round_keeps: "grant_keeps cfg claims limit P \<Longrightarrow> P s \<Longrightarrow> P (fst (grant_round cfg claims limit is s))"
proof (induction "is" arbitrary: s)
  case (Cons i rest)
  let ?tried = "i < length (HS_shares s) \<and> HS_shares s ! i \<noteq> Unsized \<and> HS_shares s ! i < limit (claims ! i)"
  show ?case
  proof (cases "?tried \<and> grant cfg claims i s \<noteq> None")
    case True
    then obtain s' where s': "grant cfg claims i s = Some s'" by blast
    with Cons.prems True have "P s'" unfolding grant_keeps_def by blast
    with Cons.IH [OF Cons.prems(1)] s' True show ?thesis by simp
  next
    case False
    with Cons show ?thesis by auto
  qed
qed simp

lemma grant_loop_keeps: "grant_keeps cfg claims limit P \<Longrightarrow> P s \<Longrightarrow> P (grant_loop cfg claims limit is s)"
proof (induction cfg claims limit "is" s rule: grant_loop.induct)
  case (1 cfg claims limit "is" s)
  obtain s' g where r: "grant_round cfg claims limit is s = (s', g)" by fastforce
  have "P s'" using grant_round_keeps [OF "1.prems", of "is"] r by simp
  with "1.IH" [OF r [symmetric] _ "1.prems"(1)] r show ?case by (subst grant_loop.simps) simp
qed

text \<open>A round that grants nothing leaves the state alone, and refuses every claim it may serve.\<close>

lemma grant_round_idle:
  "\<not> snd (grant_round cfg claims limit is s) \<Longrightarrow> fst (grant_round cfg claims limit is s) = s
     \<and> (\<forall>i \<in> set is. i < length (HS_shares s) \<longrightarrow> HS_shares s ! i \<noteq> Unsized \<longrightarrow> HS_shares s ! i < limit (claims ! i)
          \<longrightarrow> grant cfg claims i s = None)"
  by (induction "is") (auto split: option.splits if_splits)

lemma grant_loop_done:
  fixes cfg claims limit "is" s
  defines "r \<equiv> grant_loop cfg claims limit is s"
  shows "\<forall>i \<in> set is. i < length (HS_shares r) \<longrightarrow> HS_shares r ! i \<noteq> Unsized \<longrightarrow> HS_shares r ! i < limit (claims ! i)
    \<longrightarrow> grant cfg claims i r = None"
  unfolding r_def
proof (induction cfg claims limit "is" s rule: grant_loop.induct)
  case (1 cfg claims limit "is" s)
  obtain s' g where r: "grant_round cfg claims limit is s = (s', g)" by fastforce
  show ?case
  proof (cases g)
    case True
    with 1 [OF r [symmetric]] r show ?thesis by (subst (1 2 3 4) grant_loop.simps) simp
  next
    case False
    with r grant_round_idle [of cfg claims limit "is" s] show ?thesis by (subst (1 2 3 4) grant_loop.simps) simp
  qed
qed

section \<open>What the shares add up to\<close>

definition claim_vector :: "Config \<Rightarrow> Claim \<Rightarrow> Resources" where
  "claim_vector cfg c = Prof_Resources (profile_at cfg (Cl_Profile c))"

definition offered :: "(Resources \<Rightarrow> int) \<Rightarrow> Config \<Rightarrow> Claim list \<Rightarrow> int list \<Rightarrow> int" where
  "offered x cfg claims shares = (\<Sum>i < length claims. max 0 (shares ! i) * x (claim_vector cfg (claims ! i)))"

definition offered_to :: "ProfileID \<Rightarrow> Claim list \<Rightarrow> int list \<Rightarrow> int" where
  "offered_to p claims shares = (\<Sum>i < length claims. if Cl_Profile (claims ! i) = p then max 0 (shares ! i) else 0)"

definition cohort_room :: "Input \<Rightarrow> ProfileID \<Rightarrow> int" where
  "cohort_room inp p = max 0 (macProfileLimit (profile_at (In_Config inp) p) - cohortSize inp p (normalizedDemands inp))"

definition mac_claimed :: "Input \<Rightarrow> Claim list \<Rightarrow> ProfileID \<Rightarrow> bool" where
  "mac_claimed inp claims p \<longleftrightarrow> p \<in> Cl_Profile ` set claims \<and> sized (In_Config inp) p
     \<and> Prof_Platform (profile_at (In_Config inp) p) = PlatformMacOS"

definition shares_ok :: "Input \<Rightarrow> Claim list \<Rightarrow> headroom \<Rightarrow> bool" where
  "shares_ok inp claims s \<longleftrightarrow> length (HS_shares s) = length claims \<and> Res_nonneg (HS_free s)
     \<and> (\<forall>x \<in> {CPU, MemoryMB, Slots}. x (HS_free s) + offered x (In_Config inp) claims (HS_shares s) = x (residual inp))
     \<and> (\<forall>i < length claims. if sized (In_Config inp) (Cl_Profile (claims ! i))
          then 0 \<le> HS_shares s ! i \<and> HS_shares s ! i \<le> max 0 (Cl_Room (claims ! i)) else HS_shares s ! i = Unsized)
     \<and> (\<forall>p. mac_claimed inp claims p \<longrightarrow> 0 \<le> cohort_left s p \<and> cohort_left s p + offered_to p claims (HS_shares s) = cohort_room inp p)"

lemma sum_update:
  fixes f :: "nat \<Rightarrow> int \<Rightarrow> int"
  assumes "i < n" and "length xs = n"
  shows "(\<Sum>j < n. f j (xs[i := v] ! j)) = (\<Sum>j < n. f j (xs ! j)) + (f i v - f i (xs ! i))"
proof -
  have "(\<Sum>j < n. f j (xs[i := v] ! j)) = f i v + (\<Sum>j \<in> {..<n} - {i}. f j (xs ! j))"
    using assms by (subst sum.remove [of _ i]) (auto simp: nth_list_update intro: sum.cong)
  moreover have "(\<Sum>j < n. f j (xs ! j)) = f i (xs ! i) + (\<Sum>j \<in> {..<n} - {i}. f j (xs ! j))"
    using assms by (subst sum.remove [of _ i]) auto
  ultimately show ?thesis by simp
qed

lemma shares_ok_grant:
  assumes ok: "shares_ok inp claims s" and g: "grant (In_Config inp) claims i s = Some s'"
    and i: "i < length (HS_shares s)" "HS_shares s ! i \<noteq> Unsized" "HS_shares s ! i < limit (claims ! i)"
    and lim: "limit (claims ! i) \<le> Cl_Room (claims ! i)"
  shows "shares_ok inp claims s'"
proof -
  let ?c = "claims ! i" and ?cfg = "In_Config inp" and ?p = "Cl_Profile (claims ! i)"
  let ?v = "claim_vector ?cfg ?c" and ?mac = "Prof_Platform (profile_at ?cfg ?p) = PlatformMacOS"
  have n: "i < length claims" "length (HS_shares s) = length claims" using ok i(1) by (simp_all add: shares_ok_def)
  have sz: "sized ?cfg ?p" "0 \<le> HS_shares s ! i" using ok i(2) n(1) by (auto simp: shares_ok_def split: if_splits)
  have fits: "CanFit (HS_free s) ?v" and left: "?mac \<Longrightarrow> cohort_left s ?p \<noteq> 0"
    and s': "HS_free s' = exhaust (HS_free s) ?v" "HS_shares s' = (HS_shares s)[i := HS_shares s ! i + 1]"
      "HS_cohort s' = (if ?mac then (HS_cohort s)(?p \<mapsto> cohort_left s ?p - 1) else HS_cohort s)"
    using g by (auto simp: grant_def Let_def claim_vector_def split: if_splits)
  have off: "offered x ?cfg claims (HS_shares s') = offered x ?cfg claims (HS_shares s) + x ?v" for x
    unfolding offered_def s'(2) using sum_update [OF n(1,2), of "\<lambda>j h. max 0 h * x (claim_vector ?cfg (claims ! j))" "HS_shares s ! i + 1"] sz(2)
    by (simp add: distrib_right)
  have off_p: "offered_to p claims (HS_shares s') = offered_to p claims (HS_shares s) + (if p = ?p then 1 else 0)" for p
    unfolding offered_to_def s'(2) using sum_update [OF n(1,2), of "\<lambda>j h. if Cl_Profile (claims ! j) = p then max 0 h else 0"] sz(2)
    by simp
  have free: "Res_nonneg (HS_free s')" "\<forall>x \<in> {CPU, MemoryMB, Slots}. x (HS_free s') = x (HS_free s) - x ?v"
    using fits by (auto simp: s'(1) exhaust_def CanFit_def Res_nonneg_def)
  have cohort: "cohort_left s' p = cohort_left s p - (if ?mac \<and> p = ?p then 1 else 0)" for p
    by (simp add: cohort_left_def s'(3))
  have "0 \<le> cohort_left s' p \<and> cohort_left s' p + offered_to p claims (HS_shares s') = cohort_room inp p" if p: "mac_claimed inp claims p" for p
  proof -
    have "0 \<le> cohort_left s p" "cohort_left s p + offered_to p claims (HS_shares s) = cohort_room inp p"
      using ok p by (auto simp: shares_ok_def)
    moreover have "p = ?p \<Longrightarrow> ?mac" using p by (auto simp: mac_claimed_def)
    ultimately show ?thesis using left by (auto simp: cohort off_p)
  qed
  moreover have "\<forall>j < length claims. if sized ?cfg (Cl_Profile (claims ! j))
      then 0 \<le> HS_shares s' ! j \<and> HS_shares s' ! j \<le> max 0 (Cl_Room (claims ! j)) else HS_shares s' ! j = Unsized"
    using ok sz i(3) lim n by (auto simp: shares_ok_def s'(2) nth_list_update)
  ultimately show ?thesis using ok free off n(2) by (simp add: shares_ok_def s'(2))
qed

section \<open>Opening the claims\<close>

lemma open_claims_spec:
  fixes inp index claims s
  defines "r \<equiv> open_claims inp (normalizedDemands inp) index claims s"
  assumes "length (HS_shares s) = index + length claims"
  shows "HS_free r = HS_free s \<and> length (HS_shares r) = length (HS_shares s)
    \<and> (\<forall>j < index. HS_shares r ! j = HS_shares s ! j)
    \<and> (\<forall>j < length claims. HS_shares r ! (index + j) =
         (if sized (In_Config inp) (Cl_Profile (claims ! j)) then HS_shares s ! (index + j) else Unsized))
    \<and> (\<forall>p. HS_cohort r p = (if HS_cohort s p = None \<and> mac_claimed inp claims p then Some (cohort_room inp p) else HS_cohort s p))"
  using assms(2) unfolding r_def
proof (induction claims arbitrary: index s)
  case Nil
  then show ?case by (simp add: mac_claimed_def)
next
  case (Cons c claims)
  let ?p = "Cl_Profile c" and ?cfg = "In_Config inp"
  define s1 where "s1 = (if \<not> sized ?cfg ?p then s\<lparr>HS_shares := (HS_shares s)[index := Unsized]\<rparr>
    else if Prof_Platform (profile_at ?cfg ?p) = PlatformMacOS \<and> HS_cohort s ?p = None
    then s\<lparr>HS_cohort := (HS_cohort s)(?p \<mapsto> cohort_room inp ?p)\<rparr> else s)"
  have step: "open_claims inp (normalizedDemands inp) index (c # claims) s = open_claims inp (normalizedDemands inp) (Suc index) claims s1"
    by (simp add: s1_def Let_def cohort_room_def)
  have s1: "HS_free s1 = HS_free s" "length (HS_shares s1) = length (HS_shares s)"
    "HS_shares s1 = (if sized ?cfg ?p then HS_shares s else (HS_shares s)[index := Unsized])"
    "HS_cohort s1 = (if sized ?cfg ?p \<and> Prof_Platform (profile_at ?cfg ?p) = PlatformMacOS \<and> HS_cohort s ?p = None
       then (HS_cohort s)(?p \<mapsto> cohort_room inp ?p) else HS_cohort s)"
    by (simp_all add: s1_def)
  have "length (HS_shares s1) = Suc index + length claims" using Cons.prems s1(2) by simp
  note IH = Cons.IH [OF this, folded step]
  have "HS_shares (open_claims inp (normalizedDemands inp) index (c # claims) s) ! (index + j) =
      (if sized ?cfg (Cl_Profile ((c # claims) ! j)) then HS_shares s ! (index + j) else Unsized)" if "j < length (c # claims)" for j
    using IH that Cons.prems by (cases j) (auto simp: s1(3))
  moreover have "mac_claimed inp (c # claims) p \<longleftrightarrow>
      mac_claimed inp claims p \<or> p = ?p \<and> sized ?cfg ?p \<and> Prof_Platform (profile_at ?cfg ?p) = PlatformMacOS" for p
    by (auto simp: mac_claimed_def)
  ultimately show ?case using IH s1 by (auto simp: nth_list_update)
qed

lemma foldl_exhaust_nonneg: "Res_nonneg f \<Longrightarrow> Res_nonneg (foldl exhaust f vs)"
  by (induction vs arbitrary: f) (auto simp: exhaust_def Res_nonneg_def)

lemma shares_ok_open:
  assumes "envelope_wf inp (In_insts inp)"
  shows "shares_ok inp claims (open_claims inp (normalizedDemands inp) 0 claims
    \<lparr>HS_free = residual inp, HS_cohort = (\<lambda>_. None), HS_shares = replicate (length claims) 0\<rparr>)" (is "shares_ok inp claims ?s")
proof -
  have spec: "HS_free ?s = residual inp" "length (HS_shares ?s) = length claims"
    "\<forall>j < length claims. HS_shares ?s ! j = (if sized (In_Config inp) (Cl_Profile (claims ! j)) then 0 else Unsized)"
    "\<forall>p. HS_cohort ?s p = (if mac_claimed inp claims p then Some (cohort_room inp p) else None)"
    using open_claims_spec [of "\<lparr>HS_free = residual inp, HS_cohort = (\<lambda>_. None), HS_shares = replicate (length claims) 0\<rparr>" 0 claims inp]
    by simp_all
  have zero: "offered x (In_Config inp) claims (HS_shares ?s) = 0" "offered_to p claims (HS_shares ?s) = 0" for x p
    using spec(3) by (auto simp: offered_def offered_to_def Unsized_def intro!: sum.neutral)
  have "Res_nonneg (residual inp)"
    unfolding residual_def linuxFreeAged_def by (rule foldl_exhaust_nonneg [OF freeCapacity_nonneg [OF assms]])
  then show ?thesis using spec zero by (auto simp: shares_ok_def cohort_left_def cohort_room_def)
qed

section \<open>The rotation\<close>

lemma go_rem_mod: "0 \<le> a \<Longrightarrow> 0 < b \<Longrightarrow> go_rem a b = a mod b"
  by (cases "a = 0") (simp_all add: go_rem_def go_quot_def minus_mult_div_eq_mod)

lemma rotation_covers:
  assumes "0 \<le> start"
  shows "set (map (\<lambda>offset. nat (go_rem (start + int offset) (int n))) [0..<n]) = {..<n}"
proof (intro equalityI subsetI)
  fix j assume "j \<in> {..<n}"
  then have j: "j < n" by simp
  define off where "off = nat ((int j - start) mod int n)"
  have "off < n" using j by (simp add: off_def nat_less_iff)
  moreover have "(start + int off) mod int n = int j"
    using j by (simp add: off_def mod_simps)
  ultimately show "j \<in> set (map (\<lambda>offset. nat (go_rem (start + int offset) (int n))) [0..<n])"
    using j assms by (auto simp: go_rem_mod intro!: image_eqI [of _ _ off])
qed (use assms in \<open>auto simp: go_rem_mod nat_less_iff\<close>)

section \<open>What is offered can start\<close>

lemma shares_ok_loops:
  assumes "\<And>c. limit c \<le> Cl_Room c" and "shares_ok inp claims s"
  shows "shares_ok inp claims (grant_loop (In_Config inp) claims limit is s)"
proof (rule grant_loop_keeps [where P = "shares_ok inp claims", OF _ assms(2)])
  show "grant_keeps (In_Config inp) claims limit (shares_ok inp claims)"
    unfolding grant_keeps_def using shares_ok_grant assms(1) by blast
qed

definition granted_fully :: "Input \<Rightarrow> Claim list \<Rightarrow> int list \<Rightarrow> nat \<Rightarrow> bool" where
  "granted_fully inp claims shares i \<longleftrightarrow>
     (\<exists>x \<in> {CPU, MemoryMB, Slots}. x (residual inp) - offered x (In_Config inp) claims shares < x (claim_vector (In_Config inp) (claims ! i)))
     \<or> mac_claimed inp claims (Cl_Profile (claims ! i))
       \<and> offered_to (Cl_Profile (claims ! i)) claims shares = cohort_room inp (Cl_Profile (claims ! i))"

lemma refused_fully:
  assumes ok: "shares_ok inp claims s" and i: "i < length claims" "sized (In_Config inp) (Cl_Profile (claims ! i))"
    and refused: "grant (In_Config inp) claims i s = None"
  shows "granted_fully inp claims (HS_shares s) i"
proof -
  let ?p = "Cl_Profile (claims ! i)"
  have free: "\<forall>x \<in> {CPU, MemoryMB, Slots}. x (HS_free s) + offered x (In_Config inp) claims (HS_shares s) = x (residual inp)"
    using ok by (simp add: shares_ok_def)
  consider "\<not> CanFit (HS_free s) (claim_vector (In_Config inp) (claims ! i))"
    | "Prof_Platform (profile_at (In_Config inp) ?p) = PlatformMacOS" "cohort_left s ?p = 0"
    using refused by (auto simp: grant_def Let_def claim_vector_def split: if_splits)
  then show ?thesis
  proof cases
    case 1
    then show ?thesis using free by (auto simp: CanFit_def granted_fully_def)
  next
    case 2
    then have mac: "mac_claimed inp claims ?p" using i by (auto simp: mac_claimed_def)
    then have "cohort_left s ?p + offered_to ?p claims (HS_shares s) = cohort_room inp ?p" using ok by (simp add: shares_ok_def)
    with 2 mac show ?thesis by (simp add: granted_fully_def)
  qed
qed

text \<open>
  C12. The offers of a node can all start at once, and no more could. Every claim whose profile has a size is
  granted between nothing and its room, all grants together fit the residual envelope, the grants of a
  macOS profile fit its cohort, and a claim below its room stands there because one more of its
  vectors would not fit or its cohort is full. A claim without a size is marked as such.
\<close>

theorem headroom_partition:
  assumes "PartitionHeadroom inp claims = Some (Some shares)" and wf: "envelope_wf inp (In_insts inp)"
  shows "length shares = length claims
    \<and> (\<forall>i < length claims. if sized (In_Config inp) (Cl_Profile (claims ! i))
         then 0 \<le> shares ! i \<and> shares ! i \<le> max 0 (Cl_Room (claims ! i)) else shares ! i = Unsized)
    \<and> (\<forall>x \<in> {CPU, MemoryMB, Slots}. offered x (In_Config inp) claims shares \<le> x (residual inp))
    \<and> (\<forall>p. mac_claimed inp claims p \<longrightarrow> offered_to p claims shares \<le> cohort_room inp p)
    \<and> (\<forall>i < length claims. sized (In_Config inp) (Cl_Profile (claims ! i)) \<longrightarrow> shares ! i < Cl_Room (claims ! i) \<longrightarrow> granted_fully inp claims shares i)"
proof -
  let ?cfg = "In_Config inp"
  define s0 where "s0 = open_claims inp (normalizedDemands inp) 0 claims
    \<lparr>HS_free = residual inp, HS_cohort = (\<lambda>_. None), HS_shares = replicate (length claims) 0\<rparr>"
  define start where "start = (if claims \<noteq> [] then go_rem (go_quot (time_Unix (In_Now inp)) (shareRotation div second)) (int (length claims)) else 0)"
  define idx where "idx = map (\<lambda>offset. nat (go_rem (start + int offset) (int (length claims)))) [0..<length claims]"
  define r where "r = grant_loop ?cfg claims Cl_Room idx (grant_loop ?cfg claims (\<lambda>c. min (Cl_Room c) (Cl_Waiting c)) idx s0)"
  have start: "0 \<le> start" and shares: "shares = HS_shares r"
    using assms(1) by (auto simp: PartitionHeadroom_def Let_def s0_def start_def idx_def r_def split: if_splits)
  have "shares_ok inp claims s0" unfolding s0_def by (rule shares_ok_open [OF wf])
  then have ok: "shares_ok inp claims r" unfolding r_def by (intro shares_ok_loops) simp_all
  have "granted_fully inp claims (HS_shares r) i"
    if i: "i < length claims" "sized ?cfg (Cl_Profile (claims ! i))" "HS_shares r ! i < Cl_Room (claims ! i)" for i
  proof -
    have "0 \<le> HS_shares r ! i" "i < length (HS_shares r)" using ok i by (auto simp: shares_ok_def split: if_splits)
    moreover have "i \<in> set idx" using rotation_covers [OF start, of "length claims"] i(1) unfolding idx_def by blast
    ultimately have "grant ?cfg claims i r = None"
      using grant_loop_done [of idx ?cfg claims Cl_Room] i(3) unfolding r_def by (simp add: Unsized_def)
    then show ?thesis by (rule refused_fully [OF ok i(1,2)])
  qed
  moreover have "\<forall>x \<in> {CPU, MemoryMB, Slots}. offered x ?cfg claims (HS_shares r) \<le> x (residual inp)"
    using ok by (auto simp: Res_nonneg_def shares_ok_def)
  moreover have "\<forall>p. mac_claimed inp claims p \<longrightarrow> offered_to p claims (HS_shares r) \<le> cohort_room inp p"
    using ok by (force simp: shares_ok_def)
  ultimately show ?thesis using ok unfolding shares shares_ok_def by blast
qed

text \<open>Eight cores are left beside the running instance; the instant is in the year 2025.\<close>

definition fx_offers :: Input where
  "fx_offers = (fx_input fx_config [] fx_busy (fx_res 10 64 8))\<lparr>In_Now := 63900000000 * second\<rparr>"

definition fx_claims :: "Claim list" where
  "fx_claims = [\<lparr>Cl_Profile = ''small'', Cl_Room = 3, Cl_Waiting = 1\<rparr>, \<lparr>Cl_Profile = ''mac'', Cl_Room = 2, Cl_Waiting = 0\<rparr>]"

theorem headroom_partition_witness:
  "PartitionHeadroom fx_offers fx_claims = Some (Some [2, 1]) \<and> CPU (residual fx_offers) = 8
   \<and> offered CPU (In_Config fx_offers) fx_claims [2, 1] \<le> 8"
proof -
  have wf: "envelope_wf fx_offers (In_insts fx_offers)" by code_simp
  have part: "PartitionHeadroom fx_offers fx_claims = Some (Some [2, 1])" by code_simp
  have "CPU (residual fx_offers) = 8" by code_simp
  with headroom_partition [OF part wf] part show ?thesis by auto
qed

section \<open>The standing offer\<close>

lemma foldl_exhaust_sum:
  assumes "x \<in> {CPU, MemoryMB, Slots}"
  shows "Res_nonneg f \<Longrightarrow> \<forall>v \<in> set vs. Res_nonneg v \<Longrightarrow> x (foldl exhaust f vs) = max 0 (x f - sum_list (map x vs))"
proof (induction vs arbitrary: f)
  case Nil
  then show ?case using assms by (auto simp: Res_nonneg_def)
next
  case (Cons v vs)
  have "Res_nonneg (exhaust f v)" "x (exhaust f v) = max 0 (x f - x v)"
    using assms by (auto simp: exhaust_def Res_nonneg_def)
  moreover have "0 \<le> sum_list (map x vs)" using Cons.prems(2) assms by (intro sum_list_nonneg) (auto simp: Res_nonneg_def)
  ultimately show ?case using Cons by simp
qed

lemma freeCapacity_available_mono:
  assumes "In_Config inp' = In_Config inp" and "Host_Capacity (Ob_Value (In_Host inp')) = Host_Capacity (Ob_Value (In_Host inp))"
    and "CanFit (Host_Available (Ob_Value (In_Host inp'))) (Host_Available (Ob_Value (In_Host inp)))"
  shows "CanFit (freeCapacity inp' is True) (freeCapacity inp is True)"
proof -
  have "CanFit (staticFree inp' is) (staticFree inp is)" "CanFit (elasticFree inp' is live True) (elasticFree inp is live True)" for live
    using assms by (auto simp: staticFree_def elasticFree_def Let_def CanFit_def split: option.split)
  then show ?thesis using assms(1) by (simp add: freeCapacity_def Let_def budgetBound_mono)
qed

lemma drainedMemory_ge:
  assumes "list_all (\<lambda>i. Res_nonneg (Inst_Resources i)) (In_insts inp)" and "Usable (In_Host inp)"
  shows "MemoryMB (Host_Available (Ob_Value (In_Host inp))) \<le> drainedMemory inp"
proof -
  let ?f = "\<lambda>memory i. if Inst_Platform i = PlatformLinux \<and> ConsumesHostResources i \<and> holdsMeasuredMemory (Inst_State i)
    then memory + MemoryMB (Inst_Resources i) else memory"
  have "list_all (\<lambda>i. Res_nonneg (Inst_Resources i)) is \<Longrightarrow> m \<le> foldl ?f m is" for m "is"
  proof (induction "is" arbitrary: m)
    case (Cons i "is")
    then have "m \<le> ?f m i" by (simp add: Res_nonneg_def)
    also have "\<dots> \<le> foldl ?f (?f m i) is" using Cons by simp
    finally show ?case by simp
  qed simp
  from this [OF assms(1), of "max 0 (MemoryMB (Host_Available (Ob_Value (In_Host inp))))"] assms(2) show ?thesis
    by (simp add: drainedMemory_def)
qed

lemma queuedVectors_macs:
  fixes x :: "Resources \<Rightarrow> int"
  assumes "\<And>p. 0 \<le> x (Prof_Resources (profile_at cfg p))"
  shows "sum_list (map x (queuedVectors cfg is (partition_macos ds))) \<le> sum_list (map x (queuedVectors cfg is ds))"
  using assms by (induction ds) (auto simp: queuedVectors_def Let_def partition_macos_def intro: add_increasing)

text \<open>
  A profile that fits the residual now also fits once Linux drains: the standing offer is never withheld
  from a set that could start work at once. The bound on the reading is the width of Go's integers.
\<close>

theorem standing_offer_covers_residual:
  assumes wf: "envelope_wf inp (In_insts inp)" and usable: "Usable (In_Host inp)"
    and profs: "list_all (\<lambda>(p, prof). Res_nonneg (Prof_Resources prof)) (Cfg_Profiles (In_Config inp))"
    and width: "CPU (Host_Available (Ob_Value (In_Host inp))) \<le> max_int" "Slots (Host_Available (Ob_Value (In_Host inp))) \<le> max_int"
    and fits: "CanFit (residual inp) (Prof_Resources (profile_at (In_Config inp) profile))"
  shows "FitsOnceLinuxDrains inp profile"
proof -
  let ?out = "filter (\<lambda>i. Inst_Platform i \<noteq> PlatformLinux) (In_insts inp)"
  let ?all = "queuedVectors (In_Config inp) (In_insts inp) (normalizedDemands inp)"
  let ?macs = "queuedVectors (In_Config inp) (In_insts inp) (partition_macos (normalizedDemands inp))"
  let ?free = "freeCapacity inp (In_insts inp) True" and ?drained = "freeCapacity (drained_input inp) ?out True"
  have "CanFit (Host_Available (Ob_Value (In_Host (drained_input inp)))) (Host_Available (Ob_Value (In_Host inp)))"
    using drainedMemory_ge [OF _ usable] wf width by (simp add: drained_input_def CanFit_def envelope_wf_def)
  then have "CanFit ?drained (freeCapacity inp ?out True)"
    by (intro freeCapacity_available_mono) (simp_all add: drained_input_def)
  with freeCapacity_filter [OF wf] have more: "CanFit ?drained ?free" using CanFit_trans by blast
  have nn: "Res_nonneg ?free" using freeCapacity_nonneg [OF wf] .
  then have nn': "Res_nonneg ?drained" using more by (auto simp: CanFit_def Res_nonneg_def)
  have vec: "Res_nonneg (Prof_Resources (profile_at (In_Config inp) p))" for p
    using profs by (auto simp: profile_at_def list_all_iff zero_Profile_def dest: map_of_SomeD split: option.split)
  have vecs: "\<forall>v \<in> set ?all. Res_nonneg v" "\<forall>v \<in> set ?macs. Res_nonneg v" using vec by (auto simp: queuedVectors_def Let_def)
  have fewer: "sum_list (map x ?macs) \<le> sum_list (map x ?all)" if "x \<in> {CPU, MemoryMB, Slots}" for x :: "Resources \<Rightarrow> int"
    using vec that by (intro queuedVectors_macs) (auto simp: Res_nonneg_def)
  have "x (residual inp) \<le> x (foldl exhaust ?drained ?macs)" if x: "x \<in> {CPU, MemoryMB, Slots}" for x
  proof -
    have "x ?free \<le> x ?drained" using more x by (auto simp: CanFit_def)
    then show ?thesis
      using foldl_exhaust_sum [OF x nn vecs(1)] foldl_exhaust_sum [OF x nn' vecs(2)] fewer [OF x] by (simp add: residual_def linuxFreeAged_def)
  qed
  then have "CanFit (foldl exhaust ?drained ?macs) (residual inp)" by (simp add: CanFit_def)
  then show ?thesis using fits CanFit_trans by (auto simp: FitsOnceLinuxDrains_def Let_def)
qed

theorem standing_offer_covers_residual_witness: "FitsOnceLinuxDrains fx_offers ''small''"
  by (rule standing_offer_covers_residual; code_simp)

end
