(* ===== verification/Membership.thy ===== *)
theory Membership
  imports Prelude
begin

text \<open>
  The policy of a node's membership (\<open>internal/membership\<close>): the ladder a wedged scale set climbs, from healing to
  exclusion and back on probation (\<open>watchdog.go\<close>), and what a sibling may do about a set whose owner has
  gone (\<open>adoption.go\<close>).
\<close>

section \<open>Modes and keys\<close>

datatype Mode = Off | Stationary | Roaming | ModeOther string

text \<open>The error carries the spelling that was refused.\<close>

definition ParseMode :: "string \<Rightarrow> string + Mode" where
  "ParseMode raw =
     (if raw = '''' then Inr Off else if raw = ''stationary'' then Inr Stationary else if raw = ''roaming'' then Inr Roaming
      else Inl raw)"

definition mode_text :: "Mode \<Rightarrow> string" where
  "mode_text m = (case m of Off \<Rightarrow> '''' | Stationary \<Rightarrow> ''stationary'' | Roaming \<Rightarrow> ''roaming'' | ModeOther t \<Rightarrow> t)"

definition Mode_Enabled :: "Mode \<Rightarrow> bool" where
  "Mode_Enabled m \<longleftrightarrow> m \<noteq> Off"

record SetKey =
  SK_Scope :: string
  SK_ID :: int

definition key_less :: "SetKey \<Rightarrow> SetKey \<Rightarrow> bool" where
  "key_less k other = (if SK_Scope k \<noteq> SK_Scope other then SK_Scope k < SK_Scope other else SK_ID k < SK_ID other)"

definition SortKeys :: "SetKey list \<Rightarrow> SetKey list" where
  "SortKeys keys = sort_slice key_less keys"

interpretation key_order: keyed_order key_less "\<lambda>k. (SK_Scope k, SK_ID k)"
  by unfold_locales (auto simp: key_less_def)

section \<open>The ladder\<close>

datatype Stage = Serving | Healing | Excluded | Probation | StageOther string

definition severity :: "Stage \<Rightarrow> int" where
  "severity s = (case s of Excluded \<Rightarrow> 3 | Healing \<Rightarrow> 2 | Probation \<Rightarrow> 1 | _ \<Rightarrow> 0)"

datatype Action = Heal | Exclude | Rejoin

definition stationaryHealAttempts :: int where "stationaryHealAttempts = 2"
definition roamingHealAttempts :: int where "roamingHealAttempts = 1"
definition stationaryExclusion :: int where "stationaryExclusion = 4"
definition roamingExclusion :: int where "roamingExclusion = 2"
definition exclusionCapCadences :: int where "exclusionCapCadences = 16"
definition freshCadences :: int where "freshCadences = 2"

record Policy =
  Po_Mode :: Mode
  Po_Cadence :: duration

definition HealAttempts :: "Policy \<Rightarrow> int" where
  "HealAttempts p = (if Po_Mode p = Roaming then roamingHealAttempts else stationaryHealAttempts)"

text \<open>The doubling loop, with the remaining number of iterations as its argument.\<close>

fun double_cadences :: "nat \<Rightarrow> int \<Rightarrow> int" where
  "double_cadences 0 cadences = cadences"
| "double_cadences (Suc n) cadences =
     (if cadences < exclusionCapCadences then double_cadences n (cadences * 2) else cadences)"

definition exclusion_base :: "Policy \<Rightarrow> int" where
  "exclusion_base p = (if Po_Mode p = Roaming then roamingExclusion else stationaryExclusion)"

definition ExcludedFor :: "Policy \<Rightarrow> int \<Rightarrow> duration" where
  "ExcludedFor p n = min (double_cadences (nat (n - 1)) (exclusion_base p)) exclusionCapCadences * Po_Cadence p"

record Evidence =
  Ev_At :: time
  Ev_AuditedAt :: time
  Ev_Wedged :: "SetKey list"
  Ev_Bound :: "SetKey list"

definition Evidence_Fresh :: "Policy \<Rightarrow> Evidence \<Rightarrow> bool" where
  "Evidence_Fresh p e =
     (if time_IsZero (Ev_AuditedAt e) \<or> Ev_AuditedAt e > Ev_At e then False
      else time_Sub (Ev_At e) (Ev_AuditedAt e) \<le> freshCadences * Po_Cadence p)"

record Binding =
  Bi_Stage :: Stage
  Bi_Since :: time
  Bi_Attempts :: int
  Bi_Exclusions :: int
  Bi_JudgedAt :: time

definition serving_binding :: Binding where
  "serving_binding = \<lparr>Bi_Stage = Serving, Bi_Since = 0, Bi_Attempts = 0, Bi_Exclusions = 0, Bi_JudgedAt = 0\<rparr>"

definition excluded_again :: "Binding \<Rightarrow> Evidence \<Rightarrow> Binding" where
  "excluded_again b e = \<lparr>Bi_Stage = Excluded, Bi_Since = Ev_At e, Bi_Attempts = 0, Bi_Exclusions = Bi_Exclusions b + 1,
     Bi_JudgedAt = Ev_AuditedAt e\<rparr>"

definition serving_again :: "Evidence \<Rightarrow> Binding" where
  "serving_again e = \<lparr>Bi_Stage = Serving, Bi_Since = Ev_At e, Bi_Attempts = 0, Bi_Exclusions = 0, Bi_JudgedAt = Ev_AuditedAt e\<rparr>"

definition advance :: "Policy \<Rightarrow> Binding \<Rightarrow> bool \<Rightarrow> bool \<Rightarrow> Evidence \<Rightarrow> Binding \<times> Action option" where
  "advance p b judged wedged e =
     (case Bi_Stage b of
        Excluded \<Rightarrow>
          if \<not> Ev_At e < Bi_Since b \<and> time_Sub (Ev_At e) (Bi_Since b) \<ge> ExcludedFor p (Bi_Exclusions b)
          then (\<lparr>Bi_Stage = Probation, Bi_Since = Ev_At e, Bi_Attempts = 0, Bi_Exclusions = Bi_Exclusions b,
                 Bi_JudgedAt = Ev_AuditedAt e\<rparr>, Some Rejoin)
          else (b, None)
      | Healing \<Rightarrow>
          if \<not> judged then (b, None)
          else if \<not> wedged then (serving_again e, None)
          else if Bi_Attempts b < HealAttempts p
          then (b\<lparr>Bi_Attempts := Bi_Attempts b + 1, Bi_JudgedAt := Ev_AuditedAt e\<rparr>, Some Heal)
          else (excluded_again b e, Some Exclude)
      | Probation \<Rightarrow>
          if \<not> judged then (b, None)
          else if wedged then (excluded_again b e, Some Exclude)
          else (serving_again e, None)
      | _ \<Rightarrow>
          if \<not> judged \<or> \<not> wedged then (b, None)
          else (\<lparr>Bi_Stage = Healing, Bi_Since = Ev_At e, Bi_Attempts = 1, Bi_Exclusions = Bi_Exclusions b,
                 Bi_JudgedAt = Ev_AuditedAt e\<rparr>, Some Heal))"

type_synonym ladder = "SetKey \<rightharpoonup> Binding"

definition current_binding :: "ladder \<Rightarrow> SetKey \<Rightarrow> Binding" where
  "current_binding previous k = (case previous k of Some b \<Rightarrow> b | None \<Rightarrow> serving_binding)"

definition judged_by :: "Policy \<Rightarrow> Binding \<Rightarrow> Evidence \<Rightarrow> bool" where
  "judged_by p b e \<longleftrightarrow> Evidence_Fresh p e \<and> Ev_AuditedAt e > Bi_JudgedAt b"

definition step_binding :: "Policy \<Rightarrow> ladder \<Rightarrow> Evidence \<Rightarrow> SetKey \<Rightarrow> Binding \<times> Action option" where
  "step_binding p previous e k =
     (let current = current_binding previous k in
      advance p current (judged_by p current e) (k \<in> set (Ev_Wedged e)) e)"

text \<open>The loop over the bound sets; a later duplicate of a key overwrites its entry.\<close>

fun step_loop :: "Policy \<Rightarrow> ladder \<Rightarrow> Evidence \<Rightarrow> SetKey list \<Rightarrow> ladder \<Rightarrow> (SetKey \<rightharpoonup> Action) \<Rightarrow> ladder \<times> (SetKey \<rightharpoonup> Action)" where
  "step_loop p previous e [] nxt actions = (nxt, actions)"
| "step_loop p previous e (k # ks) nxt actions =
     (case step_binding p previous e k of (updated, action) \<Rightarrow>
        step_loop p previous e ks (nxt(k \<mapsto> updated)) (case action of None \<Rightarrow> actions | Some a \<Rightarrow> actions(k \<mapsto> a)))"

definition Step :: "Policy \<Rightarrow> ladder \<Rightarrow> Evidence \<Rightarrow> ladder \<times> (SetKey \<rightharpoonup> Action)" where
  "Step p previous e = step_loop p previous e (Ev_Bound e) (\<lambda>_. None) (\<lambda>_. None)"

section \<open>Publication\<close>

record Summary =
  Su_State :: Stage
  Su_Bindings :: "(SetKey \<times> Binding) list"

definition row_less :: "SetKey \<times> Binding \<Rightarrow> SetKey \<times> Binding \<Rightarrow> bool" where
  "row_less a b = key_less (fst a) (fst b)"

text \<open>The state is an association list here: \<open>Summarize\<close> ranges over the map in an order Go leaves open.\<close>

definition Summarize :: "(SetKey \<times> Binding) list \<Rightarrow> Summary" where
  "Summarize state =
     \<lparr>Su_State = foldl (\<lambda>worst r. if severity (Bi_Stage (snd r)) > severity worst then Bi_Stage (snd r) else worst)
        Serving (filter (\<lambda>r. severity (Bi_Stage (snd r)) \<noteq> 0) state),
      Su_Bindings = sort_slice row_less (filter (\<lambda>r. severity (Bi_Stage (snd r)) \<noteq> 0) state)\<rparr>"

section \<open>Adoption\<close>

datatype Arbiter = Held | Obtained | Unanswered | ArbiterOther string

record Sighting =
  Si_Key :: SetKey
  Si_Equivalent :: bool
  Si_Assigned :: int
  Si_Busy :: int
  Si_Registered :: int
  Si_StrandedSince :: time
  Si_AuditedAt :: time

definition stranded :: "Sighting \<Rightarrow> bool" where
  "stranded s \<longleftrightarrow> (Si_Assigned s > 0 \<or> Si_Busy s > 0) \<and> Si_Registered s = 0"

definition Grace :: "duration \<Rightarrow> duration" where
  "Grace cadence = freshCadences * cadence"

definition Lease :: "duration \<Rightarrow> duration" where
  "Lease cadence = stationaryExclusion * cadence"

definition MayAsk :: "duration \<Rightarrow> Sighting \<Rightarrow> time \<Rightarrow> bool \<Rightarrow> bool" where
  "MayAsk cadence s now admissionAllowed =
     (if \<not> admissionAllowed \<or> \<not> Si_Equivalent s \<or> \<not> stranded s \<or> time_IsZero (Si_StrandedSince s) then False
      else if \<not> Evidence_Fresh \<lparr>Po_Mode = Off, Po_Cadence = cadence\<rparr>
             \<lparr>Ev_At = now, Ev_AuditedAt = Si_AuditedAt s, Ev_Wedged = [], Ev_Bound = []\<rparr> then False
      else \<not> Si_AuditedAt s < Si_StrandedSince s \<and> time_Sub (Si_AuditedAt s) (Si_StrandedSince s) \<ge> Grace cadence)"

record Adoption =
  Ad_Key :: SetKey
  Ad_Since :: time
  Ad_Until :: time

definition Arbitrate :: "duration \<Rightarrow> SetKey \<Rightarrow> Arbiter \<Rightarrow> time \<Rightarrow> Adoption option" where
  "Arbitrate cadence k answer now =
     (if answer \<noteq> Obtained then None
      else Some \<lparr>Ad_Key = k, Ad_Since = now, Ad_Until = now + Lease cadence\<rparr>)"

definition Release :: "Adoption \<Rightarrow> time \<Rightarrow> bool \<Rightarrow> bool" where
  "Release a now idle \<longleftrightarrow> idle \<or> \<not> now < Ad_Until a"

section \<open>Spelling\<close>

text \<open>
  The configured spellings of a mode are read back as they are written, and every other spelling is
  refused: a typo never disables the watchdog.
\<close>

theorem ParseMode_roundtrip:
  "ParseMode raw = Inr m \<longleftrightarrow> m \<in> {Off, Stationary, Roaming} \<and> mode_text m = raw"
  by (auto simp: ParseMode_def mode_text_def)

section \<open>One step of the ladder\<close>

lemma step_loop_spec:
  "fst (step_loop p previous e ks nxt actions) k = (if k \<in> set ks then Some (fst (step_binding p previous e k)) else nxt k)"
  "(\<And>k. k \<in> set ks \<Longrightarrow> actions k = None \<or> actions k = snd (step_binding p previous e k)) \<Longrightarrow>
     snd (step_loop p previous e ks nxt actions) k = (if k \<in> set ks then snd (step_binding p previous e k) else actions k)"
proof (induction ks arbitrary: nxt actions)
  case (Cons k' ks)
  let ?a = "snd (step_binding p previous e k')"
  {
    case 1
    show ?case using Cons.IH(1) by (simp add: split_beta)
  next
    case 2
    let ?actions = "case ?a of None \<Rightarrow> actions | Some a \<Rightarrow> actions(k' \<mapsto> a)"
    have "\<And>k. k \<in> set ks \<Longrightarrow> ?actions k = None \<or> ?actions k = snd (step_binding p previous e k)"
      using 2 by (auto split: option.split)
    from Cons.IH(2) [OF this] 2 [of k'] show ?case by (auto simp: split_beta split: option.splits)
  }
qed simp_all

lemma Step_spec:
  "fst (Step p previous e) k = (if k \<in> set (Ev_Bound e) then Some (fst (step_binding p previous e k)) else None)"
  "snd (Step p previous e) k = (if k \<in> set (Ev_Bound e) then snd (step_binding p previous e k) else None)"
  using step_loop_spec(1) [of p previous e "Ev_Bound e" "\<lambda>_. None" "\<lambda>_. None" k]
    step_loop_spec(2) [of "Ev_Bound e" "\<lambda>_. None" p previous e "\<lambda>_. None" k]
  by (simp_all add: Step_def)

text \<open>
  C30. Every action but a rejoin needs new evidence. Only a bound set is acted on; a session is recycled or released only
  on a fresh audit that reads the set wedged and that was taken after the audit behind the last
  transition, and the new audit is then the one the next transition must be newer than; a session is
  rejoined on time alone, only out of an exclusion whose time is up.
\<close>

theorem actions_need_new_evidence:
  assumes "snd (Step p previous e) k = Some act"
  defines "b \<equiv> current_binding previous k"
  shows "k \<in> set (Ev_Bound e) \<and> (\<exists>b'. fst (Step p previous e) k = Some b' \<and> Bi_JudgedAt b' = Ev_AuditedAt e
    \<and> (if act = Rejoin then Bi_Stage b = Excluded \<and> Bi_Stage b' = Probation
         \<and> ExcludedFor p (Bi_Exclusions b) \<le> time_Sub (Ev_At e) (Bi_Since b)
       else Evidence_Fresh p e \<and> Bi_JudgedAt b < Ev_AuditedAt e \<and> k \<in> set (Ev_Wedged e)
         \<and> (act = Heal \<longrightarrow> Bi_Stage b' = Healing) \<and> (act = Exclude \<longrightarrow> Bi_Stage b' = Excluded)))"
proof -
  have k: "k \<in> set (Ev_Bound e)" and act: "snd (step_binding p previous e k) = Some act"
    using assms(1) by (auto simp: Step_spec split: if_splits)
  have "Bi_JudgedAt (fst (step_binding p previous e k)) = Ev_AuditedAt e
    \<and> (if act = Rejoin then Bi_Stage b = Excluded \<and> Bi_Stage (fst (step_binding p previous e k)) = Probation
         \<and> ExcludedFor p (Bi_Exclusions b) \<le> time_Sub (Ev_At e) (Bi_Since b)
       else judged_by p b e \<and> k \<in> set (Ev_Wedged e)
         \<and> (act = Heal \<longrightarrow> Bi_Stage (fst (step_binding p previous e k)) = Healing)
         \<and> (act = Exclude \<longrightarrow> Bi_Stage (fst (step_binding p previous e k)) = Excluded))"
    using act unfolding b_def step_binding_def Let_def advance_def
    by (auto simp: excluded_again_def serving_again_def split: Stage.splits if_splits)
  with k show ?thesis by (auto simp: Step_spec judged_by_def split: if_splits)
qed

theorem actions_need_new_evidence_witness:
  "let k = \<lparr>SK_Scope = ''org'', SK_ID = 7\<rparr>; p = \<lparr>Po_Mode = Roaming, Po_Cadence = 60\<rparr>;
       e = \<lparr>Ev_At = 100, Ev_AuditedAt = 90, Ev_Wedged = [k], Ev_Bound = [k]\<rparr>
   in snd (Step p (\<lambda>_. None) e) k = Some Heal \<and> Evidence_Fresh p e"
proof -
  let ?k = "\<lparr>SK_Scope = ''org'', SK_ID = 7\<rparr>" and ?p = "\<lparr>Po_Mode = Roaming, Po_Cadence = 60\<rparr>"
  let ?e = "\<lparr>Ev_At = 100, Ev_AuditedAt = 90, Ev_Wedged = [?k], Ev_Bound = [?k]\<rparr>"
  have "snd (Step ?p (\<lambda>_. None) ?e) ?k = Some Heal" by code_simp
  with actions_need_new_evidence [OF this] show ?thesis by (auto simp: Let_def)
qed

section \<open>The ladder over time\<close>

text \<open>The bindings a set can reach while its node runs, one piece of evidence after another.\<close>

inductive ladder_reach :: "Policy \<Rightarrow> Binding \<Rightarrow> bool" for p where
  ladder_start: "ladder_reach p serving_binding"
| ladder_step: "ladder_reach p b \<Longrightarrow> ladder_reach p (fst (advance p b (judged_by p b e) wedged e))"

text \<open>
  C23. Every binding on the ladder is well formed: a healing set has been recycled at least once and no more
  often than the policy allows, and has no exclusion on record; a set that is out or on probation has been
  excluded at least once; a serving set carries neither.
\<close>

theorem ladder_invariant:
  assumes "ladder_reach p b"
  shows "case Bi_Stage b of
      Serving \<Rightarrow> Bi_Attempts b = 0 \<and> Bi_Exclusions b = 0
    | Healing \<Rightarrow> 1 \<le> Bi_Attempts b \<and> Bi_Attempts b \<le> HealAttempts p \<and> Bi_Exclusions b = 0
    | Excluded \<Rightarrow> 1 \<le> Bi_Exclusions b
    | Probation \<Rightarrow> 1 \<le> Bi_Exclusions b
    | StageOther _ \<Rightarrow> False"
  using assms
proof induction
  case ladder_start
  then show ?case by (simp add: serving_binding_def)
next
  case (ladder_step b e wedged)
  have "1 \<le> HealAttempts p" by (simp add: HealAttempts_def roamingHealAttempts_def stationaryHealAttempts_def)
  with ladder_step show ?case
    by (auto simp: advance_def excluded_again_def serving_again_def split: Stage.splits)
qed

theorem ladder_invariant_witness:
  "let p = \<lparr>Po_Mode = Roaming, Po_Cadence = 60\<rparr>; k = \<lparr>SK_Scope = ''org'', SK_ID = 7\<rparr>;
       e = \<lparr>Ev_At = 100, Ev_AuditedAt = 90, Ev_Wedged = [k], Ev_Bound = [k]\<rparr>;
       b = fst (advance p serving_binding (judged_by p serving_binding e) True e)
   in Bi_Stage b = Healing \<and> Bi_Attempts b \<le> HealAttempts p"
proof -
  let ?p = "\<lparr>Po_Mode = Roaming, Po_Cadence = 60\<rparr>" and ?k = "\<lparr>SK_Scope = ''org'', SK_ID = 7\<rparr>"
  let ?e = "\<lparr>Ev_At = 100, Ev_AuditedAt = 90, Ev_Wedged = [?k], Ev_Bound = [?k]\<rparr>"
  let ?b = "fst (advance ?p serving_binding (judged_by ?p serving_binding ?e) True ?e)"
  have st: "Bi_Stage ?b = Healing" by code_simp
  from ladder_invariant [OF ladder_step [OF ladder_start, of ?p ?e True]] st show ?thesis by (simp add: Let_def)
qed

section \<open>Exclusions end\<close>

lemma double_cadences_min: "1 \<le> c \<Longrightarrow> min (double_cadences n c) exclusionCapCadences = min (c * 2 ^ n) exclusionCapCadences"
proof (induction n arbitrary: c)
  case (Suc n)
  have "exclusionCapCadences \<le> c * 2 ^ Suc n" if "exclusionCapCadences \<le> c"
  proof -
    have "c * 1 \<le> c * 2 ^ Suc n" using Suc.prems one_le_power [of "2 :: int" "Suc n"] by (intro mult_left_mono) auto
    with that show ?thesis by simp
  qed
  with Suc show ?case by (auto simp: mult.assoc)
qed simp

text \<open>
  C31. An exclusion lasts the base of the mode, doubled for every further exclusion in a row and never longer than the
  cap, and it ends by the clock alone: once that time has passed the set rejoins on probation, whatever
  the audit says or whether there is one.
\<close>

theorem exclusion_ends:
  assumes "Bi_Stage b = Excluded" and "1 \<le> Bi_Exclusions b" and "0 \<le> Po_Cadence p"
    and "Bi_Since b \<le> Ev_At e" and "ExcludedFor p (Bi_Exclusions b) \<le> time_Sub (Ev_At e) (Bi_Since b)"
  shows "snd (advance p b judged wedged e) = Some Rejoin \<and> Bi_Stage (fst (advance p b judged wedged e)) = Probation
    \<and> ExcludedFor p (Bi_Exclusions b) = min (exclusion_base p * 2 ^ nat (Bi_Exclusions b - 1)) exclusionCapCadences * Po_Cadence p
    \<and> ExcludedFor p (Bi_Exclusions b) \<le> exclusionCapCadences * Po_Cadence p"
proof -
  have "1 \<le> exclusion_base p" by (simp add: exclusion_base_def roamingExclusion_def stationaryExclusion_def)
  then have "ExcludedFor p (Bi_Exclusions b) = min (exclusion_base p * 2 ^ nat (Bi_Exclusions b - 1)) exclusionCapCadences * Po_Cadence p"
    by (simp add: ExcludedFor_def double_cadences_min)
  moreover from this have "ExcludedFor p (Bi_Exclusions b) \<le> exclusionCapCadences * Po_Cadence p"
    using assms(3) by (simp add: mult_right_mono)
  ultimately show ?thesis using assms by (simp add: advance_def)
qed

theorem exclusion_ends_witness:
  "let p = \<lparr>Po_Mode = Stationary, Po_Cadence = 10\<rparr>;
       b = \<lparr>Bi_Stage = Excluded, Bi_Since = 100, Bi_Attempts = 0, Bi_Exclusions = 2, Bi_JudgedAt = 90\<rparr>;
       e = \<lparr>Ev_At = 180, Ev_AuditedAt = 0, Ev_Wedged = [], Ev_Bound = []\<rparr>
   in snd (advance p b False True e) = Some Rejoin"
proof -
  let ?p = "\<lparr>Po_Mode = Stationary, Po_Cadence = 10\<rparr>"
  let ?b = "\<lparr>Bi_Stage = Excluded, Bi_Since = 100, Bi_Attempts = 0, Bi_Exclusions = 2, Bi_JudgedAt = 90\<rparr>"
  let ?e = "\<lparr>Ev_At = 180, Ev_AuditedAt = 0, Ev_Wedged = [], Ev_Bound = []\<rparr> :: Evidence"
  have "ExcludedFor ?p (Bi_Exclusions ?b) \<le> time_Sub (Ev_At ?e) (Bi_Since ?b)" by code_simp
  with exclusion_ends [of ?b ?p ?e False True] show ?thesis by (simp add: Let_def)
qed

section \<open>Summary and adoption\<close>

lemma Summarize_worst: "\<forall>r \<in> set state. severity (Bi_Stage (snd r)) \<le> severity (Su_State (Summarize state))"
proof -
  let ?f = "\<lambda>worst r. if severity (Bi_Stage (snd r)) > severity worst then Bi_Stage (snd (r :: SetKey \<times> Binding)) else worst"
  have "severity w \<le> severity (foldl ?f w rs) \<and> (\<forall>r \<in> set rs. severity (Bi_Stage (snd r)) \<le> severity (foldl ?f w rs))" for w rs
  proof (induction rs arbitrary: w)
    case (Cons r rs)
    from Cons [of "?f w r"] show ?case by (auto split: if_splits)
  qed simp
  from this [of Serving "filter (\<lambda>r. severity (Bi_Stage (snd r)) \<noteq> 0) state"]
  show ?thesis by (auto simp: Summarize_def severity_def split: Stage.splits)
qed

text \<open>
  A sibling asks for a set's session only on evidence that spans the grace, with the last audit fresh; what it is
  granted is released at the latest one lease after it was obtained.
\<close>

theorem adoption_is_bounded:
  assumes "MayAsk cadence s now admit" and "Arbitrate cadence k answer now = Some a" and "now + Lease cadence \<le> later"
  shows "admit \<and> Si_Equivalent s \<and> stranded s \<and> Grace cadence \<le> time_Sub (Si_AuditedAt s) (Si_StrandedSince s)
    \<and> Si_StrandedSince s \<le> Si_AuditedAt s \<and> Si_AuditedAt s \<le> now \<and> time_Sub now (Si_AuditedAt s) \<le> Grace cadence
    \<and> answer = Obtained \<and> Ad_Until a = Ad_Since a + Lease cadence \<and> Release a later False"
  using assms by (auto simp: MayAsk_def Arbitrate_def Release_def Evidence_Fresh_def Grace_def split: if_splits)

theorem adoption_is_bounded_witness:
  "let k = \<lparr>SK_Scope = ''org'', SK_ID = 7\<rparr>;
       s = \<lparr>Si_Key = k, Si_Equivalent = True, Si_Assigned = 1, Si_Busy = 0, Si_Registered = 0, Si_StrandedSince = 10, Si_AuditedAt = 40\<rparr>;
       a = \<lparr>Ad_Key = k, Ad_Since = 45, Ad_Until = 85\<rparr>
   in Arbitrate 10 k Obtained 45 = Some a \<and> Release a 90 False"
proof -
  let ?k = "\<lparr>SK_Scope = ''org'', SK_ID = 7\<rparr>"
  let ?s = "\<lparr>Si_Key = ?k, Si_Equivalent = True, Si_Assigned = 1, Si_Busy = 0, Si_Registered = 0, Si_StrandedSince = 10, Si_AuditedAt = 40\<rparr>"
  have ask: "MayAsk 10 ?s 45 True" by code_simp
  have arb: "Arbitrate 10 ?k Obtained 45 = Some \<lparr>Ad_Key = ?k, Ad_Since = 45, Ad_Until = 85\<rparr>" by code_simp
  have "45 + Lease 10 \<le> (90 :: int)" by code_simp
  from adoption_is_bounded [OF ask arb this] arb show ?thesis by (simp add: Let_def)
qed

end
