(* ===== verification/Operations.thy ===== *)
theory Operations
  imports Scheduler_Types
begin

text \<open>
  The durable vocabulary (\<open>internal/operations\<close>): instances, operations and plans as they are stored, the digest and the
  validity of a plan with its dependency check, the retry policy, dead letters and the demand records.
\<close>

section \<open>Errors and states\<close>

text \<open>
  The sentinel errors a caller tells apart with \<open>errors.Is\<close>. The discharge refusals wrap
  \<open>ErrConflict\<close>. \<open>ErrStore\<close> is every failure that carries no sentinel.
\<close>

datatype OpError =
    ErrNotFound | ErrConflict | ErrLeaseHeld | ErrLeaseLost | ErrInvalid | ErrUncertain | ErrExhausted
  | ErrSchedulerStateMissing | ErrResourceMismatch | ErrNotDeadLettered | ErrResourceProgressing
  | ErrInstanceNotReapable | ErrResumptionNotDue | ErrStore string

type_synonym 'a outcome = "OpError + 'a"

definition ValidState :: "InstanceState \<Rightarrow> bool" where
  "ValidState s = (case s of InstanceOther _ \<Rightarrow> False | _ \<Rightarrow> True)"

definition state_text :: "InstanceState \<Rightarrow> string" where
  "state_text s = (case s of
     InstancePlanned \<Rightarrow> ''planned'' | InstanceCloning \<Rightarrow> ''cloning'' | InstanceBooting \<Rightarrow> ''booting''
   | InstanceReachable \<Rightarrow> ''reachable'' | InstanceRegistering \<Rightarrow> ''registering'' | InstanceOnlineIdle \<Rightarrow> ''online_idle''
   | InstanceAssigned \<Rightarrow> ''assigned'' | InstanceRunning \<Rightarrow> ''running'' | InstanceDraining \<Rightarrow> ''draining''
   | InstanceDeregistering \<Rightarrow> ''deregistering'' | InstanceStopping \<Rightarrow> ''stopping'' | InstanceDeleted \<Rightarrow> ''deleted''
   | InstanceFailed \<Rightarrow> ''failed'' | InstanceOther t \<Rightarrow> t)"

definition platform_text :: "Platform \<Rightarrow> string" where
  "platform_text p = (case p of PlatformLinux \<Rightarrow> ''linux'' | PlatformMacOS \<Rightarrow> ''macos'' | PlatformOther t \<Rightarrow> t)"

datatype OperationStatus =
    OperationPending | OperationClaimed | OperationCompleted | OperationDead | OperationDischarged
  | OperationStatusOther string

definition op_status_text :: "OperationStatus \<Rightarrow> string" where
  "op_status_text s = (case s of
     OperationPending \<Rightarrow> ''pending'' | OperationClaimed \<Rightarrow> ''claimed'' | OperationCompleted \<Rightarrow> ''completed''
   | OperationDead \<Rightarrow> ''dead'' | OperationDischarged \<Rightarrow> ''discharged'' | OperationStatusOther t \<Rightarrow> t)"

section \<open>Durable records\<close>

record Ownership =
  Own_ControllerID :: string
  Own_ResourceID :: string
  Own_OperationID :: string

definition Own_Valid :: "Ownership \<Rightarrow> bool" where
  "Own_Valid w \<longleftrightarrow> Own_ControllerID w \<noteq> [] \<and> Own_ResourceID w \<noteq> [] \<and> Own_OperationID w \<noteq> []"

definition zero_Ownership :: Ownership where
  "zero_Ownership = \<lparr>Own_ControllerID = [], Own_ResourceID = [], Own_OperationID = []\<rparr>"

record DurableInstance =
  DI_ID :: string
  DI_Repo :: string
  DI_Platform :: Platform
  DI_Profile :: ProfileID
  DI_Route :: Route
  DI_Resources :: Resources
  DI_Demand :: DemandKey
  DI_Image :: string
  DI_State :: InstanceState
  DI_Version :: int
  DI_DrainPhase :: int
  DI_Ownership :: Ownership
  DI_LastError :: string
  DI_CreatedAt :: time
  DI_UpdatedAt :: time

definition zero_DurableInstance :: DurableInstance where
  "zero_DurableInstance = \<lparr>DI_ID = [], DI_Repo = [], DI_Platform = PlatformOther [], DI_Profile = [], DI_Route = [],
     DI_Resources = zero_Resources, DI_Demand = zero_DemandKey, DI_Image = [], DI_State = InstanceOther [], DI_Version = 0,
     DI_DrainPhase = 0, DI_Ownership = zero_Ownership, DI_LastError = [], DI_CreatedAt = 0, DI_UpdatedAt = 0\<rparr>"

definition SchedulingMetadataValid :: "DurableInstance \<Rightarrow> bool" where
  "SchedulingMetadataValid i =
     (if DI_Repo i = [] \<and> DI_Platform i = PlatformOther [] \<and> DI_Profile i = [] \<and> DI_Route i = []
         \<and> DI_Resources i = zero_Resources \<and> DI_Demand i = zero_DemandKey then True
      else if DI_Repo i = [] \<or> (DI_Platform i \<noteq> PlatformLinux \<and> DI_Platform i \<noteq> PlatformMacOS) \<or> DI_Profile i = []
         \<or> DI_Route i = [] \<or> CPU (DI_Resources i) \<le> 0 \<or> MemoryMB (DI_Resources i) \<le> 0 \<or> Slots (DI_Resources i) \<le> 0
         \<or> \<not> Key_Valid (DI_Demand i) then False
      else Key_Repo (DI_Demand i) = DI_Repo i)"

record DurableOperation =
  DO_ID :: string
  DO_IdempotencyKey :: string
  DO_EffectKey :: string
  DO_Kind :: string
  DO_ResourceID :: string
  DO_Payload :: string
  DO_Status :: OperationStatus
  DO_Attempts :: int
  DO_AvailableAt :: time
  DO_LeaseOwner :: string
  DO_LeaseUntil :: time
  DO_LastError :: string
  DO_CreatedAt :: time
  DO_UpdatedAt :: time
  DO_DependsOn :: "string list"

definition zero_DurableOperation :: DurableOperation where
  "zero_DurableOperation = \<lparr>DO_ID = [], DO_IdempotencyKey = [], DO_EffectKey = [], DO_Kind = [], DO_ResourceID = [],
     DO_Payload = [], DO_Status = OperationStatusOther [], DO_Attempts = 0, DO_AvailableAt = 0, DO_LeaseOwner = [],
     DO_LeaseUntil = 0, DO_LastError = [], DO_CreatedAt = 0, DO_UpdatedAt = 0, DO_DependsOn = []\<rparr>"

fun dependencies_ok :: "string \<Rightarrow> string set \<Rightarrow> string list \<Rightarrow> bool" where
  "dependencies_ok self seen [] = True"
| "dependencies_ok self seen (dependency # rest) =
     (if dependency = [] \<or> dependency = self then False
      else if dependency \<in> seen then False
      else dependencies_ok self (insert dependency seen) rest)"

definition DependenciesValid :: "DurableOperation \<Rightarrow> bool" where
  "DependenciesValid q = dependencies_ok (DO_ID q) {} (DO_DependsOn q)"

definition DO_Valid :: "DurableOperation \<Rightarrow> bool" where
  "DO_Valid q \<longleftrightarrow> DO_ID q \<noteq> [] \<and> DO_IdempotencyKey q \<noteq> [] \<and> DO_EffectKey q \<noteq> [] \<and> DO_Kind q \<noteq> []
     \<and> DO_ResourceID q \<noteq> [] \<and> \<not> time_IsZero (DO_AvailableAt q) \<and> DependenciesValid q"

record Transition =
  Tr_InstanceID :: string
  Tr_ExpectedState :: InstanceState
  Tr_ExpectedVersion :: int
  Tr_NextState :: InstanceState
  Tr_DrainPhase :: int
  Tr_LastError :: string
  Tr_Operation :: DurableOperation

definition DrainPhaseEvent :: int where "DrainPhaseEvent = 1"
definition DrainPhaseStoppedRecovery :: int where "DrainPhaseStoppedRecovery = 2"
definition DrainPhaseInactiveRecovery :: int where "DrainPhaseInactiveRecovery = 3"
definition DrainPhaseStalledAssignment :: int where "DrainPhaseStalledAssignment = 4"
definition DrainPhaseLingeringRunner :: int where "DrainPhaseLingeringRunner = 5"
definition DrainPhaseOccupancyBudget :: int where "DrainPhaseOccupancyBudget = 6"
definition DrainPhaseGuestUnresponsive :: int where "DrainPhaseGuestUnresponsive = 7"
definition DrainPhaseProvisionStalled :: int where "DrainPhaseProvisionStalled = 8"

lemmas drain_phases = DrainPhaseEvent_def DrainPhaseStoppedRecovery_def DrainPhaseInactiveRecovery_def
  DrainPhaseStalledAssignment_def DrainPhaseLingeringRunner_def DrainPhaseOccupancyBudget_def
  DrainPhaseGuestUnresponsive_def DrainPhaseProvisionStalled_def

record ControllerLease =
  Le_Name :: string
  Le_Owner :: string
  Le_Token :: int
  Le_ExpiresAt :: time

record InstanceIntent =
  II_ExpectedVersion :: int
  II_ExpectedState :: InstanceState
  II_Instance :: DurableInstance

record DurableScheduler =
  DS_Version :: int
  DS_Data :: string
  DS_Reservations :: string
  DS_DeficitRoundRobin :: string
  DS_ObservationCursor :: string

record DurablePlan =
  DP_ID :: string
  DP_ExpectedSchedulerVersion :: int
  DP_Scheduler :: DurableScheduler
  DP_Instances :: "InstanceIntent list"
  DP_Operations :: "DurableOperation list"
  DP_CreatedAt :: time

section \<open>The digest of a plan\<close>

definition json_raw :: "string \<Rightarrow> string" where
  "json_raw raw = (if raw = [] then ''null'' else raw)"

definition json_resources :: "Resources \<Rightarrow> string" where
  "json_resources r = json_object [(''CPU'', decimal (CPU r)), (''MemoryMB'', decimal (MemoryMB r)), (''Slots'', decimal (Slots r))]"

definition json_ownership :: "Ownership \<Rightarrow> string" where
  "json_ownership w = json_object [(''controller_id'', json_string (Own_ControllerID w)),
     (''resource_id'', json_string (Own_ResourceID w)), (''operation_id'', json_string (Own_OperationID w))]"

definition json_slice :: "('a \<Rightarrow> string option) \<Rightarrow> 'a list \<Rightarrow> string option" where
  "json_slice f xs = (if xs = [] then Some ''null'' else map_option json_array (those (map f xs)))"

definition json_durable_instance :: "DurableInstance \<Rightarrow> string option" where
  "json_durable_instance i = do {
     created \<leftarrow> json_time (DI_CreatedAt i);
     updated \<leftarrow> json_time (DI_UpdatedAt i);
     Some (json_object [(''ID'', json_string (DI_ID i)), (''Repo'', json_string (DI_Repo i)),
       (''Platform'', json_string (platform_text (DI_Platform i))), (''Profile'', json_string (DI_Profile i)),
       (''Route'', json_string (DI_Route i)), (''Resources'', json_resources (DI_Resources i)), (''Demand'', json_key (DI_Demand i)),
       (''Image'', json_string (DI_Image i)), (''State'', json_string (state_text (DI_State i))),
       (''Version'', decimal (DI_Version i)), (''DrainPhase'', decimal (DI_DrainPhase i)),
       (''Ownership'', json_ownership (DI_Ownership i)), (''LastError'', json_string (DI_LastError i)),
       (''CreatedAt'', created), (''UpdatedAt'', updated)]) }"

definition json_intent :: "InstanceIntent \<Rightarrow> string option" where
  "json_intent t = do {
     i \<leftarrow> json_durable_instance (II_Instance t);
     Some (json_object [(''ExpectedVersion'', decimal (II_ExpectedVersion t)),
       (''ExpectedState'', json_string (state_text (II_ExpectedState t))), (''Instance'', i)]) }"

definition json_durable_operation :: "DurableOperation \<Rightarrow> string option" where
  "json_durable_operation q = do {
     available \<leftarrow> json_time (DO_AvailableAt q);
     lease \<leftarrow> json_time (DO_LeaseUntil q);
     created \<leftarrow> json_time (DO_CreatedAt q);
     updated \<leftarrow> json_time (DO_UpdatedAt q);
     Some (json_object [(''ID'', json_string (DO_ID q)), (''IdempotencyKey'', json_string (DO_IdempotencyKey q)),
       (''EffectKey'', json_string (DO_EffectKey q)), (''Kind'', json_string (DO_Kind q)),
       (''ResourceID'', json_string (DO_ResourceID q)), (''Payload'', json_raw (DO_Payload q)),
       (''Status'', json_string (op_status_text (DO_Status q))), (''Attempts'', decimal (DO_Attempts q)),
       (''AvailableAt'', available), (''LeaseOwner'', json_string (DO_LeaseOwner q)), (''LeaseUntil'', lease),
       (''LastError'', json_string (DO_LastError q)), (''CreatedAt'', created), (''UpdatedAt'', updated),
       (''DependsOn'', if DO_DependsOn q = [] then ''null'' else json_array (map json_string (DO_DependsOn q)))]) }"

definition json_durable_plan :: "DurablePlan \<Rightarrow> string option" where
  "json_durable_plan p = do {
     instances \<leftarrow> json_slice json_intent (DP_Instances p);
     operations \<leftarrow> json_slice json_durable_operation (DP_Operations p);
     created \<leftarrow> json_time (DP_CreatedAt p);
     Some (json_object [(''ID'', json_string (DP_ID p)),
       (''ExpectedSchedulerVersion'', decimal (DP_ExpectedSchedulerVersion p)),
       (''Scheduler'', json_object [(''Version'', decimal (DS_Version (DP_Scheduler p))),
          (''Data'', json_raw (DS_Data (DP_Scheduler p))), (''Reservations'', json_raw (DS_Reservations (DP_Scheduler p))),
          (''DeficitRoundRobin'', json_raw (DS_DeficitRoundRobin (DP_Scheduler p))),
          (''ObservationCursor'', json_string (DS_ObservationCursor (DP_Scheduler p)))]),
       (''Instances'', instances), (''Operations'', operations), (''CreatedAt'', created)]) }"

text \<open>\<open>None\<close> is the encoder's error: an instant outside the printable years.\<close>

definition Digest :: "DurablePlan \<Rightarrow> nat list option" where
  "Digest p = map_option (\<lambda>encoded. sha256 (bytes_of encoded)) (json_durable_plan p)"

section \<open>Validity of a plan\<close>

fun add_edge :: "string \<Rightarrow> string \<Rightarrow> (string \<times> string list) list \<Rightarrow> (string \<times> string list) list" where
  "add_edge k d [] = [(k, [d])]"
| "add_edge k d ((k', ds) # rest) = (if k' = k then (k', ds @ [d]) # rest else (k', ds) # add_edge k d rest)"

text \<open>The first loop: \<open>None\<close> is its early return.\<close>

fun graph_of_deps :: "string \<Rightarrow> string set \<Rightarrow> string list \<Rightarrow> (string \<times> string list) list \<Rightarrow> (string \<times> string list) list option" where
  "graph_of_deps k seen [] graph = Some graph"
| "graph_of_deps k seen (dependency # rest) graph =
     (if dependency = [] \<or> dependency = k \<or> dependency \<in> seen then None
      else graph_of_deps k (insert dependency seen) rest (add_edge k dependency graph))"

fun graph_of :: "DurableOperation list \<Rightarrow> (string \<times> string list) list \<Rightarrow> (string \<times> string list) list option" where
  "graph_of [] graph = Some graph"
| "graph_of (q # qs) graph = Option.bind (graph_of_deps (DO_ID q) {} (DO_DependsOn q) graph) (graph_of qs)"

text \<open>
  The depth-first search, with the two Boolean maps as sets. Every nested call marks one more key as
  being visited, so the number of keys bounds the depth; the fuel is that bound and \<open>None\<close> is running
  out of it.
\<close>

record dfs =
  Df_visiting :: "string set"
  Df_visited :: "string set"

fun dfs_visit :: "nat \<Rightarrow> (string \<times> string list) list \<Rightarrow> string \<Rightarrow> dfs \<Rightarrow> (bool \<times> dfs) option"
  and dfs_deps :: "nat \<Rightarrow> (string \<times> string list) list \<Rightarrow> string list \<Rightarrow> dfs \<Rightarrow> (bool \<times> dfs) option" where
  "dfs_visit 0 graph k s = None"
| "dfs_visit (Suc fuel) graph k s =
     (if k \<in> Df_visiting s then Some (True, s)
      else if k \<in> Df_visited s then Some (False, s)
      else (case dfs_deps fuel graph (case map_of graph k of Some ds \<Rightarrow> ds | None \<Rightarrow> []) (s\<lparr>Df_visiting := insert k (Df_visiting s)\<rparr>) of
              None \<Rightarrow> None
            | Some (True, s') \<Rightarrow> Some (True, s')
            | Some (False, s') \<Rightarrow> Some (False, s'\<lparr>Df_visiting := Df_visiting s' - {k}, Df_visited := insert k (Df_visited s')\<rparr>)))"
| "dfs_deps fuel graph [] s = Some (False, s)"
| "dfs_deps fuel graph (d # ds) s =
     (if map_of graph d = None then dfs_deps fuel graph ds s
      else (case dfs_visit fuel graph d s of
              None \<Rightarrow> None
            | Some (True, s') \<Rightarrow> Some (True, s')
            | Some (False, s') \<Rightarrow> dfs_deps fuel graph ds s'))"

fun dfs_all :: "nat \<Rightarrow> (string \<times> string list) list \<Rightarrow> string list \<Rightarrow> dfs \<Rightarrow> bool option" where
  "dfs_all fuel graph [] s = Some False"
| "dfs_all fuel graph (k # ks) s =
     (case dfs_visit fuel graph k s of
        None \<Rightarrow> None
      | Some (True, s') \<Rightarrow> Some True
      | Some (False, s') \<Rightarrow> dfs_all fuel graph ks s')"

text \<open>The order in which Go ranges over the map is the argument \<open>order\<close>, any permutation of the keys.\<close>

definition hasDependencyCycleOrSelf :: "(string list \<Rightarrow> string list) \<Rightarrow> DurablePlan \<Rightarrow> bool option" where
  "hasDependencyCycleOrSelf order p =
     (case graph_of (DP_Operations p) [] of
        None \<Rightarrow> Some True
      | Some graph \<Rightarrow> dfs_all (length graph + 1) graph (order (map fst graph)) \<lparr>Df_visiting = {}, Df_visited = {}\<rparr>)"

definition intent_valid :: "InstanceIntent \<Rightarrow> bool" where
  "intent_valid t \<longleftrightarrow>
     \<not> (DI_ID (II_Instance t) = [] \<or> \<not> ValidState (DI_State (II_Instance t)) \<or> \<not> Own_Valid (DI_Ownership (II_Instance t))
        \<or> \<not> SchedulingMetadataValid (II_Instance t))
     \<and> \<not> (II_ExpectedVersion t \<ge> 0 \<and> (\<not> ValidState (II_ExpectedState t)
        \<or> \<not> CanTransitionTo (II_ExpectedState t) (DI_State (II_Instance t))))"

definition DP_Valid :: "DurablePlan \<Rightarrow> bool" where
  "DP_Valid p \<longleftrightarrow>
     \<not> (DP_ID p = [] \<or> time_IsZero (DP_CreatedAt p) \<or> DS_Version (DP_Scheduler p) \<noteq> DP_ExpectedSchedulerVersion p + 1)
     \<and> list_all intent_valid (DP_Instances p) \<and> list_all DO_Valid (DP_Operations p)
     \<and> hasDependencyCycleOrSelf id p = Some False"

section \<open>The dependency check\<close>

definition edges_of :: "(string \<times> string list) list \<Rightarrow> (string \<times> string) set" where
  "edges_of graph = {(k, d). \<exists>ds. map_of graph k = Some ds \<and> d \<in> set ds \<and> d \<in> dom (map_of graph)}"

text \<open>What the search keeps: finished keys are closed under the edges and on no cycle.\<close>

definition dfs_ok :: "(string \<times> string list) list \<Rightarrow> dfs \<Rightarrow> bool" where
  "dfs_ok graph s \<longleftrightarrow> Df_visiting s \<subseteq> dom (map_of graph) \<and> Df_visiting s \<inter> Df_visited s = {}
     \<and> edges_of graph `` Df_visited s \<subseteq> Df_visited s \<and> (\<forall>x \<in> Df_visited s. (x, x) \<notin> (edges_of graph)\<^sup>+)"

definition dfs_room :: "(string \<times> string list) list \<Rightarrow> dfs \<Rightarrow> nat" where
  "dfs_room graph s = card (dom (map_of graph) - Df_visiting s)"

lemma closed_trancl: "(x, y) \<in> r\<^sup>+ \<Longrightarrow> x \<in> A \<Longrightarrow> r `` A \<subseteq> A \<Longrightarrow> y \<in> A"
  by (induction rule: trancl_induct) auto

lemma dfs_finish:
  assumes ok: "dfs_ok graph s" and k: "k \<in> Df_visiting s"
    and deps: "\<And>d. (k, d) \<in> edges_of graph \<Longrightarrow> d \<in> Df_visited s"
  shows "dfs_ok graph (s\<lparr>Df_visiting := Df_visiting s - {k}, Df_visited := insert k (Df_visited s)\<rparr>)"
proof -
  have closed: "edges_of graph `` Df_visited s \<subseteq> Df_visited s" and k': "k \<notin> Df_visited s"
    using ok k by (auto simp: dfs_ok_def)
  have "(k, k) \<notin> (edges_of graph)\<^sup>+"
  proof
    assume "(k, k) \<in> (edges_of graph)\<^sup>+"
    then obtain d where "(k, d) \<in> edges_of graph" "(d, k) \<in> (edges_of graph)\<^sup>*" by (metis tranclD)
    with deps closed have "k \<in> Df_visited s" by (metis closed_trancl rtranclD)
    with k' show False ..
  qed
  with ok k deps show ?thesis unfolding dfs_ok_def by auto
qed

text \<open>What a call leaves behind: a cycle, or the keys it was asked about among the finished ones.\<close>

definition dfs_post :: "(string \<times> string list) list \<Rightarrow> dfs \<Rightarrow> string set \<Rightarrow> (bool \<times> dfs) option \<Rightarrow> bool" where
  "dfs_post graph s ks r \<longleftrightarrow> (\<exists>b s'. r = Some (b, s') \<and> (b \<longrightarrow> \<not> acyclic (edges_of graph))
     \<and> (\<not> b \<longrightarrow> dfs_ok graph s' \<and> Df_visiting s' = Df_visiting s \<and> Df_visited s \<subseteq> Df_visited s' \<and> ks \<subseteq> Df_visited s'))"

definition dfs_pre :: "(string \<times> string list) list \<Rightarrow> nat \<Rightarrow> dfs \<Rightarrow> string set \<Rightarrow> bool" where
  "dfs_pre graph fuel s ks \<longleftrightarrow> dfs_ok graph s \<and> dfs_room graph s < fuel \<and> (\<forall>v \<in> Df_visiting s. \<forall>k \<in> ks. (v, k) \<in> (edges_of graph)\<^sup>+)"

lemma dfs_pre_deps:
  assumes pre: "dfs_pre graph (Suc fuel) s {k}" and ds: "map_of graph k = Some ds" and new: "k \<notin> Df_visiting s" "k \<notin> Df_visited s"
  shows "dfs_pre graph fuel (s\<lparr>Df_visiting := insert k (Df_visiting s)\<rparr>) (set ds \<inter> dom (map_of graph))"
proof -
  let ?s = "s\<lparr>Df_visiting := insert k (Df_visiting s)\<rparr>"
  have ok: "dfs_ok graph ?s" using pre ds new by (auto simp: dfs_pre_def dfs_ok_def)
  have edge: "(k, d) \<in> edges_of graph" if "d \<in> set ds \<inter> dom (map_of graph)" for d using ds that by (simp add: edges_of_def)
  have reach: "(v, d) \<in> (edges_of graph)\<^sup>+" if "v \<in> Df_visiting ?s" "d \<in> set ds \<inter> dom (map_of graph)" for v d
    using pre edge [OF that(2)] that(1) unfolding dfs_pre_def by (auto intro: trancl_into_trancl)
  have "finite (dom (map_of graph))" by (rule finite_dom_map_of)
  then have "dfs_room graph ?s < dfs_room graph s" unfolding dfs_room_def
    using ds new by (intro psubset_card_mono) auto
  with pre ok reach show ?thesis unfolding dfs_pre_def by auto
qed

lemma dfs_visit_step:
  assumes pre: "dfs_pre graph (Suc fuel) s {k}" and ds: "map_of graph k = Some ds"
    and deps: "k \<notin> Df_visiting s \<Longrightarrow> k \<notin> Df_visited s \<Longrightarrow>
      dfs_post graph (s\<lparr>Df_visiting := insert k (Df_visiting s)\<rparr>) (set ds \<inter> dom (map_of graph)) (dfs_deps fuel graph ds (s\<lparr>Df_visiting := insert k (Df_visiting s)\<rparr>))"
  shows "dfs_post graph s {k} (dfs_visit (Suc fuel) graph k s)"
proof -
  consider (cycle) "k \<in> Df_visiting s" | (old) "k \<notin> Df_visiting s" "k \<in> Df_visited s" | (new) "k \<notin> Df_visiting s" "k \<notin> Df_visited s" by blast
  then show ?thesis
  proof cases
    case cycle
    then have "(k, k) \<in> (edges_of graph)\<^sup>+" using pre by (auto simp: dfs_pre_def)
    then have "\<not> acyclic (edges_of graph)" unfolding acyclic_def by blast
    with cycle show ?thesis by (auto simp: dfs_post_def)
  next
    case old
    with pre show ?thesis by (auto simp: dfs_post_def dfs_pre_def)
  next
    case new
    from deps [OF new] obtain b s' where d: "dfs_deps fuel graph ds (s\<lparr>Df_visiting := insert k (Df_visiting s)\<rparr>) = Some (b, s')"
      "b \<longrightarrow> \<not> acyclic (edges_of graph)"
      and post: "\<not> b \<longrightarrow> dfs_ok graph s' \<and> Df_visiting s' = insert k (Df_visiting s) \<and> Df_visited s \<subseteq> Df_visited s' \<and> set ds \<inter> dom (map_of graph) \<subseteq> Df_visited s'"
      unfolding dfs_post_def by auto
    have "dfs_ok graph (s'\<lparr>Df_visiting := Df_visiting s' - {k}, Df_visited := insert k (Df_visited s')\<rparr>)" if "\<not> b"
      using post that ds by (intro dfs_finish) (auto simp: edges_of_def)
    with d ds post new show ?thesis by (cases b) (auto simp: dfs_post_def)
  qed
qed

lemma dfs_deps_step:
  assumes pre: "dfs_pre graph fuel s (set (d # ds) \<inter> dom (map_of graph))" and d: "d \<in> dom (map_of graph)"
    and visit: "dfs_post graph s {d} (dfs_visit fuel graph d s)"
    and rest: "\<And>s'. dfs_pre graph fuel s' (set ds \<inter> dom (map_of graph)) \<Longrightarrow> dfs_visit fuel graph d s = Some (False, s') \<Longrightarrow>
      dfs_post graph s' (set ds \<inter> dom (map_of graph)) (dfs_deps fuel graph ds s')"
  shows "dfs_post graph s (set (d # ds) \<inter> dom (map_of graph)) (dfs_deps fuel graph (d # ds) s)"
proof -
  from visit obtain b s' where v: "dfs_visit fuel graph d s = Some (b, s')" "b \<longrightarrow> \<not> acyclic (edges_of graph)"
    and post: "\<not> b \<longrightarrow> dfs_ok graph s' \<and> Df_visiting s' = Df_visiting s \<and> Df_visited s \<subseteq> Df_visited s' \<and> {d} \<subseteq> Df_visited s'"
    unfolding dfs_post_def by blast
  show ?thesis
  proof (cases b)
    case True
    with v d show ?thesis by (auto simp: dfs_post_def)
  next
    case False
    with post pre have "dfs_pre graph fuel s' (set ds \<inter> dom (map_of graph))" by (auto simp: dfs_pre_def dfs_room_def)
    from rest [OF this] v False obtain b'' s'' where w: "dfs_deps fuel graph ds s' = Some (b'', s'')" "b'' \<longrightarrow> \<not> acyclic (edges_of graph)"
      "\<not> b'' \<longrightarrow> dfs_ok graph s'' \<and> Df_visiting s'' = Df_visiting s' \<and> Df_visited s' \<subseteq> Df_visited s'' \<and> set ds \<inter> dom (map_of graph) \<subseteq> Df_visited s''"
      unfolding dfs_post_def by auto
    have "dfs_deps fuel graph (d # ds) s = Some (b'', s'')" using v False w(1) d by auto
    with w post False show ?thesis unfolding dfs_post_def by (intro exI [of _ b''] exI [of _ s'']) auto
  qed
qed

lemma dfs_spec:
  "dfs_pre graph fuel s {k} \<Longrightarrow> k \<in> dom (map_of graph) \<Longrightarrow> dfs_post graph s {k} (dfs_visit fuel graph k s)"
  "dfs_pre graph fuel s (set ds \<inter> dom (map_of graph)) \<Longrightarrow> dfs_post graph s (set ds \<inter> dom (map_of graph)) (dfs_deps fuel graph ds s)"
proof (induction fuel graph k s and fuel graph ds s rule: dfs_visit_dfs_deps.induct)
  case (1 graph k s)
  then show ?case by (simp add: dfs_pre_def)
next
  case (2 fuel graph k s)
  from 2(3) obtain ds where ds: "map_of graph k = Some ds" by auto
  show ?case
  proof (rule dfs_visit_step [OF 2(2) ds])
    assume new: "k \<notin> Df_visiting s" "k \<notin> Df_visited s"
    from 2(1) [OF this, unfolded ds option.case, OF dfs_pre_deps [OF 2(2) ds new]]
    show "dfs_post graph (s\<lparr>Df_visiting := insert k (Df_visiting s)\<rparr>) (set ds \<inter> dom (map_of graph)) (dfs_deps fuel graph ds (s\<lparr>Df_visiting := insert k (Df_visiting s)\<rparr>))" .
  qed
next
  case (3 fuel graph s)
  then show ?case by (auto simp: dfs_post_def dfs_pre_def)
next
  case (4 fuel graph d ds s)
  show ?case
  proof (cases "map_of graph d = None")
    case True
    then have "set (d # ds) \<inter> dom (map_of graph) = set ds \<inter> dom (map_of graph)" by auto
    with 4(1) [OF True] 4(4) True show ?thesis by simp
  next
    case False
    then have d: "d \<in> dom (map_of graph)" by blast
    with 4(4) have "dfs_pre graph fuel s {d}" by (auto simp: dfs_pre_def)
    from dfs_deps_step [OF 4(4) d 4(2) [OF False this d]] 4(3) [OF False] show ?thesis by blast
  qed
qed

lemma dfs_all_spec:
  assumes "dfs_pre graph fuel s {}" and "Df_visiting s = {}" and "set ks \<subseteq> dom (map_of graph)"
  shows "\<exists>b. dfs_all fuel graph ks s = Some b \<and> (b \<longrightarrow> \<not> acyclic (edges_of graph))
    \<and> (\<not> b \<longrightarrow> (\<forall>k \<in> set ks \<union> Df_visited s. (k, k) \<notin> (edges_of graph)\<^sup>+))"
  using assms
proof (induction ks arbitrary: s)
  case Nil
  then show ?case by (auto simp: dfs_pre_def dfs_ok_def)
next
  case (Cons k ks)
  have "dfs_post graph s {k} (dfs_visit fuel graph k s)" using Cons.prems by (intro dfs_spec) (auto simp: dfs_pre_def)
  then obtain b s' where v: "dfs_visit fuel graph k s = Some (b, s')" "b \<longrightarrow> \<not> acyclic (edges_of graph)"
    and post: "\<not> b \<longrightarrow> dfs_ok graph s' \<and> Df_visiting s' = Df_visiting s \<and> Df_visited s \<subseteq> Df_visited s' \<and> {k} \<subseteq> Df_visited s'"
    unfolding dfs_post_def by blast
  show ?case
  proof (cases b)
    case True
    with v show ?thesis by auto
  next
    case False
    with post Cons.prems have "dfs_pre graph fuel s' {}" by (auto simp: dfs_pre_def dfs_room_def)
    with Cons.IH [of s'] Cons.prems post False obtain b' where "dfs_all fuel graph ks s' = Some b'"
      "b' \<longrightarrow> \<not> acyclic (edges_of graph)" "\<not> b' \<longrightarrow> (\<forall>k \<in> set ks \<union> Df_visited s'. (k, k) \<notin> (edges_of graph)\<^sup>+)" by auto
    with v False post show ?thesis by auto
  qed
qed

lemma dfs_decides:
  assumes "set ks = dom (map_of graph)"
  shows "dfs_all (length graph + 1) graph ks \<lparr>Df_visiting = {}, Df_visited = {}\<rparr> = Some (\<not> acyclic (edges_of graph))"
proof -
  let ?s = "\<lparr>Df_visiting = {}, Df_visited = {}\<rparr> :: dfs"
  have "card (dom (map_of graph)) \<le> length graph" by (metis card_length dom_map_of_conv_image_fst length_map set_map)
  then have "dfs_pre graph (length graph + 1) ?s {}" by (simp add: dfs_pre_def dfs_ok_def dfs_room_def)
  from dfs_all_spec [OF this, of ks] assms obtain b where b: "dfs_all (length graph + 1) graph ks ?s = Some b" "b \<longrightarrow> \<not> acyclic (edges_of graph)"
    "\<not> b \<longrightarrow> (\<forall>k \<in> set ks. (k, k) \<notin> (edges_of graph)\<^sup>+)" by auto
  have "k \<in> set ks" if "(k, k) \<in> (edges_of graph)\<^sup>+" for k using that assms
    by (auto simp: edges_of_def dest!: tranclD)
  with b show ?thesis by (auto simp: acyclic_def)
qed

text \<open>The graph the first loop builds.\<close>

definition entry :: "(string \<times> string list) list \<Rightarrow> string \<Rightarrow> string list" where
  "entry graph k = (case map_of graph k of None \<Rightarrow> [] | Some ds \<Rightarrow> ds)"

lemma map_of_add_edge: "map_of (add_edge k d graph) = (map_of graph)(k \<mapsto> entry graph k @ [d])"
  by (induction graph) (auto simp: entry_def fun_eq_iff)

lemma graph_of_deps_eq:
  "graph_of_deps k seen ds graph = (if dependencies_ok k seen ds then Some (foldl (\<lambda>g d. add_edge k d g) graph ds) else None)"
  by (induction k seen ds graph rule: graph_of_deps.induct) auto

lemma entry_add_edge: "entry (add_edge k d graph) k' = entry graph k' @ (if k' = k then [d] else [])"
  by (simp add: entry_def map_of_add_edge)

lemma entry_add_edges: "entry (foldl (\<lambda>g d. add_edge k d g) graph ds) k' = entry graph k' @ (if k' = k then ds else [])"
  by (induction ds arbitrary: graph) (auto simp: entry_add_edge)

lemma filed_add_edges:
  "\<forall>k. map_of graph k \<noteq> Some [] \<Longrightarrow> \<forall>k'. map_of (foldl (\<lambda>g d. add_edge k d g) graph ds) k' \<noteq> Some []"
  by (induction ds arbitrary: graph) (simp_all add: map_of_add_edge)

lemma graph_of_spec:
  assumes "\<forall>k. map_of graph k \<noteq> Some []"
  shows "if list_all DependenciesValid ops
    then \<exists>g. graph_of ops graph = Some g \<and> (\<forall>k. map_of g k \<noteq> Some [])
      \<and> (\<forall>k. set (entry g k) = set (entry graph k) \<union> {d. \<exists>q \<in> set ops. DO_ID q = k \<and> d \<in> set (DO_DependsOn q)})
    else graph_of ops graph = None"
  using assms
proof (induction ops arbitrary: graph)
  case (Cons q ops)
  let ?g = "foldl (\<lambda>g d. add_edge (DO_ID q) d g) graph (DO_DependsOn q)"
  have "\<forall>k. map_of ?g k \<noteq> Some []" using Cons.prems by (rule filed_add_edges)
  from Cons.IH [OF this] show ?case
    by (auto simp: graph_of_deps_eq DependenciesValid_def entry_add_edges split: if_splits)
qed simp

definition depends :: "DurablePlan \<Rightarrow> (string \<times> string) set" where
  "depends p = {(DO_ID q, d) | q d. q \<in> set (DP_Operations p) \<and> d \<in> set (DO_DependsOn q)}"

lemma acyclic_inner: "acyclic (r \<inter> UNIV \<times> Domain r) \<longleftrightarrow> acyclic r"
proof
  let ?r = "r \<inter> UNIV \<times> Domain r"
  have inner: "y \<in> Domain r \<Longrightarrow> (x, y) \<in> ?r\<^sup>+" if "(x, y) \<in> r\<^sup>+" for x y
    using that
  proof (induction rule: trancl_induct)
    case (base y)
    then show ?case by blast
  next
    case (step y z)
    then have "(x, y) \<in> ?r\<^sup>+" "(y, z) \<in> ?r" by auto
    then show ?case by (rule trancl_into_trancl)
  qed
  assume "acyclic ?r"
  then show "acyclic r" unfolding acyclic_def using inner by (metis Domain.DomainI tranclD)
qed (auto intro: acyclic_subset)

text \<open>
  C20. The dependency check of a plan is exact and always returns: whatever the order in which the map is ranged over, it
  reports a fault if and only if some operation names an empty, repeated or own identity as a
  dependency or the dependencies run in a circle.
\<close>

theorem dependency_check_exact:
  assumes "\<And>ks. set (order ks) = set ks"
  shows "hasDependencyCycleOrSelf order p = Some (\<not> (list_all DependenciesValid (DP_Operations p) \<and> acyclic (depends p)))"
proof (cases "list_all DependenciesValid (DP_Operations p)")
  case True
  with graph_of_spec [of "[]" "DP_Operations p"] obtain g where g: "graph_of (DP_Operations p) [] = Some g" "\<forall>k. map_of g k \<noteq> Some []"
    and e': "\<forall>k. set (entry g k) = {d. \<exists>q \<in> set (DP_Operations p). DO_ID q = k \<and> d \<in> set (DO_DependsOn q)}"
    by (fastforce simp: entry_def [of "[]"])
  have e: "\<forall>k. set (entry g k) = {d. (k, d) \<in> depends p}" 
    by (intro allI, subst e' [rule_format]) (auto simp: depends_def)
  have "k \<in> dom (map_of g) \<longleftrightarrow> set (entry g k) \<noteq> {}" for k using g(2) [rule_format, of k] by (cases "map_of g k") (auto simp: entry_def)
  then have dom: "k \<in> dom (map_of g) \<longleftrightarrow> k \<in> Domain (depends p)" for k using e by auto
  have "(k, d) \<in> edges_of g \<longleftrightarrow> d \<in> set (entry g k) \<and> d \<in> dom (map_of g)" for k d
    by (cases "map_of g k") (auto simp: edges_of_def entry_def)
  then have "edges_of g = depends p \<inter> UNIV \<times> Domain (depends p)" using e dom by auto
  moreover have "set (order (map fst g)) = dom (map_of g)" using assms by (simp add: dom_map_of_conv_image_fst)
  ultimately show ?thesis using dfs_decides [of "order (map fst g)" g] True g(1) by (simp add: hasDependencyCycleOrSelf_def acyclic_inner)
next
  case False
  with graph_of_spec [of "[]" "DP_Operations p"] show ?thesis by (simp add: hasDependencyCycleOrSelf_def)
qed

text \<open>Two operations that wait for each other.\<close>

definition fx_circular :: DurablePlan where
  "fx_circular = \<lparr>DP_ID = ''p'', DP_ExpectedSchedulerVersion = 0,
     DP_Scheduler = \<lparr>DS_Version = 1, DS_Data = [], DS_Reservations = [], DS_DeficitRoundRobin = [], DS_ObservationCursor = []\<rparr>,
     DP_Instances = [],
     DP_Operations = [zero_DurableOperation\<lparr>DO_ID := ''a'', DO_DependsOn := [''b'']\<rparr>, zero_DurableOperation\<lparr>DO_ID := ''b'', DO_DependsOn := [''a'']\<rparr>],
     DP_CreatedAt = 1\<rparr>"

theorem dependency_check_exact_witness: "hasDependencyCycleOrSelf rev fx_circular = Some True \<and> \<not> acyclic (depends fx_circular)"
proof -
  have "hasDependencyCycleOrSelf rev fx_circular = Some True" "list_all DependenciesValid (DP_Operations fx_circular)" by code_simp+
  with dependency_check_exact [of rev fx_circular] show ?thesis by simp
qed

section \<open>Retries\<close>

text \<open>Go's signed 64-bit arithmetic wraps around.\<close>

definition wrap64 :: "int \<Rightarrow> int" where
  "wrap64 x = (x + 2 ^ 63) mod 2 ^ 64 - 2 ^ 63"

record RetryPolicy =
  RP_Initial :: duration
  RP_Maximum :: duration
  RP_MaxAttempts :: int
  RP_MaxElapsed :: duration
  RP_Jitter :: "(int \<Rightarrow> duration \<Rightarrow> duration) option"

definition DurableCleanupMaxAttempts :: int where "DurableCleanupMaxAttempts = 720"
definition DurableCleanupMaxElapsed :: duration where "DurableCleanupMaxElapsed = 6 * 60 * minute"

definition DurableCleanupRetryPolicy :: "duration \<Rightarrow> RetryPolicy" where
  "DurableCleanupRetryPolicy maximum = \<lparr>RP_Initial = 0, RP_Maximum = maximum, RP_MaxAttempts = DurableCleanupMaxAttempts,
     RP_MaxElapsed = DurableCleanupMaxElapsed, RP_Jitter = None\<rparr>"

text \<open>The doubling loop, with the iterations left as its argument.\<close>

fun backoff :: "nat \<Rightarrow> duration \<Rightarrow> duration \<Rightarrow> duration" where
  "backoff 0 maximum delay = delay"
| "backoff (Suc n) maximum delay =
     (if maximum > 0 \<and> delay \<ge> maximum div 2 then maximum else backoff n maximum (wrap64 (delay * 2)))"

definition cap_delay :: "duration \<Rightarrow> duration \<Rightarrow> duration" where
  "cap_delay maximum delay = (if maximum > 0 \<and> delay > maximum then maximum else delay)"

definition first_delay :: "RetryPolicy \<Rightarrow> duration" where
  "first_delay p = (if RP_Initial p \<le> 0 then second else RP_Initial p)"

definition Retry_Next :: "RetryPolicy \<Rightarrow> int \<Rightarrow> time \<Rightarrow> time \<Rightarrow> time option" where
  "Retry_Next p attempt now startedAt =
     (if RP_MaxAttempts p > 0 \<and> attempt \<ge> RP_MaxAttempts p then None
      else if RP_MaxElapsed p > 0 \<and> \<not> time_IsZero startedAt \<and> \<not> now < startedAt + RP_MaxElapsed p then None
      else
        (let delay = cap_delay (RP_Maximum p) (backoff (nat (attempt - 1)) (RP_Maximum p) (first_delay p))
         in case RP_Jitter p of
              None \<Rightarrow> Some (now + delay)
            | Some jitter \<Rightarrow> Some (now + cap_delay (RP_Maximum p) (max 0 (wrap64 (delay + jitter attempt delay))))))"

lemma wrap64_id: "- (2 ^ 63) \<le> x \<Longrightarrow> x < 2 ^ 63 \<Longrightarrow> wrap64 x = x"
  by (simp add: wrap64_def)

lemma backoff_bounds:
  assumes "0 < maximum" and "maximum \<le> max_Duration" and "0 < delay" and "delay \<le> max_Duration"
  shows "min (delay * 2 ^ n) maximum \<le> backoff n maximum delay \<and> backoff n maximum delay \<le> max maximum delay"
  using assms(3,4)
proof (induction n arbitrary: delay)
  case (Suc n)
  show ?case
  proof (cases "delay \<ge> maximum div 2")
    case True
    with assms(1) show ?thesis by simp
  next
    case False
    then have half: "delay * 2 \<le> maximum" by simp
    then have "wrap64 (delay * 2) = delay * 2" using Suc.prems assms(2) by (intro wrap64_id) (auto simp: max_Duration_def)
    with Suc.IH [of "delay * 2"] Suc.prems half False assms(2) show ?thesis by (auto simp: mult.assoc)
  qed
qed simp

text \<open>
  C36. A failed operation is retried unless a ceiling is reached, and then never: there is a next attempt exactly
  while the attempts are below their ceiling and the time since the operation was created is below its
  own. The wait before it grows at least as fast as doubling allows and is never longer than the maximum.
\<close>

theorem retry_is_bounded:
  assumes max: "0 < RP_Maximum p" "RP_Maximum p \<le> max_Duration" and initial: "RP_Initial p \<le> max_Duration"
  shows "case Retry_Next p attempt now startedAt of
      None \<Rightarrow> (0 < RP_MaxAttempts p \<and> RP_MaxAttempts p \<le> attempt)
        \<or> (0 < RP_MaxElapsed p \<and> startedAt \<noteq> 0 \<and> startedAt + RP_MaxElapsed p \<le> now)
    | Some at' \<Rightarrow> (0 < RP_MaxAttempts p \<longrightarrow> attempt < RP_MaxAttempts p)
        \<and> (0 < RP_MaxElapsed p \<longrightarrow> startedAt \<noteq> 0 \<longrightarrow> now < startedAt + RP_MaxElapsed p)
        \<and> now \<le> at' \<and> at' \<le> now + RP_Maximum p
        \<and> (RP_Jitter p = None \<longrightarrow> now + min (first_delay p * 2 ^ nat (attempt - 1)) (RP_Maximum p) \<le> at')"
proof -
  let ?d = "backoff (nat (attempt - 1)) (RP_Maximum p) (first_delay p)"
  have "0 < first_delay p" "first_delay p \<le> max_Duration" using initial by (auto simp: first_delay_def max_Duration_def)
  from backoff_bounds [OF max this, of "nat (attempt - 1)"] have low: "min (first_delay p * 2 ^ nat (attempt - 1)) (RP_Maximum p) \<le> ?d" by blast
  define m where "m = min (first_delay p * 2 ^ nat (attempt - 1)) (RP_Maximum p)"
  define delay where "delay = cap_delay (RP_Maximum p) ?d"
  have d: "m \<le> delay" "delay \<le> RP_Maximum p" "0 \<le> m"
    using low max(1) \<open>0 < first_delay p\<close> by (simp_all add: delay_def m_def cap_delay_def)
  have j: "0 \<le> cap_delay (RP_Maximum p) (max 0 x)" "cap_delay (RP_Maximum p) (max 0 x) \<le> RP_Maximum p" for x
    using max(1) by (auto simp: cap_delay_def)
  have next': "Retry_Next p attempt now startedAt =
    (if RP_MaxAttempts p > 0 \<and> attempt \<ge> RP_MaxAttempts p then None
     else if RP_MaxElapsed p > 0 \<and> startedAt \<noteq> 0 \<and> \<not> now < startedAt + RP_MaxElapsed p then None
     else (case RP_Jitter p of None \<Rightarrow> Some (now + delay)
       | Some jitter \<Rightarrow> Some (now + cap_delay (RP_Maximum p) (max 0 (wrap64 (delay + jitter attempt delay))))))"
    unfolding Retry_Next_def Let_def delay_def by simp
  show ?thesis unfolding next' m_def [symmetric] using d j by (cases "RP_Jitter p") (auto simp: not_le)
qed

theorem retry_is_bounded_witness:
  "Retry_Next (DurableCleanupRetryPolicy (30 * second)) 4 (100 * second) (50 * second) = Some (108 * second)
   \<and> 100 * second + min (second * 2 ^ 3) (30 * second) \<le> 108 * second"
proof -
  let ?p = "DurableCleanupRetryPolicy (30 * second)"
  have next': "Retry_Next ?p 4 (100 * second) (50 * second) = Some (108 * second)" by code_simp
  have "0 < RP_Maximum ?p" "RP_Maximum ?p \<le> max_Duration" "RP_Initial ?p \<le> max_Duration" by code_simp+
  from retry_is_bounded [OF this, of 4 "100 * second" "50 * second"] next' show ?thesis
    by (simp add: DurableCleanupRetryPolicy_def first_delay_def)
qed

section \<open>Dead letters\<close>

definition MaxCleanupResumptions :: int where "MaxCleanupResumptions = 3"
definition CleanupResumptionBackoff :: duration where "CleanupResumptionBackoff = 10 * minute"

definition CleanupResumptionDue :: "int \<Rightarrow> time \<Rightarrow> time \<Rightarrow> bool" where
  "CleanupResumptionDue resumed deadAt now =
     (if resumed < 0 \<or> resumed \<ge> MaxCleanupResumptions then False
      else if resumed = 0 then True
      else \<not> time_IsZero deadAt \<and> \<not> now < deadAt \<and> time_Sub now deadAt \<ge> CleanupResumptionBackoff * 2 ^ nat (resumed - 1))"

record DeadLetter =
  DL_OperationID :: string
  DL_Kind :: string
  DL_Code :: string
  DL_ResourceID :: string
  DL_Attempts :: int
  DL_ResourceProgressing :: bool
  DL_Resumptions :: int
  DL_DeadAt :: time

record Discharge =
  Di_OperationID :: string
  Di_InstanceID :: string
  Di_ReapInstance :: bool
  Di_Reason :: string
  Di_At :: time

definition Di_Valid :: "Discharge \<Rightarrow> bool" where
  "Di_Valid d \<longleftrightarrow> Di_OperationID d \<noteq> [] \<and> Di_InstanceID d \<noteq> [] \<and> TrimSpace (Di_Reason d) \<noteq> [] \<and> \<not> time_IsZero (Di_At d)"

record DischargeOutcome =
  DiO_OperationDischarged :: bool
  DiO_InstanceReaped :: bool
  DiO_Ownership :: Ownership

record StalledOperation =
  SO_OperationID :: string
  SO_Kind :: string
  SO_Code :: string
  SO_Instance :: string
  SO_Attempts :: int
  SO_Retrying :: duration
  SO_DrainState :: string
  SO_Held :: duration

section \<open>Observations\<close>

record DeletionConfirmation =
  DC_Fresh :: bool
  DC_RunnerInactive :: bool
  DC_JobsInactive :: bool
  DC_ObservedAt :: time

definition DC_Safe :: "DeletionConfirmation \<Rightarrow> time \<Rightarrow> duration \<Rightarrow> bool" where
  "DC_Safe c now maxAge \<longleftrightarrow> DC_Fresh c \<and> DC_RunnerInactive c \<and> DC_JobsInactive c \<and> \<not> time_IsZero (DC_ObservedAt c)
     \<and> \<not> DC_ObservedAt c > now \<and> time_Sub now (DC_ObservedAt c) \<le> maxAge"

record ListenerObservation =
  LO_Fresh :: bool
  LO_Age :: duration
  LO_Registered :: bool
  LO_Assigned :: bool

datatype ListenerDecision = ListenerPreserve | ListenerCleanup | ListenerFailClosed

definition DecideListenerCleanup :: "ListenerObservation \<Rightarrow> duration \<Rightarrow> ListenerDecision" where
  "DecideListenerCleanup ob bootstrapGrace =
     (if \<not> LO_Fresh ob \<or> LO_Age ob < 0 \<or> bootstrapGrace < 0 then ListenerFailClosed
      else if LO_Age ob < bootstrapGrace \<or> LO_Registered ob \<or> LO_Assigned ob then ListenerPreserve
      else ListenerCleanup)"

record TrafficSample =
  TS_InstanceID :: string
  TS_Repo :: string
  TS_Platform :: Platform
  TS_Profile :: ProfileID
  TS_StartedAt :: time
  TS_SampledAt :: time
  TS_Measured :: bool
  TS_ReceiveBytes :: int
  TS_TransmitBytes :: int
  TS_Unmeasured :: string

definition TS_Valid :: "TrafficSample \<Rightarrow> bool" where
  "TS_Valid s =
     (if TS_InstanceID s = [] \<or> time_IsZero (TS_SampledAt s) then False
      else if TS_Measured s then TS_Unmeasured s = [] \<and> TS_ReceiveBytes s \<ge> 0 \<and> TS_TransmitBytes s \<ge> 0
      else if TS_Unmeasured s \<in> {''exec_failed'', ''exec_timeout'', ''unreadable'', ''no_command'', ''no_reading''}
      then TS_ReceiveBytes s = 0 \<and> TS_TransmitBytes s = 0
      else False)"

section \<open>Demand records\<close>

datatype DemandEventKind = DemandJobAvailable | DemandJobAssigned | DemandJobStarted | DemandJobCompleted | DemandEventKindOther string

record DemandEvent =
  DE_Kind :: DemandEventKind
  DE_RunnerRequestID :: int
  DE_Owner :: string
  DE_Repository :: string
  DE_WorkflowRunID :: int
  DE_JobID :: string
  DE_DisplayName :: string
  DE_WorkflowRef :: string
  DE_EventName :: string
  DE_Labels :: "string list option"
  DE_QueueTime :: time
  DE_RunnerID :: int
  DE_RunnerName :: string
  DE_Result :: string

definition DE_Valid :: "DemandEvent \<Rightarrow> bool" where
  "DE_Valid e = (if DE_RunnerRequestID e \<le> 0 then False
     else (case DE_Kind e of DemandEventKindOther _ \<Rightarrow> False | _ \<Rightarrow> True))"

record DemandRecord =
  DR_ScaleSetID :: int
  DR_RunnerRequestID :: int
  DR_Status :: DemandEventKind
  DR_Owner :: string
  DR_Repository :: string
  DR_WorkflowRunID :: int
  DR_JobID :: string
  DR_DisplayName :: string
  DR_WorkflowRef :: string
  DR_LogicalKey :: string
  DR_EventName :: string
  DR_Labels :: "string list"
  DR_QueueTime :: time
  DR_FirstQueueTime :: time
  DR_WorkflowJobID :: int
  DR_RunAttempt :: int
  DR_RunnerID :: int
  DR_RunnerName :: string
  DR_Result :: string
  DR_UpdatedAt :: time

definition DR_Repo :: "DemandRecord \<Rightarrow> string" where
  "DR_Repo r = DR_Owner r @ ''/'' @ DR_Repository r"

definition DR_DemandKey :: "DemandRecord \<Rightarrow> DemandKey" where
  "DR_DemandKey r = \<lparr>Key_Repo = DR_Repo r, Key_RunID = DR_WorkflowRunID r,
     Key_Attempt = (if DR_RunAttempt r \<le> 0 then 1 else DR_RunAttempt r), Key_JobID = DR_RunnerRequestID r\<rparr>"

record DemandStatistics =
  DSt_MessageID :: int
  DSt_Available :: int
  DSt_Acquired :: int
  DSt_Assigned :: int
  DSt_Running :: int
  DSt_Registered :: int
  DSt_Busy :: int
  DSt_Idle :: int
  DSt_ObservedAt :: time

definition DSt_Valid :: "DemandStatistics \<Rightarrow> bool" where
  "DSt_Valid s \<longleftrightarrow> DSt_MessageID s > 0 \<and> DSt_Available s \<ge> 0 \<and> DSt_Acquired s \<ge> 0 \<and> DSt_Assigned s \<ge> 0 \<and> DSt_Running s \<ge> 0
     \<and> DSt_Registered s \<ge> 0 \<and> DSt_Busy s \<ge> 0 \<and> DSt_Idle s \<ge> 0"

record GitHubJobObservation =
  GJ_WorkflowJobID :: int
  GJ_Owner :: string
  GJ_Repository :: string
  GJ_WorkflowRunID :: int
  GJ_RunAttempt :: int
  GJ_DisplayName :: string
  GJ_WorkflowRef :: string
  GJ_Labels :: "string list"
  GJ_Status :: string
  GJ_CreatedAt :: time
  GJ_QueueTimeExact :: bool

definition GJ_Valid :: "GitHubJobObservation \<Rightarrow> bool" where
  "GJ_Valid j \<longleftrightarrow> GJ_WorkflowJobID j > 0 \<and> GJ_Owner j \<noteq> [] \<and> GJ_Repository j \<noteq> [] \<and> GJ_WorkflowRunID j > 0
     \<and> GJ_RunAttempt j > 0 \<and> GJ_DisplayName j \<noteq> [] \<and> \<not> time_IsZero (GJ_CreatedAt j)"

record GhostDemandCriteria =
  GD_ObservedAt :: time
  GD_AbsentBefore :: time
  GD_MinObservations :: int

definition GD_Valid :: "GhostDemandCriteria \<Rightarrow> bool" where
  "GD_Valid c \<longleftrightarrow> \<not> time_IsZero (GD_ObservedAt c) \<and> \<not> time_IsZero (GD_AbsentBefore c) \<and> \<not> GD_AbsentBefore c > GD_ObservedAt c
     \<and> GD_MinObservations c > 0"

record OverdueDemandCriteria =
  OD_Now :: time
  OD_TTL :: duration

definition OD_Valid :: "OverdueDemandCriteria \<Rightarrow> bool" where
  "OD_Valid c \<longleftrightarrow> \<not> time_IsZero (OD_Now c) \<and> OD_TTL c > 0"

end
