(* ===== verification/Failure_Codes.thy ===== *)
theory Failure_Codes
  imports Operations
begin

text \<open>
  The closed vocabulary of lifecycle failures (\<open>internal/lifecycle\<close>: \<open>executor.go\<close>, \<open>escalation.go\<close>, \<open>abort.go\<close>,
  \<open>capabilities.go\<close>) and of runner administration (\<open>internal/adapters/githubscaleset/runner.go\<close>): the text an executor
  persists, the code an operator sees, and the rung of the stop ladder it selects.
\<close>

section \<open>Runner administration\<close>

text \<open>
  An error is the list of marks \<open>errors.Is\<close> and \<open>errors.As\<close> find along its chain, outermost first; the nil
  error is \<^const>\<open>None\<close>.
\<close>

datatype APIErrorKind = Authentication | Authorization | APINotFound | APIConflict | Validation | RateLimited | ServerError
  | Unexpected | APIErrorKindOther string

datatype error_mark = JobStillRunning | RunnerAdminUnavailable | RunnerScopeUnresolved | RunnerLookup | RunnerRemoval
  | APIErrorMark APIErrorKind

type_synonym adapter_error = "error_mark list"

definition RunnerFailureReasons :: "string list" where
  "RunnerFailureReasons = [''runner_busy'', ''runner_forbidden'', ''runner_admin_unavailable'', ''runner_scope_unresolved'',
     ''runner_lookup_failed'', ''runner_removal_failed'', ''deregister_failed'']"

definition ValidRunnerFailureReason :: "string \<Rightarrow> bool" where
  "ValidRunnerFailureReason reason \<longleftrightarrow> reason \<in> set RunnerFailureReasons"

fun runnerAccessDenied :: "adapter_error \<Rightarrow> bool" where
  "runnerAccessDenied [] = False"
| "runnerAccessDenied (APIErrorMark kind # _) = (kind = Authentication \<or> kind = Authorization)"
| "runnerAccessDenied (_ # marks) = runnerAccessDenied marks"

definition RunnerFailureDetail :: "adapter_error option \<Rightarrow> string" where
  "RunnerFailureDetail err =
     (case err of
        None \<Rightarrow> []
      | Some marks \<Rightarrow>
          if JobStillRunning \<in> set marks then ''runner_busy''
          else if RunnerAdminUnavailable \<in> set marks then ''runner_admin_unavailable''
          else if RunnerScopeUnresolved \<in> set marks then ''runner_scope_unresolved''
          else if runnerAccessDenied marks then ''runner_forbidden''
          else if RunnerLookup \<in> set marks then ''runner_lookup_failed''
          else if RunnerRemoval \<in> set marks then ''runner_removal_failed''
          else ''deregister_failed'')"

section \<open>Stages\<close>

datatype LifecycleStage = StageClone | StageStart | StageReady | StageAcquire | StageBootstrap | StageRegister | StageGuard
  | StageDeregister | StageConfirm | StageStop | StageDelete | StagePersist

definition stage_text :: "LifecycleStage \<Rightarrow> string" where
  "stage_text s = (case s of
     StageClone \<Rightarrow> ''clone'' | StageStart \<Rightarrow> ''start'' | StageReady \<Rightarrow> ''ready'' | StageAcquire \<Rightarrow> ''acquire_jit''
   | StageBootstrap \<Rightarrow> ''bootstrap'' | StageRegister \<Rightarrow> ''register'' | StageGuard \<Rightarrow> ''drain_guard''
   | StageDeregister \<Rightarrow> ''deregister'' | StageConfirm \<Rightarrow> ''confirm_inactive'' | StageStop \<Rightarrow> ''stop''
   | StageDelete \<Rightarrow> ''delete'' | StagePersist \<Rightarrow> ''persist'')"

record stageError =
  SE_stage :: LifecycleStage
  SE_reason :: string
  SE_stopAttempts :: int
  SE_exhausted :: bool

definition safeError :: "LifecycleStage \<Rightarrow> stageError" where
  "safeError stage = \<lparr>SE_stage = stage, SE_reason = [], SE_stopAttempts = 0, SE_exhausted = False\<rparr>"

definition exhaustedError :: "LifecycleStage \<Rightarrow> stageError" where
  "exhaustedError stage = (safeError stage)\<lparr>SE_exhausted := True\<rparr>"

definition classifiedError :: "LifecycleStage \<Rightarrow> adapter_error option \<Rightarrow> stageError" where
  "classifiedError stage cause = (safeError stage)\<lparr>SE_reason := RunnerFailureDetail cause\<rparr>"

definition stopError :: "int \<Rightarrow> stageError" where
  "stopError n = (safeError StageStop)\<lparr>SE_stopAttempts := n\<rparr>"

definition SE_Error :: "stageError \<Rightarrow> string" where
  "SE_Error e =
     (if SE_stage e = StageStop \<and> SE_stopAttempts e > 0
      then ''runner lifecycle failed at stop (attempt '' @ decimal (SE_stopAttempts e) @ '')''
      else if SE_reason e = [] then ''runner lifecycle failed at '' @ stage_text (SE_stage e)
      else ''runner lifecycle failed at '' @ stage_text (SE_stage e) @ '' ('' @ SE_reason e @ '')'')"

definition BootstrapFailureReasons :: "string list" where
  "BootstrapFailureReasons = [''guest_capability_missing'', ''guest_capability_unverifiable'']"

definition ValidBootstrapFailureReason :: "string \<Rightarrow> bool" where
  "ValidBootstrapFailureReason reason \<longleftrightarrow> reason \<in> set BootstrapFailureReasons"

definition FailureReason :: "stageError \<Rightarrow> string" where
  "FailureReason e =
     (if \<not> ValidRunnerFailureReason (SE_reason e) \<and> \<not> ValidBootstrapFailureReason (SE_reason e) then [] else SE_reason e)"

text \<open>A bootstrap failure keeps a reason of the closed vocabulary and nothing else; \<open>None\<close> is a cause with no stage.\<close>

definition bootstrapFailure :: "stageError option \<Rightarrow> stageError" where
  "bootstrapFailure cause =
     (case cause of
        Some staged \<Rightarrow> if ValidBootstrapFailureReason (SE_reason staged) then staged else safeError StageBootstrap
      | None \<Rightarrow> safeError StageBootstrap)"

section \<open>The stop ladder\<close>

definition GracefulStopAttempts :: int where "GracefulStopAttempts = 3"
definition ForcedStopAttempts :: int where "ForcedStopAttempts = 3"
definition DestructiveStopAttempts :: int where "DestructiveStopAttempts = 3"

datatype StopForce = StopGraceful | StopForced | StopDestructive | StopExhausted

definition StopForce_String :: "StopForce \<Rightarrow> string" where
  "StopForce_String f = (case f of StopGraceful \<Rightarrow> ''graceful'' | StopForced \<Rightarrow> ''forced'' | StopDestructive \<Rightarrow> ''destructive''
     | StopExhausted \<Rightarrow> ''exhausted'')"

definition StopEscalation :: "int \<Rightarrow> StopForce" where
  "StopEscalation stopAttempts =
     (if stopAttempts < GracefulStopAttempts then StopGraceful
      else if stopAttempts < GracefulStopAttempts + ForcedStopAttempts then StopForced
      else if stopAttempts < GracefulStopAttempts + ForcedStopAttempts + DestructiveStopAttempts then StopDestructive
      else StopExhausted)"

definition ladder_attempts :: "int list" where
  "ladder_attempts = [1..GracefulStopAttempts + ForcedStopAttempts + DestructiveStopAttempts]"

definition failureStages :: "LifecycleStage list" where
  "failureStages = [StageClone, StageStart, StageReady, StageAcquire, StageBootstrap, StageRegister, StageGuard, StageDeregister,
     StageConfirm, StageStop, StageDelete, StagePersist]"

definition CodeUnclassified :: string where "CodeUnclassified = ''unclassified''"

text \<open>The texts of one stage in the order the loop tries them, each with its code.\<close>

definition stage_codes :: "LifecycleStage \<Rightarrow> (string \<times> string) list" where
  "stage_codes stage = (SE_Error (safeError stage), stage_text stage)
     # map (\<lambda>reason. (SE_Error ((safeError stage)\<lparr>SE_reason := reason\<rparr>), stage_text stage @ '':'' @ reason))
         (RunnerFailureReasons @ BootstrapFailureReasons)"

definition failure_codes :: "(string \<times> string) list" where
  "failure_codes = map (\<lambda>n. (SE_Error (stopError n), stage_text StageStop)) ladder_attempts @ concat (map stage_codes failureStages)"

definition FailureCode :: "string \<Rightarrow> string" where
  "FailureCode persisted = (case map_of failure_codes persisted of Some code \<Rightarrow> code | None \<Rightarrow> CodeUnclassified)"

definition StopAttempts :: "DurableOperation \<Rightarrow> int" where
  "StopAttempts q =
     (case find (\<lambda>n. DO_LastError q = SE_Error (stopError n)) ladder_attempts of
        Some n \<Rightarrow> n
      | None \<Rightarrow> if FailureCode (DO_LastError q) = stage_text StageStop \<and> DO_Attempts q > 0 then 1 else 0)"

section \<open>Drain phases\<close>

definition stopsItsGuestFirst :: "int \<Rightarrow> bool" where
  "stopsItsGuestFirst phase \<longleftrightarrow> phase = DrainPhaseOccupancyBudget \<or> phase = DrainPhaseGuestUnresponsive"

definition abortsOnBusyRefusal :: "int \<Rightarrow> bool" where
  "abortsOnBusyRefusal phase \<longleftrightarrow> \<not> stopsItsGuestFirst phase \<and> phase \<noteq> DrainPhaseProvisionStalled"

definition derivesInactivityFromRunnerAbsence :: "int \<Rightarrow> bool" where
  "derivesInactivityFromRunnerAbsence phase \<longleftrightarrow> phase \<in> {DrainPhaseStoppedRecovery, DrainPhaseStalledAssignment,
     DrainPhaseLingeringRunner, DrainPhaseOccupancyBudget, DrainPhaseGuestUnresponsive, DrainPhaseProvisionStalled}"

definition DrainPhaseName :: "int \<Rightarrow> string" where
  "DrainPhaseName phase =
     (if phase = DrainPhaseEvent then ''event'' else if phase = DrainPhaseStoppedRecovery then ''stopped_recovery''
      else if phase = DrainPhaseInactiveRecovery then ''inactive_recovery''
      else if phase = DrainPhaseStalledAssignment then ''stalled_assignment''
      else if phase = DrainPhaseLingeringRunner then ''lingering_runner''
      else if phase = DrainPhaseOccupancyBudget then ''occupancy_budget''
      else if phase = DrainPhaseGuestUnresponsive then ''guest_unresponsive''
      else if phase = DrainPhaseProvisionStalled then ''provision_stalled'' else ''unknown'')"

datatype AbortEvidence = AbortEvidenceVMRunning | AbortEvidenceRunnerRegistered | AbortEvidenceRunnerBusy
  | AbortEvidenceGuestAnswered | AbortEvidenceDeregisterRefused

definition evidence_text :: "AbortEvidence \<Rightarrow> string" where
  "evidence_text e = (case e of AbortEvidenceVMRunning \<Rightarrow> ''vm_running'' | AbortEvidenceRunnerRegistered \<Rightarrow> ''runner_registered''
     | AbortEvidenceRunnerBusy \<Rightarrow> ''runner_busy'' | AbortEvidenceGuestAnswered \<Rightarrow> ''guest_answered''
     | AbortEvidenceDeregisterRefused \<Rightarrow> ''deregister_refused_runner_busy'')"

definition AbortOutcome :: "AbortEvidence \<Rightarrow> string" where
  "AbortOutcome e = ''aborted:'' @ evidence_text e"

section \<open>What is written is read back\<close>

text \<open>The failures the executors author, the code each stands for, and what follows the stage in its text.\<close>

definition authored :: "stageError \<Rightarrow> bool" where
  "authored e \<longleftrightarrow> (if SE_stopAttempts e = 0 then SE_reason e \<in> set ([] # RunnerFailureReasons @ BootstrapFailureReasons)
     else SE_stage e = StageStop \<and> SE_reason e = [] \<and> SE_stopAttempts e \<in> set ladder_attempts)"

definition code_of :: "stageError \<Rightarrow> string" where
  "code_of e = stage_text (SE_stage e) @ (if SE_stopAttempts e = 0 \<and> SE_reason e \<noteq> [] then '':'' @ SE_reason e else [])"

definition stage_suffix :: "stageError \<Rightarrow> string" where
  "stage_suffix e =
     (if SE_stopAttempts e \<noteq> 0 then '' (attempt '' @ decimal (SE_stopAttempts e) @ '')''
      else if SE_reason e = [] then [] else '' ('' @ SE_reason e @ '')'')"

lemma stage_text_facts:
  "CHR '' '' \<notin> set (stage_text s)" "stage_text s = stage_text s' \<longleftrightarrow> s = s'"
proof -
  have "list_all (\<lambda>s. CHR '' '' \<notin> set (stage_text s)) failureStages" "distinct (map stage_text failureStages)" by code_simp+
  moreover have "s \<in> set failureStages" "s' \<in> set failureStages" by (cases s; simp add: failureStages_def)(cases s'; simp add: failureStages_def)
  ultimately show "CHR '' '' \<notin> set (stage_text s)" "stage_text s = stage_text s' \<longleftrightarrow> s = s'"
    by (auto simp: list_all_iff distinct_map inj_on_def)
qed

lemma reasons_no_space: "r \<in> set (RunnerFailureReasons @ BootstrapFailureReasons) \<Longrightarrow> CHR '' '' \<notin> set r"
proof -
  have "list_all (\<lambda>r. CHR '' '' \<notin> set r) (RunnerFailureReasons @ BootstrapFailureReasons)" by code_simp
  then show "r \<in> set (RunnerFailureReasons @ BootstrapFailureReasons) \<Longrightarrow> CHR '' '' \<notin> set r" by (simp add: list_all_iff)
qed

lemma ladder_attempts_set: "n \<in> set ladder_attempts \<longleftrightarrow> 1 \<le> n \<and> n \<le> 9"
  by (simp add: ladder_attempts_def GracefulStopAttempts_def ForcedStopAttempts_def DestructiveStopAttempts_def)

lemma SE_Error_authored:
  assumes "authored e"
  shows "SE_Error e = ''runner lifecycle failed at '' @ stage_text (SE_stage e) @ stage_suffix e"
  using assms by (auto simp: authored_def SE_Error_def stage_suffix_def ladder_attempts_set stage_text_def split: if_splits)

lemma append_word_eq:
  assumes "CHR '' '' \<notin> set a" "CHR '' '' \<notin> set b" and "x = [] \<or> hd x = CHR '' ''" "y = [] \<or> hd y = CHR '' ''" and "a @ x = b @ y"
  shows "a = b \<and> x = y"
proof -
  have cut: "takeWhile (\<lambda>c. c \<noteq> CHR '' '') (a @ x) = a" if "CHR '' '' \<notin> set a" "x = [] \<or> hd x = CHR '' ''" for a x
    using that by (cases x) (auto simp: takeWhile_append)
  from cut [OF assms(1,3)] cut [OF assms(2,4)] assms(5) show ?thesis by (metis append_same_eq same_append_eq)
qed

lemma stage_suffix_eq:
  assumes "authored e" "authored e'" and eq: "stage_suffix e = stage_suffix e'"
  shows "SE_stopAttempts e = SE_stopAttempts e' \<and> SE_reason e = SE_reason e'"
proof -
  have spaced: False if "authored d" "authored d'" "SE_stopAttempts d \<noteq> 0" "SE_stopAttempts d' = 0" "stage_suffix d = stage_suffix d'" for d d'
  proof -
    have "SE_reason d' = ''attempt '' @ decimal (SE_stopAttempts d)" using that by (auto simp: stage_suffix_def split: if_splits)
    then have "CHR '' '' \<in> set (SE_reason d')" "SE_reason d' \<noteq> []" by simp_all
    moreover have "SE_reason d' \<in> set (RunnerFailureReasons @ BootstrapFailureReasons)" using that(2,4) \<open>SE_reason d' \<noteq> []\<close> by (simp add: authored_def)
    ultimately show False using reasons_no_space by blast
  qed
  show ?thesis
  proof (cases "SE_stopAttempts e = 0 \<longleftrightarrow> SE_stopAttempts e' = 0")
    case True
    with assms show ?thesis by (auto simp: stage_suffix_def authored_def decimal_eq_iff split: if_splits)
  next
    case False
    with spaced [OF assms(1,2)] spaced [OF assms(2,1)] eq show ?thesis by metis
  qed
qed

lemma SE_Error_inj:
  assumes "authored e" "authored e'" and "SE_Error e = SE_Error e'"
  shows "SE_stage e = SE_stage e' \<and> SE_stopAttempts e = SE_stopAttempts e' \<and> SE_reason e = SE_reason e'"
proof -
  have "stage_text (SE_stage e) @ stage_suffix e = stage_text (SE_stage e') @ stage_suffix e'"
    using assms by (simp add: SE_Error_authored)
  moreover have "stage_suffix d = [] \<or> hd (stage_suffix d) = CHR '' ''" for d by (simp add: stage_suffix_def)
  ultimately have "stage_text (SE_stage e) = stage_text (SE_stage e') \<and> stage_suffix e = stage_suffix e'"
    using append_word_eq stage_text_facts(1) by metis
  with stage_suffix_eq [OF assms(1,2)] show ?thesis by (simp add: stage_text_facts(2))
qed

lemma code_of_stop: "code_of (stopError n) = stage_text StageStop" "code_of (safeError s) = stage_text s"
  by (simp_all add: code_of_def stopError_def safeError_def)

lemma authored_in_codes:
  assumes "authored e"
  shows "(SE_Error e, code_of e) \<in> set failure_codes"
proof -
  have st: "SE_stage e \<in> set failureStages" by (cases "SE_stage e") (simp_all add: failureStages_def)
  show ?thesis
  proof (cases "SE_stopAttempts e = 0")
    case True
    then have "SE_Error e = SE_Error ((safeError (SE_stage e))\<lparr>SE_reason := SE_reason e\<rparr>)" by (simp add: SE_Error_def safeError_def)
    with True assms have "(SE_Error e, code_of e) \<in> set (stage_codes (SE_stage e))"
      by (auto simp: stage_codes_def authored_def code_of_def safeError_def)
    with st show ?thesis by (auto simp: failure_codes_def)
  next
    case False
    with assms have "SE_Error e = SE_Error (stopError (SE_stopAttempts e))" "code_of e = stage_text StageStop" "SE_stopAttempts e \<in> set ladder_attempts"
      by (auto simp: SE_Error_def stopError_def safeError_def authored_def code_of_def)
    then show ?thesis by (auto simp: failure_codes_def)
  qed
qed

lemma stage_codes_cases:
  assumes "(t, c) \<in> set (stage_codes st)"
  obtains r where "r \<in> set ([] # RunnerFailureReasons @ BootstrapFailureReasons)" "t = SE_Error ((safeError st)\<lparr>SE_reason := r\<rparr>)"
    "c = stage_text st @ (if r = [] then [] else '':'' @ r)"
proof (cases "(t, c) = (SE_Error (safeError st), stage_text st)")
  case True
  moreover have "(safeError st)\<lparr>SE_reason := []\<rparr> = safeError st" by (simp add: safeError_def)
  ultimately show ?thesis using that [of "[]"] by simp
next
  case False
  with assms obtain r where r: "r \<in> set (RunnerFailureReasons @ BootstrapFailureReasons)"
    "t = SE_Error ((safeError st)\<lparr>SE_reason := r\<rparr>)" "c = stage_text st @ '':'' @ r"
    unfolding stage_codes_def by auto
  moreover have "[] \<notin> set (RunnerFailureReasons @ BootstrapFailureReasons)" by code_simp
  ultimately have "r \<noteq> []" by metis
  with r show ?thesis using that [of r] by simp
qed

lemma codes_authored:
  assumes "(t, c) \<in> set failure_codes"
  shows "\<exists>e. authored e \<and> t = SE_Error e \<and> c = code_of e"
proof -
  consider n where "n \<in> set ladder_attempts" "t = SE_Error (stopError n)" "c = stage_text StageStop"
    | st where "(t, c) \<in> set (stage_codes st)"
    using assms unfolding failure_codes_def by auto
  then show ?thesis
  proof cases
    case 1
    then have "authored (stopError n)" by (auto simp: authored_def stopError_def safeError_def ladder_attempts_set)
    with 1 show ?thesis by (metis code_of_stop(1))
  next
    case 2
    from stage_codes_cases [OF this] obtain r where r: "r \<in> set ([] # RunnerFailureReasons @ BootstrapFailureReasons)"
      "t = SE_Error ((safeError st)\<lparr>SE_reason := r\<rparr>)" "c = stage_text st @ (if r = [] then [] else '':'' @ r)" by blast
    then have "authored ((safeError st)\<lparr>SE_reason := r\<rparr>)" by (simp add: authored_def safeError_def)
    with r show ?thesis by (intro exI [of _ "(safeError st)\<lparr>SE_reason := r\<rparr>"]) (auto simp: code_of_def safeError_def)
  qed
qed

lemma FailureCode_authored:
  assumes "authored e"
  shows "FailureCode (SE_Error e) = code_of e"
proof -
  from weak_map_of_SomeI [OF authored_in_codes [OF assms]] obtain c where c: "map_of failure_codes (SE_Error e) = Some c" by blast
  from codes_authored [OF map_of_SomeD [OF c]] obtain e' where "authored e'" "SE_Error e = SE_Error e'" "c = code_of e'" by blast
  with SE_Error_inj [OF assms, of e'] c show ?thesis by (simp add: FailureCode_def code_of_def)
qed

lemma stopError_authored: "1 \<le> n \<Longrightarrow> n \<le> 9 \<Longrightarrow> authored (stopError n)"
  by (auto simp: authored_def stopError_def safeError_def ladder_attempts_set)

lemma StopAttempts_stopError:
  assumes "DO_LastError q = SE_Error (stopError n)" and n: "1 \<le> n" "n \<le> 9"
  shows "StopAttempts q = n"
proof -
  have inj: "SE_Error (stopError n) = SE_Error (stopError m) \<longleftrightarrow> n = m" if "m \<in> set ladder_attempts" for m
    using SE_Error_inj [OF stopError_authored [OF n], of "stopError m"] stopError_authored [of m] that
    by (auto simp: ladder_attempts_set stopError_def)
  let ?find = "find (\<lambda>m. DO_LastError q = SE_Error (stopError m)) ladder_attempts"
  have "?find \<noteq> None" using assms by (auto simp: find_None_iff ladder_attempts_set)
  then obtain m where m: "?find = Some m" by blast
  then have "m \<in> set ladder_attempts" "DO_LastError q = SE_Error (stopError m)" by (auto simp: find_Some_iff)
  with inj assms(1) have "m = n" by metis
  with m show ?thesis by (simp add: StopAttempts_def)
qed

text \<open>
  C21. A persisted failure is read back as what was written. Every failure an executor authors, a bare stage, a stage with a
  reason of the closed vocabularies or a numbered stop, maps to its own code and, if it is a stop, to
  its number; and a code that is read was written or is the withheld one.
\<close>

theorem failure_text_roundtrip:
  "(authored e \<longrightarrow> FailureCode (SE_Error e) = code_of e
     \<and> (DO_LastError q = SE_Error e \<longrightarrow> SE_stopAttempts e \<noteq> 0 \<longrightarrow> StopAttempts q = SE_stopAttempts e))
   \<and> (FailureCode text = CodeUnclassified \<or> (\<exists>e. authored e \<and> text = SE_Error e \<and> FailureCode text = code_of e))"
proof (intro conjI impI)
  assume e: "authored e"
  then show "FailureCode (SE_Error e) = code_of e" by (rule FailureCode_authored)
  assume q: "DO_LastError q = SE_Error e" "SE_stopAttempts e \<noteq> 0"
  with e have "SE_Error e = SE_Error (stopError (SE_stopAttempts e))" "1 \<le> SE_stopAttempts e" "SE_stopAttempts e \<le> 9"
    by (auto simp: authored_def SE_Error_def stopError_def safeError_def ladder_attempts_set)
  with q show "StopAttempts q = SE_stopAttempts e" by (intro StopAttempts_stopError) simp_all
next
  show "FailureCode text = CodeUnclassified \<or> (\<exists>e. authored e \<and> text = SE_Error e \<and> FailureCode text = code_of e)"
    using codes_authored by (cases "map_of failure_codes text") (auto simp: FailureCode_def dest: map_of_SomeD)
qed

theorem failure_text_roundtrip_witness:
  "FailureCode (SE_Error (classifiedError StageDeregister (Some [JobStillRunning]))) = ''deregister:runner_busy''
   \<and> StopAttempts (zero_DurableOperation\<lparr>DO_LastError := SE_Error (stopError 7)\<rparr>) = 7"
proof -
  let ?e = "classifiedError StageDeregister (Some [JobStillRunning])" and ?q = "zero_DurableOperation\<lparr>DO_LastError := SE_Error (stopError 7)\<rparr>"
  have "authored ?e" "code_of ?e = ''deregister:runner_busy''" "authored (stopError 7)" "SE_stopAttempts (stopError 7) = 7" by code_simp+
  with failure_text_roundtrip [of ?e ?q] failure_text_roundtrip [of "stopError 7" ?q] show ?thesis by simp
qed

end
