(* ===== verification/Durable_Store.thy ===== *)
theory Durable_Store
  imports Failure_Codes Recovery
begin

text \<open>
  The durable store of the fleet (\<open>internal/adapters/sqlite/store.go\<close>, \<open>discharge.go\<close> and
  \<open>cleanup_recovery.go\<close>): its tables as lists of rows, and one function per method from a store to the store
  after the transaction, or to the error that rolled it back.
\<close>

section \<open>Instants in the tables\<close>

text \<open>
  The tables hold instants as 64-bit counts of nanoseconds since January 1 of 1970; the zero count is
  read back as Go's zero instant.
\<close>

definition unix_epoch :: time where
  "unix_epoch = 62135596800 * second"

definition unix_nanos :: "time \<Rightarrow> int" where
  "unix_nanos t = wrap64 (t - unix_epoch)"

definition fromNanos :: "int \<Rightarrow> time" where
  "fromNanos v = (if v = 0 then 0 else v + unix_epoch)"

section \<open>Tables\<close>

record schedulingMetadata =
  SM_SchemaVersion :: int
  SM_Repo :: string
  SM_Platform :: Platform
  SM_Profile :: ProfileID
  SM_Route :: Route
  SM_Resources :: Resources
  SM_Demand :: DemandKey
  SM_Image :: string

record inst_row =
  IR_id :: string
  IR_state :: InstanceState
  IR_version :: int
  IR_drain_phase :: int
  IR_ownership :: Ownership
  IR_metadata :: schedulingMetadata
  IR_last_error :: string
  IR_created_at :: int
  IR_updated_at :: int

record op_row =
  OR_id :: string
  OR_idempotency_key :: string
  OR_effect_key :: string
  OR_kind :: string
  OR_resource_id :: string
  OR_payload :: string
  OR_status :: OperationStatus
  OR_attempts :: int
  OR_available_at :: int
  OR_lease_owner :: string
  OR_lease_until :: int
  OR_last_error :: string
  OR_created_at :: int
  OR_updated_at :: int

record history_row =
  HR_instance_id :: string
  HR_from_state :: InstanceState
  HR_to_state :: InstanceState
  HR_version :: int
  HR_operation_id :: "string option"
  HR_created_at :: int

record sched_row =
  SR_version :: int
  SR_data :: string
  SR_reservations :: string
  SR_drr_state :: string
  SR_cursor :: string
  SR_updated_at :: int

record lease_row =
  LR_name :: string
  LR_owner :: string
  LR_token :: int
  LR_expires_at :: int

record store =
  ST_instances :: "inst_row list"
  ST_operations :: "op_row list"
  ST_dependencies :: "(string \<times> string) list"
  ST_effects :: "(string \<times> string \<times> int) list"
  ST_history :: "history_row list"
  ST_plans :: "(string \<times> nat list) list"
  ST_scheduler :: "sched_row option"
  ST_leases :: "lease_row list"
  ST_ownership :: "(string \<times> Ownership) list"

text \<open>\<open>UPDATE \<dots> SET f WHERE c\<close> and the number of rows it reports.\<close>

definition sql_update :: "('r \<Rightarrow> bool) \<Rightarrow> ('r \<Rightarrow> 'r) \<Rightarrow> 'r list \<Rightarrow> 'r list" where
  "sql_update c f rows = map (\<lambda>r. if c r then f r else r) rows"

definition sql_count :: "('r \<Rightarrow> bool) \<Rightarrow> 'r list \<Rightarrow> int" where
  "sql_count c rows = int (length (filter c rows))"

abbreviation ST_op :: "store \<Rightarrow> string \<Rightarrow> op_row option" where
  "ST_op s k \<equiv> find (\<lambda>r. OR_id r = k) (ST_operations s)"

abbreviation ST_inst :: "store \<Rightarrow> string \<Rightarrow> inst_row option" where
  "ST_inst s k \<equiv> find (\<lambda>r. IR_id r = k) (ST_instances s)"

section \<open>Scheduling metadata\<close>

definition metadata_of :: "DurableInstance \<Rightarrow> schedulingMetadata" where
  "metadata_of i = \<lparr>SM_SchemaVersion = (if DI_Repo i \<noteq> [] then 1 else 0), SM_Repo = DI_Repo i, SM_Platform = DI_Platform i,
     SM_Profile = DI_Profile i, SM_Route = DI_Route i, SM_Resources = DI_Resources i, SM_Demand = DI_Demand i, SM_Image = DI_Image i\<rparr>"

definition encodeSchedulingMetadata :: "DurableInstance \<Rightarrow> schedulingMetadata outcome" where
  "encodeSchedulingMetadata i = (if \<not> SchedulingMetadataValid i then Inl ErrInvalid else Inr (metadata_of i))"

definition decodeSchedulingMetadata :: "schedulingMetadata \<Rightarrow> DurableInstance \<Rightarrow> DurableInstance outcome" where
  "decodeSchedulingMetadata m i =
     (if SM_SchemaVersion m \<noteq> 0 \<and> SM_SchemaVersion m \<noteq> 1 then Inl ErrInvalid
      else
        (let i' = i\<lparr>DI_Repo := SM_Repo m, DI_Platform := SM_Platform m, DI_Profile := SM_Profile m, DI_Route := SM_Route m,
                    DI_Resources := SM_Resources m, DI_Demand := SM_Demand m, DI_Image := SM_Image m\<rparr>
         in if \<not> SchedulingMetadataValid i' then Inl ErrInvalid else Inr i'))"

definition scanInstance :: "inst_row option \<Rightarrow> DurableInstance outcome" where
  "scanInstance row =
     (case row of
        None \<Rightarrow> Inl ErrNotFound
      | Some r \<Rightarrow>
          (case decodeSchedulingMetadata (IR_metadata r)
                  (zero_DurableInstance\<lparr>DI_ID := IR_id r, DI_Version := IR_version r, DI_DrainPhase := IR_drain_phase r,
                     DI_LastError := IR_last_error r, DI_Ownership := IR_ownership r\<rparr>) of
             Inl e \<Rightarrow> Inl e
           | Inr i \<Rightarrow> Inr (i\<lparr>DI_State := IR_state r, DI_CreatedAt := fromNanos (IR_created_at r), DI_UpdatedAt := fromNanos (IR_updated_at r)\<rparr>)))"

definition scanOperation :: "op_row option \<Rightarrow> DurableOperation outcome" where
  "scanOperation row =
     (case row of
        None \<Rightarrow> Inl ErrNotFound
      | Some r \<Rightarrow> Inr \<lparr>DO_ID = OR_id r, DO_IdempotencyKey = OR_idempotency_key r, DO_EffectKey = OR_effect_key r, DO_Kind = OR_kind r,
          DO_ResourceID = OR_resource_id r, DO_Payload = OR_payload r, DO_Status = OR_status r, DO_Attempts = OR_attempts r,
          DO_AvailableAt = fromNanos (OR_available_at r), DO_LeaseOwner = OR_lease_owner r, DO_LeaseUntil = fromNanos (OR_lease_until r),
          DO_LastError = OR_last_error r, DO_CreatedAt = fromNanos (OR_created_at r), DO_UpdatedAt = fromNanos (OR_updated_at r),
          DO_DependsOn = []\<rparr>)"

section \<open>Scheduler state\<close>

definition SchedulerState :: "store \<Rightarrow> DurableScheduler outcome" where
  "SchedulerState s =
     (case ST_scheduler s of
        None \<Rightarrow> Inl ErrSchedulerStateMissing
      | Some r \<Rightarrow> Inr \<lparr>DS_Version = SR_version r, DS_Data = SR_data r, DS_Reservations = SR_reservations r,
          DS_DeficitRoundRobin = SR_drr_state r, DS_ObservationCursor = SR_cursor r\<rparr>)"

definition seed_scheduler :: sched_row where
  "seed_scheduler = \<lparr>SR_version = 0, SR_data = ''{}'', SR_reservations = ''[]'', SR_drr_state = ''{}'', SR_cursor = [], SR_updated_at = 0\<rparr>"

definition ReseedSchedulerState :: "store \<Rightarrow> store" where
  "ReseedSchedulerState s = (case ST_scheduler s of None \<Rightarrow> s\<lparr>ST_scheduler := Some seed_scheduler\<rparr> | Some _ \<Rightarrow> s)"

definition jsonOrDefault :: "string \<Rightarrow> string \<Rightarrow> string" where
  "jsonOrDefault value fallback = (if value = [] then fallback else value)"

section \<open>Applying a plan\<close>

definition inst_row_of :: "DurableInstance \<Rightarrow> int \<Rightarrow> inst_row" where
  "inst_row_of i stamp = \<lparr>IR_id = DI_ID i, IR_state = DI_State i, IR_version = DI_Version i, IR_drain_phase = DI_DrainPhase i,
     IR_ownership = DI_Ownership i, IR_metadata = metadata_of i, IR_last_error = DI_LastError i, IR_created_at = stamp, IR_updated_at = stamp\<rparr>"

definition intent_matches :: "InstanceIntent \<Rightarrow> inst_row \<Rightarrow> bool" where
  "intent_matches t r \<longleftrightarrow> IR_id r = DI_ID (II_Instance t) \<and> IR_version r = II_ExpectedVersion t \<and> IR_state r = II_ExpectedState t
     \<and> IR_metadata r = metadata_of (II_Instance t)"

definition apply_intent :: "int \<Rightarrow> InstanceIntent \<Rightarrow> store \<Rightarrow> store outcome" where
  "apply_intent stamp t s =
     (let i = II_Instance t in
      if II_ExpectedVersion t < 0
      then (if ST_inst s (DI_ID i) \<noteq> None then Inl ErrInvalid
            else Inr (s\<lparr>ST_instances := ST_instances s @ [inst_row_of i stamp]\<rparr>))
      else if sql_count (intent_matches t) (ST_instances s) \<noteq> 1 then Inl ErrConflict
      else Inr (s\<lparr>ST_instances := sql_update (intent_matches t)
             (\<lambda>r. r\<lparr>IR_state := DI_State i, IR_version := DI_Version i, IR_drain_phase := DI_DrainPhase i, IR_ownership := DI_Ownership i,
                    IR_last_error := DI_LastError i, IR_updated_at := stamp\<rparr>) (ST_instances s)\<rparr>))"

fun apply_all :: "('x \<Rightarrow> store \<Rightarrow> store outcome) \<Rightarrow> 'x list \<Rightarrow> store \<Rightarrow> store outcome" where
  "apply_all f [] s = Inr s"
| "apply_all f (x # xs) s = (case f x s of Inl e \<Rightarrow> Inl e | Inr s' \<Rightarrow> apply_all f xs s')"

definition op_row_of :: "DurableOperation \<Rightarrow> int \<Rightarrow> op_row" where
  "op_row_of q stamp = \<lparr>OR_id = DO_ID q, OR_idempotency_key = DO_IdempotencyKey q, OR_effect_key = DO_EffectKey q, OR_kind = DO_Kind q,
     OR_resource_id = DO_ResourceID q, OR_payload = jsonOrDefault (DO_Payload q) ''{}'', OR_status = OperationPending,
     OR_attempts = DO_Attempts q, OR_available_at = unix_nanos (DO_AvailableAt q), OR_lease_owner = [], OR_lease_until = 0,
     OR_last_error = DO_LastError q, OR_created_at = stamp, OR_updated_at = stamp\<rparr>"

definition insertOperation :: "int \<Rightarrow> DurableOperation \<Rightarrow> store \<Rightarrow> store outcome" where
  "insertOperation stamp q s =
     (if list_ex (\<lambda>r. OR_id r = DO_ID q \<or> OR_idempotency_key r = DO_IdempotencyKey q) (ST_operations s) then Inl ErrInvalid
      else Inr (s\<lparr>ST_operations := ST_operations s @ [op_row_of q stamp]\<rparr>))"

definition record_dependency :: "string \<Rightarrow> string \<Rightarrow> store \<Rightarrow> store outcome" where
  "record_dependency operation dependency s =
     (if sql_count (\<lambda>r. OR_id r = dependency) (ST_operations s) \<noteq> 1 then Inl ErrInvalid
      else if (operation, dependency) \<in> set (ST_dependencies s) then Inl ErrInvalid
      else Inr (s\<lparr>ST_dependencies := ST_dependencies s @ [(operation, dependency)]\<rparr>))"

definition ApplyPlan :: "DurablePlan \<Rightarrow> store \<Rightarrow> (bool \<times> store) outcome" where
  "ApplyPlan plan s =
     (if \<not> DP_Valid plan then Inl ErrInvalid
      else (case Digest plan of
        None \<Rightarrow> Inl (ErrStore ''digest plan'')
      | Some digest \<Rightarrow>
          (case map_of (ST_plans s) (DP_ID plan) of
             Some existing \<Rightarrow> if existing \<noteq> digest then Inl ErrConflict else Inr (False, s)
           | None \<Rightarrow>
               (case ST_scheduler s of
                  None \<Rightarrow> Inl (ErrStore ''load scheduler version'')
                | Some current \<Rightarrow>
                    if SR_version current \<noteq> DP_ExpectedSchedulerVersion plan then Inl ErrConflict
                    else
                      (let stamp = unix_nanos (DP_CreatedAt plan) in
                       case apply_all (apply_intent stamp) (DP_Instances plan) s of
                         Inl e \<Rightarrow> Inl e
                       | Inr s1 \<Rightarrow>
                         (case apply_all (insertOperation stamp) (DP_Operations plan) s1 of
                            Inl e \<Rightarrow> Inl e
                          | Inr s2 \<Rightarrow>
                            (case apply_all (\<lambda>(operation, dependency). record_dependency operation dependency)
                                    (concat (map (\<lambda>q. map (Pair (DO_ID q)) (DO_DependsOn q)) (DP_Operations plan))) s2 of
                               Inl e \<Rightarrow> Inl e
                             | Inr s3 \<Rightarrow>
                               Inr (True, s3\<lparr>ST_scheduler := Some \<lparr>SR_version = DS_Version (DP_Scheduler plan),
                                      SR_data = jsonOrDefault (DS_Data (DP_Scheduler plan)) ''{}'',
                                      SR_reservations = jsonOrDefault (DS_Reservations (DP_Scheduler plan)) ''[]'',
                                      SR_drr_state = jsonOrDefault (DS_DeficitRoundRobin (DP_Scheduler plan)) ''{}'',
                                      SR_cursor = DS_ObservationCursor (DP_Scheduler plan), SR_updated_at = stamp\<rparr>,
                                    ST_plans := ST_plans s3 @ [(DP_ID plan, digest)]\<rparr>))))))))"

section \<open>Instances\<close>

definition CreateInstance :: "time \<Rightarrow> DurableInstance \<Rightarrow> store \<Rightarrow> store outcome" where
  "CreateInstance clock i s =
     (if DI_ID i = [] \<or> \<not> ValidState (DI_State i) \<or> \<not> Own_Valid (DI_Ownership i) \<or> \<not> SchedulingMetadataValid i then Inl ErrInvalid
      else if ST_inst s (DI_ID i) \<noteq> None then Inl (ErrStore ''create instance'')
      else
        (let now = (if time_IsZero (DI_CreatedAt i) then clock else DI_CreatedAt i)
         in Inr (s\<lparr>ST_instances := ST_instances s @ [inst_row_of i (unix_nanos now)]\<rparr>)))"

definition store_Instance :: "string \<Rightarrow> store \<Rightarrow> DurableInstance outcome" where
  "store_Instance k s = scanInstance (ST_inst s k)"

definition spent_incarnation :: "DemandKey \<Rightarrow> inst_row \<Rightarrow> bool" where
  "spent_incarnation demand r \<longleftrightarrow> Own_ResourceID (IR_ownership r) = Key_String demand
     \<and> (IR_state r = InstanceDeleted \<or> IR_state r = InstanceFailed
        \<or> (Key_JobID (SM_Demand (IR_metadata r)) > 0
           \<and> (Key_JobID (SM_Demand (IR_metadata r)) \<noteq> Key_JobID demand \<or> Key_RunID (SM_Demand (IR_metadata r)) \<noteq> Key_RunID demand)))"

definition SpawnGeneration :: "DemandKey \<Rightarrow> store \<Rightarrow> int" where
  "SpawnGeneration demand s = sql_count (spent_incarnation demand) (ST_instances s)"

definition OperationProvisionKind :: string where "OperationProvisionKind = ''clone''"
definition OperationDrainKind :: string where "OperationDrainKind = ''deregister''"

definition DrainGeneration :: "string \<Rightarrow> store \<Rightarrow> int" where
  "DrainGeneration instanceID s = sql_count (\<lambda>r. OR_kind r = OperationDrainKind \<and> OR_resource_id r = instanceID
     \<and> OR_status r \<in> {OperationCompleted, OperationDead, OperationDischarged}) (ST_operations s)"

definition inst_row_less :: "inst_row \<Rightarrow> inst_row \<Rightarrow> bool" where
  "inst_row_less a b \<longleftrightarrow> IR_id a < IR_id b"

fun scan_rows :: "inst_row list \<Rightarrow> DurableInstance list outcome" where
  "scan_rows [] = Inr []"
| "scan_rows (r # rs) =
     (case scanInstance (Some r) of
        Inl e \<Rightarrow> Inl e
      | Inr i \<Rightarrow> (case scan_rows rs of Inl e \<Rightarrow> Inl e | Inr is \<Rightarrow> Inr (i # is)))"

definition LiveInstances :: "store \<Rightarrow> DurableInstance list outcome" where
  "LiveInstances s = scan_rows (sort_slice inst_row_less (filter (\<lambda>r. IR_state r \<noteq> InstanceDeleted) (ST_instances s)))"

record StateChange =
  SC_InstanceID :: string
  SC_ExpectedState :: InstanceState
  SC_ExpectedVersion :: int
  SC_NextState :: InstanceState
  SC_FailureCode :: string
  SC_Settles :: DurableOperation
  SC_Outcome :: string

definition change_matches :: "string \<Rightarrow> InstanceState \<Rightarrow> int \<Rightarrow> inst_row \<Rightarrow> bool" where
  "change_matches k st v r \<longleftrightarrow> IR_id r = k \<and> IR_state r = st \<and> IR_version r = v"

definition settle_matches :: "StateChange \<Rightarrow> op_row \<Rightarrow> bool" where
  "settle_matches c r \<longleftrightarrow> OR_id r = DO_ID (SC_Settles c) \<and> OR_resource_id r = SC_InstanceID c \<and> OR_status r = OperationClaimed
     \<and> OR_lease_owner r = DO_LeaseOwner (SC_Settles c)"

definition Advance :: "time \<Rightarrow> StateChange \<Rightarrow> store \<Rightarrow> (DurableInstance \<times> store) outcome" where
  "Advance clock c s =
     (let settles = DO_ID (SC_Settles c) \<noteq> [];
          matches = change_matches (SC_InstanceID c) (SC_ExpectedState c) (SC_ExpectedVersion c);
          stamp = unix_nanos clock
      in
      if SC_InstanceID c = [] \<or> \<not> ValidState (SC_ExpectedState c) \<or> \<not> ValidState (SC_NextState c)
         \<or> \<not> CanTransitionTo (SC_ExpectedState c) (SC_NextState c) \<or> length (SC_FailureCode c) > 64
         \<or> (SC_NextState c = InstanceFailed) \<noteq> (SC_FailureCode c \<noteq> [])
         \<or> settles \<noteq> (SC_Outcome c \<noteq> []) \<or> length (SC_Outcome c) > 64 then Inl ErrInvalid
      else if sql_count matches (ST_instances s) \<noteq> 1 then Inl ErrConflict
      else
        (let s1 = s\<lparr>ST_instances := sql_update matches (\<lambda>r. r\<lparr>IR_state := SC_NextState c, IR_version := IR_version r + 1,
                       IR_last_error := SC_FailureCode c, IR_updated_at := stamp\<rparr>) (ST_instances s),
                    ST_history := ST_history s @ [\<lparr>HR_instance_id = SC_InstanceID c, HR_from_state = SC_ExpectedState c,
                       HR_to_state = SC_NextState c, HR_version = SC_ExpectedVersion c + 1, HR_operation_id = None, HR_created_at = stamp\<rparr>]\<rparr>
         in if settles \<and> sql_count (settle_matches c) (ST_operations s) \<noteq> 1 then Inl ErrLeaseLost
            else
              (let s2 = (if settles
                         then s1\<lparr>ST_operations := sql_update (settle_matches c) (\<lambda>r. r\<lparr>OR_status := OperationCompleted, OR_lease_owner := [],
                                  OR_lease_until := 0, OR_last_error := SC_Outcome c, OR_updated_at := stamp\<rparr>) (ST_operations s1)\<rparr>
                         else s1)
               in case store_Instance (SC_InstanceID c) s2 of Inl e \<Rightarrow> Inl e | Inr i \<Rightarrow> Inr (i, s2))))"

section \<open>The demand an instance is bound to\<close>

text \<open>
  The compare-and-set both repairs of a binding write: state, version and the metadata read before have to match. The
  version stays as it is.
\<close>

definition binding_matches :: "DurableInstance \<Rightarrow> inst_row \<Rightarrow> bool" where
  "binding_matches i r \<longleftrightarrow> IR_id r = DI_ID i \<and> IR_state r = DI_State i \<and> IR_version r = DI_Version i \<and> IR_metadata r = metadata_of i"

definition update_binding :: "int \<Rightarrow> DurableInstance \<Rightarrow> DurableInstance \<Rightarrow> store \<Rightarrow> store outcome" where
  "update_binding stamp current nxt s =
     (if sql_count (binding_matches current) (ST_instances s) \<noteq> 1 then Inl ErrConflict
      else Inr (s\<lparr>ST_instances := sql_update (binding_matches current) (\<lambda>r. r\<lparr>IR_metadata := metadata_of nxt, IR_updated_at := stamp\<rparr>)
             (ST_instances s)\<rparr>))"

section \<open>Transitions that enqueue an operation\<close>

definition store_Transition :: "time \<Rightarrow> Transition \<Rightarrow> store \<Rightarrow> (DurableInstance \<times> DurableOperation \<times> store) outcome" where
  "store_Transition clock t s =
     (let q = Tr_Operation t in
      if Tr_InstanceID t = [] \<or> \<not> ValidState (Tr_ExpectedState t) \<or> \<not> ValidState (Tr_NextState t)
         \<or> \<not> CanTransitionTo (Tr_ExpectedState t) (Tr_NextState t) \<or> \<not> DO_Valid q then Inl ErrInvalid
      else (case find (\<lambda>r. OR_idempotency_key r = DO_IdempotencyKey q) (ST_operations s) of
        Some row \<Rightarrow>
          (case (store_Instance (Tr_InstanceID t) s, scanOperation (Some row)) of
             (Inr i, Inr existing) \<Rightarrow>
               if DI_State i \<noteq> Tr_NextState t \<or> DI_Version i < Tr_ExpectedVersion t + 1 then Inl ErrConflict else Inr (i, existing, s)
           | (Inl e, _) \<Rightarrow> Inl e
           | (_, Inl e) \<Rightarrow> Inl e)
      | None \<Rightarrow>
          (let now = (if time_IsZero (DO_CreatedAt q) then clock else DO_CreatedAt q);
               stamp = unix_nanos now;
               matches = change_matches (Tr_InstanceID t) (Tr_ExpectedState t) (Tr_ExpectedVersion t);
               q' = q\<lparr>DO_Status := OperationPending, DO_CreatedAt := now, DO_UpdatedAt := now\<rparr>
           in if sql_count matches (ST_instances s) \<noteq> 1 then Inl ErrConflict
              else
                (let s1 = s\<lparr>ST_instances := sql_update matches (\<lambda>r. r\<lparr>IR_state := Tr_NextState t, IR_version := IR_version r + 1,
                              IR_drain_phase := Tr_DrainPhase t, IR_last_error := Tr_LastError t, IR_updated_at := stamp\<rparr>) (ST_instances s)\<rparr>
                 in if ST_op s1 (DO_ID q) \<noteq> None then Inl (ErrStore ''enqueue operation'')
                    else
                      (let s2 = s1\<lparr>ST_operations := ST_operations s1 @ [(op_row_of q' stamp)\<lparr>OR_last_error := []\<rparr>]\<rparr>
                       in case apply_all (record_dependency (DO_ID q)) (DO_DependsOn q) s2 of
                            Inl e \<Rightarrow> Inl e
                          | Inr s3 \<Rightarrow>
                              (let s4 = s3\<lparr>ST_history := ST_history s3 @ [\<lparr>HR_instance_id = Tr_InstanceID t, HR_from_state = Tr_ExpectedState t,
                                           HR_to_state = Tr_NextState t, HR_version = Tr_ExpectedVersion t + 1, HR_operation_id = Some (DO_ID q),
                                           HR_created_at = stamp\<rparr>]\<rparr>
                               in case store_Instance (Tr_InstanceID t) s4 of Inl e \<Rightarrow> Inl e | Inr i \<Rightarrow> Inr (i, q', s4)))))))"

section \<open>The outbox\<close>

text \<open>
  The recursive query: an operation is doomed when a chain of dependencies leads from it to a dead one.
\<close>

definition doomed :: "store \<Rightarrow> string \<Rightarrow> bool" where
  "doomed s k \<longleftrightarrow> list_ex (\<lambda>r. OR_status r = OperationDead \<and> (k, OR_id r) \<in> (set (ST_dependencies s))\<^sup>+) (ST_operations s)"

definition propagate_dead :: "int \<Rightarrow> store \<Rightarrow> store" where
  "propagate_dead stamp s = s\<lparr>ST_operations := sql_update (\<lambda>r. OR_status r = OperationPending \<and> doomed s (OR_id r))
     (\<lambda>r. r\<lparr>OR_status := OperationDead, OR_last_error := ''dependency dead'', OR_lease_owner := [], OR_lease_until := 0,
            OR_updated_at := stamp\<rparr>) (ST_operations s)\<rparr>"

definition op_row_less :: "op_row \<Rightarrow> op_row \<Rightarrow> bool" where
  "op_row_less a b = (if OR_created_at a \<noteq> OR_created_at b then OR_created_at a < OR_created_at b else OR_id a < OR_id b)"

definition free_for_claim :: "int \<Rightarrow> op_row \<Rightarrow> bool" where
  "free_for_claim stamp r \<longleftrightarrow> OR_status r = OperationPending \<or> (OR_status r = OperationClaimed \<and> OR_lease_until r \<le> stamp)"

definition prerequisites_met :: "store \<Rightarrow> op_row \<Rightarrow> bool" where
  "prerequisites_met s r \<longleftrightarrow> \<not> list_ex (\<lambda>(k, d). k = OR_id r \<and> list_ex (\<lambda>pre. OR_id pre = d \<and> OR_status pre \<noteq> OperationCompleted) (ST_operations s)) (ST_dependencies s)"

definition claimable :: "int \<Rightarrow> store \<Rightarrow> op_row \<Rightarrow> bool" where
  "claimable stamp s r \<longleftrightarrow> OR_available_at r \<le> stamp \<and> free_for_claim stamp r \<and> prerequisites_met s r"

fun claim_loop :: "string \<Rightarrow> int \<Rightarrow> int \<Rightarrow> string list \<Rightarrow> store \<Rightarrow> (DurableOperation list \<times> store) outcome" where
  "claim_loop owner stamp until [] s = Inr ([], s)"
| "claim_loop owner stamp until (k # ks) s =
     (let matches = (\<lambda>r. OR_id r = k \<and> free_for_claim stamp r) in
      if sql_count matches (ST_operations s) \<noteq> 1 then claim_loop owner stamp until ks s
      else
        (let s' = s\<lparr>ST_operations := sql_update matches (\<lambda>r. r\<lparr>OR_status := OperationClaimed, OR_lease_owner := owner, OR_lease_until := until,
                      OR_updated_at := stamp\<rparr>) (ST_operations s)\<rparr>
         in case scanOperation (ST_op s' k) of
              Inl e \<Rightarrow> Inl e
            | Inr q \<Rightarrow> (case claim_loop owner stamp until ks s' of Inl e \<Rightarrow> Inl e | Inr (qs, s'') \<Rightarrow> Inr (q # qs, s''))))"

definition Claim_ops :: "string \<Rightarrow> int \<Rightarrow> time \<Rightarrow> duration \<Rightarrow> store \<Rightarrow> (DurableOperation list \<times> store) outcome" where
  "Claim_ops owner limit now leaseFor s =
     (if owner = [] \<or> limit \<le> 0 \<or> leaseFor \<le> 0 then Inl ErrInvalid
      else
        (let stamp = unix_nanos now;
             s1 = propagate_dead stamp s;
             ids = map OR_id (take (nat limit) (sort_slice op_row_less (filter (claimable stamp s1) (ST_operations s1))))
         in claim_loop owner stamp (unix_nanos (now + leaseFor)) ids s1))"

definition RenewOperation :: "string \<Rightarrow> string \<Rightarrow> time \<Rightarrow> duration \<Rightarrow> store \<Rightarrow> store outcome" where
  "RenewOperation k owner now leaseFor s =
     (if k = [] \<or> owner = [] \<or> leaseFor \<le> 0 then Inl ErrInvalid
      else
        (let matches = (\<lambda>r. OR_id r = k \<and> OR_status r = OperationClaimed \<and> OR_lease_owner r = owner \<and> OR_lease_until r > unix_nanos now)
         in if sql_count matches (ST_operations s) \<noteq> 1 then Inl ErrLeaseLost
            else Inr (s\<lparr>ST_operations := sql_update matches (\<lambda>r. r\<lparr>OR_lease_until := unix_nanos (now + leaseFor), OR_updated_at := unix_nanos now\<rparr>)
                    (ST_operations s)\<rparr>)))"

definition Complete_op :: "string \<Rightarrow> string \<Rightarrow> string \<Rightarrow> time \<Rightarrow> store \<Rightarrow> (bool \<times> store) outcome" where
  "Complete_op k owner effectKey now s =
     (case ST_op s k of
        None \<Rightarrow> Inl ErrNotFound
      | Some r \<Rightarrow>
          if OR_effect_key r \<noteq> effectKey then Inl ErrConflict
          else if OR_status r = OperationCompleted then Inr (False, s)
          else if OR_status r \<noteq> OperationClaimed \<or> OR_lease_owner r \<noteq> owner then Inl ErrLeaseLost
          else
            (let inserted = effectKey \<notin> fst ` set (ST_effects s);
                 s1 = (if inserted then s\<lparr>ST_effects := ST_effects s @ [(effectKey, k, unix_nanos now)]\<rparr> else s)
             in Inr (inserted, s1\<lparr>ST_operations := sql_update (\<lambda>r. OR_id r = k) (\<lambda>r. r\<lparr>OR_status := OperationCompleted, OR_lease_owner := [],
                      OR_lease_until := 0, OR_updated_at := unix_nanos now\<rparr>) (ST_operations s1)\<rparr>)))"

definition Retry_op :: "time \<Rightarrow> string \<Rightarrow> string \<Rightarrow> string \<Rightarrow> time \<Rightarrow> bool \<Rightarrow> store \<Rightarrow> store outcome" where
  "Retry_op clock k owner message availableAt dead s =
     (let matches = (\<lambda>r. OR_id r = k \<and> OR_status r = OperationClaimed \<and> OR_lease_owner r = owner)
      in if sql_count matches (ST_operations s) \<noteq> 1 then Inl ErrLeaseLost
         else Inr (s\<lparr>ST_operations := sql_update matches (\<lambda>r. r\<lparr>OR_status := (if dead then OperationDead else OperationPending),
                 OR_attempts := OR_attempts r + 1, OR_available_at := unix_nanos availableAt, OR_lease_owner := [], OR_lease_until := 0,
                 OR_last_error := message, OR_updated_at := unix_nanos clock\<rparr>) (ST_operations s)\<rparr>))"

definition RecoverExpired :: "time \<Rightarrow> store \<Rightarrow> int \<times> store" where
  "RecoverExpired now s =
     (let matches = (\<lambda>r. OR_status r = OperationClaimed \<and> OR_lease_until r \<le> unix_nanos now)
      in (sql_count matches (ST_operations s),
          s\<lparr>ST_operations := sql_update matches (\<lambda>r. r\<lparr>OR_status := OperationPending, OR_lease_owner := [], OR_lease_until := 0,
              OR_updated_at := unix_nanos now\<rparr>) (ST_operations s)\<rparr>))"

definition OperationCounts :: "store \<Rightarrow> int \<times> int" where
  "OperationCounts s =
     (sql_count (\<lambda>r. OR_attempts r > 0 \<and> OR_status r \<notin> {OperationCompleted, OperationDead, OperationDischarged}) (ST_operations s),
      sql_count (\<lambda>r. OR_status r = OperationDead) (ST_operations s))"

section \<open>The authority lease\<close>

definition AcquireLease :: "string \<Rightarrow> string \<Rightarrow> time \<Rightarrow> duration \<Rightarrow> store \<Rightarrow> (ControllerLease \<times> store) outcome" where
  "AcquireLease name owner now ttl s =
     (if name = [] \<or> owner = [] \<or> ttl \<le> 0 then Inl ErrInvalid
      else
        (let expires = unix_nanos (now + ttl);
             lease = (\<lambda>token. \<lparr>Le_Name = name, Le_Owner = owner, Le_Token = token, Le_ExpiresAt = now + ttl\<rparr>)
         in case find (\<lambda>r. LR_name r = name) (ST_leases s) of
              None \<Rightarrow> Inr (lease 1, s\<lparr>ST_leases := ST_leases s @ [\<lparr>LR_name = name, LR_owner = owner, LR_token = 1, LR_expires_at = expires\<rparr>]\<rparr>)
            | Some r \<Rightarrow>
                if LR_expires_at r \<le> unix_nanos now \<or> LR_owner r = owner
                then Inr (lease (LR_token r + 1), s\<lparr>ST_leases := sql_update (\<lambda>q. LR_name q = name \<and> LR_token q = LR_token r)
                       (\<lambda>q. q\<lparr>LR_owner := owner, LR_token := LR_token r + 1, LR_expires_at := expires\<rparr>) (ST_leases s)\<rparr>)
                else Inl ErrLeaseHeld))"

definition lease_row_matches :: "ControllerLease \<Rightarrow> lease_row \<Rightarrow> bool" where
  "lease_row_matches l r \<longleftrightarrow> LR_name r = Le_Name l \<and> LR_owner r = Le_Owner l \<and> LR_token r = Le_Token l"

definition RenewLease :: "ControllerLease \<Rightarrow> time \<Rightarrow> duration \<Rightarrow> store \<Rightarrow> (ControllerLease \<times> store) outcome" where
  "RenewLease l now ttl s =
     (let matches = (\<lambda>r. lease_row_matches l r \<and> LR_expires_at r > unix_nanos now)
      in if sql_count matches (ST_leases s) \<noteq> 1 then Inl ErrLeaseLost
         else Inr (l\<lparr>Le_ExpiresAt := now + ttl\<rparr>,
                   s\<lparr>ST_leases := sql_update matches (\<lambda>r. r\<lparr>LR_expires_at := unix_nanos (now + ttl)\<rparr>) (ST_leases s)\<rparr>))"

definition ReleaseLease :: "ControllerLease \<Rightarrow> store \<Rightarrow> store outcome" where
  "ReleaseLease l s =
     (if sql_count (lease_row_matches l) (ST_leases s) \<noteq> 1 then Inl ErrLeaseLost
      else Inr (s\<lparr>ST_leases := filter (\<lambda>r. \<not> lease_row_matches l r) (ST_leases s)\<rparr>))"

definition PutOwnership :: "string \<Rightarrow> Ownership \<Rightarrow> store \<Rightarrow> store outcome" where
  "PutOwnership resource ownership s =
     (if resource = [] \<or> \<not> Own_Valid ownership then Inl ErrInvalid
      else (case map_of (ST_ownership s) resource of
              Some current \<Rightarrow> if current \<noteq> ownership then Inl ErrConflict else Inr s
            | None \<Rightarrow> Inr (s\<lparr>ST_ownership := ST_ownership s @ [(resource, ownership)]\<rparr>)))"

definition store_Ownership :: "string \<Rightarrow> store \<Rightarrow> Ownership outcome" where
  "store_Ownership resource s = (case map_of (ST_ownership s) resource of None \<Rightarrow> Inl ErrNotFound | Some w \<Rightarrow> Inr w)"

section \<open>Dead letters\<close>

definition resumptionsOf :: "op_row \<Rightarrow> store \<Rightarrow> int" where
  "resumptionsOf dead s = sql_count (\<lambda>prior. OR_resource_id prior = OR_resource_id dead \<and> OR_effect_key prior = OR_effect_key dead
     \<and> OR_status prior = OperationDischarged) (ST_operations s)"

definition progressing :: "string \<Rightarrow> op_row \<Rightarrow> bool" where
  "progressing resource r \<longleftrightarrow> OR_resource_id r = resource \<and> OR_status r \<in> {OperationPending, OperationClaimed}"

definition op_id_less :: "op_row \<Rightarrow> op_row \<Rightarrow> bool" where
  "op_id_less a b \<longleftrightarrow> OR_id a < OR_id b"

definition DeadLetters :: "store \<Rightarrow> DeadLetter list" where
  "DeadLetters s = map (\<lambda>dead. \<lparr>DL_OperationID = OR_id dead, DL_Kind = OR_kind dead, DL_Code = FailureCode (OR_last_error dead),
       DL_ResourceID = OR_resource_id dead, DL_Attempts = OR_attempts dead,
       DL_ResourceProgressing = list_ex (progressing (OR_resource_id dead)) (ST_operations s),
       DL_Resumptions = resumptionsOf dead s, DL_DeadAt = OR_updated_at dead + unix_epoch\<rparr>)
     (sort_slice op_id_less (filter (\<lambda>r. OR_status r = OperationDead) (ST_operations s)))"

definition reapableStates :: "InstanceState list" where
  "reapableStates = [InstanceDraining, InstanceDeregistering, InstanceStopping, InstanceFailed]"

definition reapInstance :: "DurableInstance \<Rightarrow> int \<Rightarrow> store \<Rightarrow> store outcome" where
  "reapInstance i stamp s =
     (let matches = (\<lambda>r. IR_id r = DI_ID i \<and> IR_version r = DI_Version i \<and> IR_state r \<in> set reapableStates)
      in if sql_count matches (ST_instances s) \<noteq> 1 then Inl ErrInstanceNotReapable
         else Inr (s\<lparr>ST_instances := sql_update matches (\<lambda>r. r\<lparr>IR_state := InstanceDeleted, IR_version := IR_version r + 1, IR_updated_at := stamp\<rparr>)
                       (ST_instances s),
                     ST_history := ST_history s @ [\<lparr>HR_instance_id = DI_ID i, HR_from_state = DI_State i, HR_to_state = InstanceDeleted,
                       HR_version = DI_Version i + 1, HR_operation_id = None, HR_created_at = stamp\<rparr>]\<rparr>))"

definition store_DischargeDeadLetter :: "Discharge \<Rightarrow> store \<Rightarrow> (DischargeOutcome \<times> store) outcome" where
  "store_DischargeDeadLetter d s =
     (if \<not> Di_Valid d then Inl ErrInvalid
      else (case ST_op s (Di_OperationID d) of
        None \<Rightarrow> Inl ErrNotFound
      | Some r \<Rightarrow>
          if OR_resource_id r \<noteq> Di_InstanceID d then Inl ErrResourceMismatch
          else if OR_status r \<notin> {OperationDead, OperationDischarged} then Inl ErrNotDeadLettered
          else if sql_count (progressing (OR_resource_id r)) (ST_operations s) \<noteq> 0 then Inl ErrResourceProgressing
          else
            (let stamp = unix_nanos (Di_At d);
                 dead = OR_status r = OperationDead;
                 s1 = (if dead
                       then s\<lparr>ST_operations := sql_update (\<lambda>q. OR_id q = Di_OperationID d \<and> OR_status q = OperationDead)
                              (\<lambda>q. q\<lparr>OR_status := OperationDischarged, OR_lease_owner := [], OR_lease_until := 0, OR_updated_at := stamp\<rparr>)
                              (ST_operations s)\<rparr>
                       else s)
             in case store_Instance (Di_InstanceID d) s1 of
                  Inl e \<Rightarrow> Inl e
                | Inr i \<Rightarrow>
                    if Di_ReapInstance d \<and> DI_State i \<noteq> InstanceDeleted
                    then (case reapInstance i stamp s1 of
                            Inl e \<Rightarrow> Inl e
                          | Inr s2 \<Rightarrow> Inr (\<lparr>DiO_OperationDischarged = dead, DiO_InstanceReaped = True, DiO_Ownership = DI_Ownership i\<rparr>, s2))
                    else Inr (\<lparr>DiO_OperationDischarged = dead, DiO_InstanceReaped = False, DiO_Ownership = DI_Ownership i\<rparr>, s1))))"

definition recovery_id :: "string \<Rightarrow> string" where
  "recovery_id old = ''op-'' @ hex_EncodeToString (take 12 (sha256 (bytes_of (''cleanup-recovery'' @ [CHR 0x00] @ old))))"

definition resumed_row :: "op_row \<Rightarrow> string \<Rightarrow> int \<Rightarrow> op_row" where
  "resumed_row old resource stamp = old\<lparr>OR_id := recovery_id (OR_id old), OR_idempotency_key := recovery_id (OR_id old), OR_resource_id := resource,
     OR_status := OperationPending, OR_attempts := 0, OR_available_at := stamp, OR_lease_owner := [], OR_lease_until := 0, OR_last_error := [],
     OR_created_at := stamp, OR_updated_at := stamp\<rparr>"

definition ResumeCleanup :: "string \<Rightarrow> string \<Rightarrow> bool \<Rightarrow> time \<Rightarrow> store \<Rightarrow> store outcome" where
  "ResumeCleanup k resource stopped at' s =
     (if k = [] \<or> resource = [] \<or> time_IsZero at' then Inl ErrInvalid
      else (case ST_op s k of
        None \<Rightarrow> Inl ErrNotFound
      | Some old \<Rightarrow>
          if OR_resource_id old \<noteq> resource then Inl ErrResourceMismatch
          else if OR_status old = OperationDischarged then Inr s
          else if OR_status old \<noteq> OperationDead then Inl ErrNotDeadLettered
          else if OR_kind old \<noteq> OperationDrainKind \<or> (FailureCode (OR_last_error old) \<noteq> ''stop'' \<and> FailureCode (OR_last_error old) \<noteq> ''delete'')
          then Inl ErrInvalid
          else (case store_Instance resource s of
            Inl e \<Rightarrow> Inl e
          | Inr i \<Rightarrow>
              if \<not> TearingDown (DI_State i) \<or> \<not> Own_Valid (DI_Ownership i) then Inl ErrInstanceNotReapable
              else if sql_count (progressing resource) (ST_operations s) \<noteq> 0 then Inl ErrResourceProgressing
              else if \<not> CleanupResumptionDue (resumptionsOf old s) (fromNanos (OR_updated_at old)) at' then Inl ErrResumptionNotDue
              else
                (let stamp = unix_nanos at'; nxt = recovery_id k
                 in if list_ex (\<lambda>r. OR_id r = nxt \<or> OR_idempotency_key r = nxt) (ST_operations s) then Inl (ErrStore ''enqueue cleanup recovery'')
                    else
                      (let s1 = s\<lparr>ST_operations := ST_operations s @ [resumed_row old resource stamp]\<rparr>;
                           pending = (\<lambda>op. list_ex (\<lambda>r. OR_id r = op \<and> OR_status r = OperationPending) (ST_operations s1));
                           s2 = s1\<lparr>ST_dependencies := map (\<lambda>(op, d). if d = k \<and> pending op then (op, nxt) else (op, d)) (ST_dependencies s1)\<rparr>;
                           s3 = s2\<lparr>ST_operations := sql_update (\<lambda>r. OR_id r = k) (\<lambda>r. r\<lparr>OR_status := OperationDischarged, OR_updated_at := stamp\<rparr>)
                                  (ST_operations s2)\<rparr>;
                           s4 = (if stopped \<and> DI_State i = InstanceDraining
                                 then s3\<lparr>ST_instances := sql_update (\<lambda>r. IR_id r = resource) (\<lambda>r. r\<lparr>IR_drain_phase := DrainPhaseStoppedRecovery,
                                        IR_version := IR_version r + 1, IR_updated_at := stamp\<rparr>) (ST_instances s3)\<rparr>
                                 else s3)
                       in Inr s4)))))"

section \<open>Stalled operations\<close>

definition cleanupStates :: "InstanceState list" where
  "cleanupStates = [InstanceDraining, InstanceDeregistering, InstanceStopping]"

definition since :: "time \<Rightarrow> int \<Rightarrow> duration" where
  "since now at' = (if at' \<le> 0 then 0 else max 0 (time_Sub now (fromNanos at')))"

definition retrying_row :: "op_row \<Rightarrow> bool" where
  "retrying_row r \<longleftrightarrow> OR_status r \<in> {OperationPending, OperationClaimed} \<and> OR_attempts r > 0"

definition stalled_row :: "time \<Rightarrow> op_row option \<Rightarrow> string \<Rightarrow> inst_row option \<Rightarrow> StalledOperation" where
  "stalled_row now q resource i =
     \<lparr>SO_OperationID = (case q of None \<Rightarrow> [] | Some r \<Rightarrow> OR_id r), SO_Kind = (case q of None \<Rightarrow> [] | Some r \<Rightarrow> OR_kind r),
      SO_Code = (case q of None \<Rightarrow> [] | Some r \<Rightarrow> FailureCode (OR_last_error r)), SO_Instance = resource,
      SO_Attempts = (case q of None \<Rightarrow> 0 | Some r \<Rightarrow> OR_attempts r),
      SO_Retrying = (case q of None \<Rightarrow> 0 | Some r \<Rightarrow> since now (OR_created_at r)),
      SO_DrainState = (case i of None \<Rightarrow> [] | Some r \<Rightarrow> state_text (IR_state r)),
      SO_Held = (case i of None \<Rightarrow> 0 | Some r \<Rightarrow> since now (IR_updated_at r))\<rparr>"

definition stalled_less :: "StalledOperation \<Rightarrow> StalledOperation \<Rightarrow> bool" where
  "stalled_less a b = (if SO_Instance a \<noteq> SO_Instance b then SO_Instance a < SO_Instance b else SO_OperationID a < SO_OperationID b)"

definition StalledOperations :: "time \<Rightarrow> store \<Rightarrow> StalledOperation list" where
  "StalledOperations now s = sort_slice stalled_less
     (map (\<lambda>q. stalled_row now (Some q) (OR_resource_id q)
              (find (\<lambda>i. IR_id i = OR_resource_id q \<and> IR_state i \<in> set cleanupStates) (ST_instances s)))
        (filter retrying_row (ST_operations s))
      @ map (\<lambda>i. stalled_row now None (IR_id i) (Some i))
        (filter (\<lambda>i. IR_state i \<in> set cleanupStates \<and> \<not> list_ex (\<lambda>q. OR_resource_id q = IR_id i \<and> retrying_row q) (ST_operations s)) (ST_instances s)))"

end
