(* ===== verification/Outbox_Invariant.thy ===== *)
theory Outbox_Invariant
  imports Durable_Store
begin

text \<open>
  What every transaction of the durable store keeps: keys and references of the tables, the lease columns of the
  outbox, and the order its dependencies promise. The step relation over the methods carries these to every
  store a controller can reach.
\<close>

section \<open>What the tables keep\<close>

definition done_op :: "store \<Rightarrow> string \<Rightarrow> bool" where
  "done_op s k \<longleftrightarrow> (\<exists>r \<in> set (ST_operations s). OR_id r = k \<and> OR_status r = OperationCompleted)"

definition discharged_op :: "store \<Rightarrow> string \<Rightarrow> bool" where
  "discharged_op s k \<longleftrightarrow> (\<exists>r \<in> set (ST_operations s). OR_id r = k \<and> OR_status r = OperationDischarged)"

definition prerequisites_done :: "store \<Rightarrow> string \<Rightarrow> bool" where
  "prerequisites_done s k \<longleftrightarrow> (\<forall>d. (k, d) \<in> set (ST_dependencies s) \<longrightarrow> done_op s d)"

text \<open>The keys of the tables, the references between them, and the lease columns.\<close>

definition tables_ok :: "store \<Rightarrow> bool" where
  "tables_ok s \<longleftrightarrow> distinct (map OR_id (ST_operations s)) \<and> distinct (map OR_idempotency_key (ST_operations s))
     \<and> distinct (map IR_id (ST_instances s)) \<and> distinct (map fst (ST_effects s)) \<and> distinct (map LR_name (ST_leases s))
     \<and> (\<forall>x \<in> set (ST_dependencies s). fst x \<in> OR_id ` set (ST_operations s) \<and> snd x \<in> OR_id ` set (ST_operations s))
     \<and> (\<forall>r \<in> set (ST_instances s). ValidState (IR_state r))"

definition leases_ok :: "op_row \<Rightarrow> bool" where
  "leases_ok r \<longleftrightarrow> (if OR_status r = OperationClaimed then OR_lease_owner r \<noteq> [] else OR_lease_owner r = [] \<and> OR_lease_until r = 0)"

definition store_ok :: "store \<Rightarrow> bool" where
  "store_ok s \<longleftrightarrow> tables_ok s
     \<and> (\<forall>r \<in> set (ST_operations s). leases_ok r
        \<and> (OR_status r \<in> {OperationClaimed, OperationCompleted} \<longrightarrow> prerequisites_done s (OR_id r)))
     \<and> (\<forall>x \<in> set (ST_effects s). \<exists>r \<in> set (ST_operations s). OR_id r = fst (snd x) \<and> OR_effect_key r = fst x \<and> OR_status r = OperationCompleted)"

lemma sql_update_simps [simp]:
  "length (sql_update c f rows) = length rows" "sql_update c f [] = []"
  "set (sql_update c f rows) = (\<lambda>r. if c r then f r else r) ` set rows"
  by (simp_all add: sql_update_def)

lemma map_sql_update: "(\<And>r. c r \<Longrightarrow> g (f r) = g r) \<Longrightarrow> map g (sql_update c f rows) = map g rows"
  by (auto simp: sql_update_def)

lemma sql_count_pos: "sql_count c rows \<noteq> 0 \<longleftrightarrow> (\<exists>r \<in> set rows. c r)"
  by (auto simp: sql_count_def filter_empty_conv)

lemma op_unique: "tables_ok s \<Longrightarrow> r \<in> set (ST_operations s) \<Longrightarrow> r' \<in> set (ST_operations s) \<Longrightarrow> OR_id r = OR_id r' \<Longrightarrow> r = r'"
  by (auto simp: tables_ok_def distinct_map inj_on_def)

lemma ST_op_iff: "tables_ok s \<Longrightarrow> ST_op s k = Some r \<longleftrightarrow> r \<in> set (ST_operations s) \<and> OR_id r = k"
proof -
  assume ok: "tables_ok s"
  have "find (\<lambda>r. OR_id r = k) rows = Some r \<longleftrightarrow> r \<in> set rows \<and> OR_id r = k" if "distinct (map OR_id rows)" for rows
    using that by (induction rows) auto
  with ok show ?thesis by (simp add: tables_ok_def)
qed

lemma ST_inst_iff: "tables_ok s \<Longrightarrow> ST_inst s k = Some r \<longleftrightarrow> r \<in> set (ST_instances s) \<and> IR_id r = k"
proof -
  assume ok: "tables_ok s"
  have "find (\<lambda>r. IR_id r = k) rows = Some r \<longleftrightarrow> r \<in> set rows \<and> IR_id r = k" if "distinct (map IR_id rows)" for rows
    using that by (induction rows) auto
  with ok show ?thesis by (simp add: tables_ok_def)
qed

lemma store_okD:
  assumes "store_ok s"
  shows "tables_ok s"
    and "r \<in> set (ST_operations s) \<Longrightarrow> leases_ok r"
    and "r \<in> set (ST_operations s) \<Longrightarrow> OR_status r \<in> {OperationClaimed, OperationCompleted} \<Longrightarrow> prerequisites_done s (OR_id r)"
    and "x \<in> set (ST_effects s) \<Longrightarrow> \<exists>r \<in> set (ST_operations s). OR_id r = fst (snd x) \<and> OR_effect_key r = fst x \<and> OR_status r = OperationCompleted"
  using assms unfolding store_ok_def by blast+

text \<open>
  One lemma for every statement that updates the outbox: the keys stay, a completed or discharged
  operation stays so, an operation becomes claimed or completed only with its prerequisites completed, and the
  lease columns follow the status.
\<close>

definition keeps_keys :: "(op_row \<Rightarrow> op_row) \<Rightarrow> bool" where
  "keeps_keys f \<longleftrightarrow> (\<forall>r. OR_id (f r) = OR_id r \<and> OR_idempotency_key (f r) = OR_idempotency_key r \<and> OR_effect_key (f r) = OR_effect_key r)"

lemma done_op_update:
  assumes "keeps_keys f" and "\<And>r. r \<in> set (ST_operations s) \<Longrightarrow> c r \<Longrightarrow> OR_status r \<in> {OperationCompleted, OperationDischarged} \<Longrightarrow> OR_status (f r) = OR_status r"
    and "done_op s k"
  shows "done_op (s\<lparr>ST_operations := sql_update c f (ST_operations s)\<rparr>) k"
proof -
  obtain q where "q \<in> set (ST_operations s)" "OR_id q = k" "OR_status q = OperationCompleted" using assms(3) by (auto simp: done_op_def)
  with assms(1,2) show ?thesis unfolding done_op_def by (intro bexI [of _ "if c q then f q else q"]) (auto simp: keeps_keys_def)
qed

lemma discharged_op_update:
  assumes "keeps_keys f" and "\<And>r. r \<in> set (ST_operations s) \<Longrightarrow> c r \<Longrightarrow> OR_status r \<in> {OperationCompleted, OperationDischarged} \<Longrightarrow> OR_status (f r) = OR_status r"
    and "discharged_op s k"
  shows "discharged_op (s\<lparr>ST_operations := sql_update c f (ST_operations s)\<rparr>) k"
proof -
  obtain q where "q \<in> set (ST_operations s)" "OR_id q = k" "OR_status q = OperationDischarged" using assms(3) by (auto simp: discharged_op_def)
  with assms(1,2) show ?thesis unfolding discharged_op_def by (intro bexI [of _ "if c q then f q else q"]) (auto simp: keeps_keys_def)
qed

lemma store_ok_update:
  assumes ok: "store_ok s" and keys: "keeps_keys f"
    and stays: "\<And>r. r \<in> set (ST_operations s) \<Longrightarrow> c r \<Longrightarrow> OR_status r \<in> {OperationCompleted, OperationDischarged} \<Longrightarrow> OR_status (f r) = OR_status r"
    and leases: "\<And>r. r \<in> set (ST_operations s) \<Longrightarrow> c r \<Longrightarrow> leases_ok (f r)"
    and starts: "\<And>r. r \<in> set (ST_operations s) \<Longrightarrow> c r \<Longrightarrow> OR_status (f r) \<in> {OperationClaimed, OperationCompleted} \<Longrightarrow> prerequisites_done s (OR_id r)"
  shows "store_ok (s\<lparr>ST_operations := sql_update c f (ST_operations s)\<rparr>)"
proof -
  let ?s = "s\<lparr>ST_operations := sql_update c f (ST_operations s)\<rparr>"
  have ids: "map OR_id (ST_operations ?s) = map OR_id (ST_operations s)" "map OR_idempotency_key (ST_operations ?s) = map OR_idempotency_key (ST_operations s)"
    using keys by (simp_all add: map_sql_update keeps_keys_def)
  have "OR_id ` set (ST_operations ?s) = OR_id ` set (ST_operations s)" using ids(1) by (metis list.set_map)
  then have tables: "tables_ok ?s" using ok ids unfolding store_ok_def tables_ok_def by simp
  have pre: "prerequisites_done ?s k" if "prerequisites_done s k" for k
    using that done_op_update [OF keys stays] by (simp add: prerequisites_done_def)
  have "leases_ok r \<and> (OR_status r \<in> {OperationClaimed, OperationCompleted} \<longrightarrow> prerequisites_done ?s (OR_id r))" if r: "r \<in> set (ST_operations ?s)" for r
  proof -
    obtain q where q: "q \<in> set (ST_operations s)" "r = (if c q then f q else q)" using r by auto
    show ?thesis
    proof (cases "c q")
      case True
      with q have "r = f q" "OR_id r = OR_id q" using keys by (auto simp: keeps_keys_def)
      with True q(1) leases starts pre show ?thesis by metis
    next
      case False
      with q have "r = q" by simp
      with q(1) ok pre show ?thesis unfolding store_ok_def by blast
    qed
  qed
  moreover have "\<exists>r \<in> set (ST_operations ?s). OR_id r = fst (snd x) \<and> OR_effect_key r = fst x \<and> OR_status r = OperationCompleted" if x: "x \<in> set (ST_effects s)" for x
  proof -
    obtain q where q: "q \<in> set (ST_operations s)" "OR_id q = fst (snd x)" "OR_effect_key q = fst x" "OR_status q = OperationCompleted"
      using store_okD(4) [OF ok x] by blast
    with stays keys show ?thesis by (intro bexI [of _ "if c q then f q else q"]) (auto simp: keeps_keys_def)
  qed
  ultimately show ?thesis using tables unfolding store_ok_def by auto
qed

section \<open>Every operation keeps the tables\<close>

definition keeps :: "store \<Rightarrow> store \<Rightarrow> bool" where
  "keeps s s' \<longleftrightarrow> (store_ok s \<longrightarrow> store_ok s' \<and> (\<forall>k. done_op s k \<longrightarrow> done_op s' k)
     \<and> (\<forall>k. discharged_op s k \<longrightarrow> discharged_op s' k)
     \<and> (\<forall>k d. (k, d) \<in> set (ST_dependencies s) \<longrightarrow> discharged_op s d \<longrightarrow> (k, d) \<in> set (ST_dependencies s')))"

lemma keeps_refl [simp]: "keeps s s"
  by (simp add: keeps_def)

lemma keeps_trans [trans]: "keeps s s' \<Longrightarrow> keeps s' s'' \<Longrightarrow> keeps s s''"
  by (auto simp: keeps_def)

lemma keeps_update:
  assumes "keeps_keys f"
    and "\<And>r. store_ok s \<Longrightarrow> r \<in> set (ST_operations s) \<Longrightarrow> c r \<Longrightarrow> OR_status r \<in> {OperationCompleted, OperationDischarged} \<Longrightarrow> OR_status (f r) = OR_status r"
    and "\<And>r. store_ok s \<Longrightarrow> r \<in> set (ST_operations s) \<Longrightarrow> c r \<Longrightarrow> leases_ok (f r)"
    and "\<And>r. store_ok s \<Longrightarrow> r \<in> set (ST_operations s) \<Longrightarrow> c r \<Longrightarrow> OR_status (f r) \<in> {OperationClaimed, OperationCompleted} \<Longrightarrow> prerequisites_done s (OR_id r)"
  shows "keeps s (s\<lparr>ST_operations := sql_update c f (ST_operations s)\<rparr>)"
  unfolding keeps_def using store_ok_update [of s f c] done_op_update [of f s c] discharged_op_update [of f s c] assms by simp

lemma untouched [simp]:
  "done_op (s\<lparr>ST_instances := is\<rparr>) k = done_op s k" "done_op (s\<lparr>ST_history := h\<rparr>) k = done_op s k"
  "done_op (s\<lparr>ST_scheduler := sc\<rparr>) k = done_op s k" "done_op (s\<lparr>ST_plans := ps\<rparr>) k = done_op s k"
  "done_op (s\<lparr>ST_leases := ls\<rparr>) k = done_op s k" "done_op (s\<lparr>ST_ownership := ws\<rparr>) k = done_op s k"
  "done_op (s\<lparr>ST_effects := es\<rparr>) k = done_op s k" "done_op (s\<lparr>ST_dependencies := ds\<rparr>) k = done_op s k"
  "discharged_op (s\<lparr>ST_instances := is\<rparr>) k = discharged_op s k" "discharged_op (s\<lparr>ST_history := h\<rparr>) k = discharged_op s k"
  "discharged_op (s\<lparr>ST_scheduler := sc\<rparr>) k = discharged_op s k" "discharged_op (s\<lparr>ST_plans := ps\<rparr>) k = discharged_op s k"
  "discharged_op (s\<lparr>ST_leases := ls\<rparr>) k = discharged_op s k" "discharged_op (s\<lparr>ST_ownership := ws\<rparr>) k = discharged_op s k"
  "discharged_op (s\<lparr>ST_effects := es\<rparr>) k = discharged_op s k" "discharged_op (s\<lparr>ST_dependencies := ds\<rparr>) k = discharged_op s k"
  "store_ok (s\<lparr>ST_history := h\<rparr>) = store_ok s" "store_ok (s\<lparr>ST_scheduler := sc\<rparr>) = store_ok s"
  "store_ok (s\<lparr>ST_plans := ps\<rparr>) = store_ok s" "store_ok (s\<lparr>ST_ownership := ws\<rparr>) = store_ok s"
  by (simp_all add: done_op_def discharged_op_def store_ok_def tables_ok_def prerequisites_done_def)

lemma keeps_instances:
  assumes "store_ok s \<Longrightarrow> distinct (map IR_id is)" and "\<And>r. store_ok s \<Longrightarrow> r \<in> set is \<Longrightarrow> ValidState (IR_state r)"
  shows "keeps s (s\<lparr>ST_instances := is\<rparr>)"
  unfolding keeps_def using assms by (simp add: store_ok_def tables_ok_def prerequisites_done_def)

lemma keeps_inst_update:
  assumes "\<And>r. IR_id (f r) = IR_id r" and "\<And>r. store_ok s \<Longrightarrow> r \<in> set (ST_instances s) \<Longrightarrow> c r \<Longrightarrow> ValidState (IR_state (f r))"
  shows "keeps s (s\<lparr>ST_instances := sql_update c f (ST_instances s)\<rparr>)"
  using assms by (intro keeps_instances) (auto simp: map_sql_update store_ok_def tables_ok_def)

lemma keeps_inst_insert:
  assumes "ST_inst s (IR_id r) = None" and "ValidState (IR_state r)"
  shows "keeps s (s\<lparr>ST_instances := ST_instances s @ [r]\<rparr>)"
  using assms by (intro keeps_instances) (auto simp: store_ok_def tables_ok_def find_None_iff)

lemma keeps_leases:
  assumes "store_ok s \<Longrightarrow> distinct (map LR_name ls)"
  shows "keeps s (s\<lparr>ST_leases := ls\<rparr>)"
  unfolding keeps_def using assms by (simp add: store_ok_def tables_ok_def prerequisites_done_def)

lemma keeps_op_insert:
  assumes new: "\<not> list_ex (\<lambda>q. OR_id q = OR_id r \<or> OR_idempotency_key q = OR_idempotency_key r) (ST_operations s)"
    and r: "OR_status r = OperationPending" "OR_lease_owner r = []" "OR_lease_until r = 0"
  shows "keeps s (s\<lparr>ST_operations := ST_operations s @ [r]\<rparr>)"
proof -
  let ?s = "s\<lparr>ST_operations := ST_operations s @ [r]\<rparr>"
  have mono: "done_op s k \<Longrightarrow> done_op ?s k" "discharged_op s k \<Longrightarrow> discharged_op ?s k" for k by (auto simp: done_op_def discharged_op_def)
  then have pre: "prerequisites_done s k \<Longrightarrow> prerequisites_done ?s k" for k by (simp add: prerequisites_done_def)
  have "store_ok ?s" if ok: "store_ok s"
  proof -
    have "tables_ok ?s" using store_okD(1) [OF ok] new by (auto simp: tables_ok_def list_ex_iff)
    moreover have "leases_ok q \<and> (OR_status q \<in> {OperationClaimed, OperationCompleted} \<longrightarrow> prerequisites_done ?s (OR_id q))"
      if "q \<in> set (ST_operations ?s)" for q
      using that r store_okD(2,3) [OF ok] pre by (auto simp: leases_ok_def)
    ultimately show ?thesis using store_okD(4) [OF ok] unfolding store_ok_def by auto
  qed
  with mono show ?thesis by (simp add: keeps_def)
qed

text \<open>A dependency is only ever recorded for an operation that is still pending.\<close>

lemma keeps_dependency:
  assumes pending: "r \<in> set (ST_operations s)" "OR_id r = k" "OR_status r = OperationPending"
    and "sql_count (\<lambda>q. OR_id q = d) (ST_operations s) = 1"
  shows "keeps s (s\<lparr>ST_dependencies := ST_dependencies s @ [(k, d)]\<rparr>)"
proof -
  let ?s = "s\<lparr>ST_dependencies := ST_dependencies s @ [(k, d)]\<rparr>"
  have d: "d \<in> OR_id ` set (ST_operations s)"
    using assms(4) sql_count_pos [of "\<lambda>q. OR_id q = d" "ST_operations s"] by auto
  have "store_ok ?s" if ok: "store_ok s"
  proof -
    have "tables_ok ?s" using store_okD(1) [OF ok] d pending by (auto simp: tables_ok_def)
    moreover have "leases_ok q \<and> (OR_status q \<in> {OperationClaimed, OperationCompleted} \<longrightarrow> prerequisites_done ?s (OR_id q))"
      if q: "q \<in> set (ST_operations s)" for q
    proof -
      have "OR_id q \<noteq> k" if "OR_status q \<in> {OperationClaimed, OperationCompleted}"
        using op_unique [OF store_okD(1) [OF ok] q pending(1)] pending that by auto
      then show ?thesis using store_okD(2,3) [OF ok q] by (auto simp: prerequisites_done_def)
    qed
    ultimately show ?thesis using store_okD(4) [OF ok] unfolding store_ok_def by simp
  qed
  then show ?thesis by (simp add: keeps_def)
qed

lemma apply_all_keeps:
  assumes "apply_all f xs s = Inr s'" and "P s"
    and "\<And>x t t'. x \<in> set xs \<Longrightarrow> P t \<Longrightarrow> f x t = Inr t' \<Longrightarrow> P t' \<and> keeps t t'"
  shows "P s' \<and> keeps s s'"
  using assms
proof (induction xs arbitrary: s)
  case (Cons x xs)
  then obtain t where t: "f x s = Inr t" "apply_all f xs t = Inr s'" by (auto split: sum.splits)
  with Cons.prems have "P t" "keeps s t" by auto
  with Cons.IH [OF t(2)] Cons.prems(3) show ?case using keeps_trans by (metis list.set_intros(2))
qed simp

lemma apply_intent_keeps:
  assumes "apply_intent stamp t s = Inr s'" and "intent_valid t"
  shows "keeps s s'"
proof (cases "II_ExpectedVersion t < 0")
  case True
  with assms have s': "s' = s\<lparr>ST_instances := ST_instances s @ [inst_row_of (II_Instance t) stamp]\<rparr>" "ST_inst s (DI_ID (II_Instance t)) = None"
    by (auto simp: apply_intent_def Let_def split: if_splits)
  show ?thesis unfolding s'(1) using assms(2) s'(2) by (intro keeps_inst_insert) (simp_all add: inst_row_of_def intent_valid_def)
next
  case False
  let ?i = "II_Instance t"
  let ?f = "\<lambda>r. r\<lparr>IR_state := DI_State ?i, IR_version := DI_Version ?i, IR_drain_phase := DI_DrainPhase ?i, IR_ownership := DI_Ownership ?i,
    IR_last_error := DI_LastError ?i, IR_updated_at := stamp\<rparr>"
  from False assms have s': "s' = s\<lparr>ST_instances := sql_update (intent_matches t) ?f (ST_instances s)\<rparr>"
    by (auto simp: apply_intent_def Let_def split: if_splits)
  show ?thesis unfolding s' using assms(2) by (intro keeps_inst_update) (simp_all add: intent_valid_def)
qed

lemma op_row_of_simps [simp]:
  "OR_id (op_row_of q stamp) = DO_ID q" "OR_idempotency_key (op_row_of q stamp) = DO_IdempotencyKey q"
  "OR_status (op_row_of q stamp) = OperationPending" "OR_lease_owner (op_row_of q stamp) = []" "OR_lease_until (op_row_of q stamp) = 0"
  by (simp_all add: op_row_of_def)

lemma insertOperation_keeps: "insertOperation stamp q s = Inr s' \<Longrightarrow> keeps s s'"
  by (auto simp: insertOperation_def intro!: keeps_op_insert split: if_splits)

lemma insertOperations_rows:
  "apply_all (insertOperation stamp) qs s = Inr s' \<Longrightarrow> s' = s\<lparr>ST_operations := ST_operations s @ map (\<lambda>q. op_row_of q stamp) qs\<rparr>"
proof (induction qs arbitrary: s)
  case (Cons q qs)
  then obtain t where t: "insertOperation stamp q s = Inr t" "apply_all (insertOperation stamp) qs t = Inr s'" by (auto split: sum.splits)
  then have "t = s\<lparr>ST_operations := ST_operations s @ [op_row_of q stamp]\<rparr>" by (auto simp: insertOperation_def split: if_splits)
  with Cons.IH [OF t(2)] show ?case by simp
qed simp

definition plan_pending :: "DurablePlan \<Rightarrow> store \<Rightarrow> bool" where
  "plan_pending plan s \<longleftrightarrow> (\<forall>q \<in> set (DP_Operations plan). \<exists>r \<in> set (ST_operations s). OR_id r = DO_ID q \<and> OR_status r = OperationPending)"

lemma record_dependency_keeps:
  assumes "record_dependency k d s = Inr s'" and "\<exists>r \<in> set (ST_operations s). OR_id r = k \<and> OR_status r = OperationPending"
  shows "keeps s s'" "ST_operations s' = ST_operations s"
  using assms by (auto simp: record_dependency_def intro: keeps_dependency split: if_splits)

definition plan_edges :: "DurablePlan \<Rightarrow> (string \<times> string) list" where
  "plan_edges plan = concat (map (\<lambda>q. map (Pair (DO_ID q)) (DO_DependsOn q)) (DP_Operations plan))"

text \<open>The accepting run of \<open>ApplyPlan\<close>, stage by stage.\<close>

lemma ApplyPlan_True:
  assumes "ApplyPlan plan s = Inr (True, s')"
  obtains digest current s1 s2 s3 where "DP_Valid plan" "Digest plan = Some digest" "map_of (ST_plans s) (DP_ID plan) = None"
    "ST_scheduler s = Some current" "SR_version current = DP_ExpectedSchedulerVersion plan"
    "apply_all (apply_intent (unix_nanos (DP_CreatedAt plan))) (DP_Instances plan) s = Inr s1"
    "apply_all (insertOperation (unix_nanos (DP_CreatedAt plan))) (DP_Operations plan) s1 = Inr s2"
    "apply_all (\<lambda>(operation, dependency). record_dependency operation dependency) (plan_edges plan) s2 = Inr s3"
    "s' = s3\<lparr>ST_scheduler := Some \<lparr>SR_version = DS_Version (DP_Scheduler plan),
        SR_data = jsonOrDefault (DS_Data (DP_Scheduler plan)) ''{}'', SR_reservations = jsonOrDefault (DS_Reservations (DP_Scheduler plan)) ''[]'',
        SR_drr_state = jsonOrDefault (DS_DeficitRoundRobin (DP_Scheduler plan)) ''{}'', SR_cursor = DS_ObservationCursor (DP_Scheduler plan),
        SR_updated_at = unix_nanos (DP_CreatedAt plan)\<rparr>, ST_plans := ST_plans s3 @ [(DP_ID plan, digest)]\<rparr>"
  using assms unfolding ApplyPlan_def Let_def plan_edges_def
  by (auto split: if_splits option.splits sum.splits)

lemma ApplyPlan_False: "ApplyPlan plan s = Inr (False, s') \<Longrightarrow> s' = s"
  unfolding ApplyPlan_def Let_def by (auto split: if_splits option.splits sum.splits)

lemma ApplyPlan_keeps: "ApplyPlan plan s = Inr (b, s') \<Longrightarrow> keeps s s'"
proof (cases b)
  case True
  assume "ApplyPlan plan s = Inr (b, s')"
  with True have "ApplyPlan plan s = Inr (True, s')" by simp
  then obtain digest current s1 s2 s3 where run: "DP_Valid plan"
    "apply_all (apply_intent (unix_nanos (DP_CreatedAt plan))) (DP_Instances plan) s = Inr s1"
    "apply_all (insertOperation (unix_nanos (DP_CreatedAt plan))) (DP_Operations plan) s1 = Inr s2"
    "apply_all (\<lambda>(operation, dependency). record_dependency operation dependency) (plan_edges plan) s2 = Inr s3"
    and s': "s' = s3\<lparr>ST_scheduler := Some current, ST_plans := ST_plans s3 @ [(DP_ID plan, digest)]\<rparr>"
    by (elim ApplyPlan_True) blast
  have "keeps s s1" using apply_all_keeps [OF run(2), of "\<lambda>_. True"] apply_intent_keeps run(1) by (auto simp: DP_Valid_def list_all_iff)
  also have "keeps s1 s2" using apply_all_keeps [OF run(3), of "\<lambda>_. True"] insertOperation_keeps by auto
  also have "keeps s2 s3"
  proof -
    have edges: "fst x \<in> DO_ID ` set (DP_Operations plan)" if "x \<in> set (plan_edges plan)" for x
      using that by (auto simp: plan_edges_def)
    have "plan_pending plan s2" using insertOperations_rows [OF run(3)] unfolding plan_pending_def
      by (intro ballI) (auto intro!: bexI [of _ "op_row_of _ (unix_nanos (DP_CreatedAt plan))"])
    moreover have "plan_pending plan t' \<and> keeps t t'" if "x \<in> set (plan_edges plan)" "plan_pending plan t"
      "(case x of (operation, dependency) \<Rightarrow> record_dependency operation dependency) t = Inr t'" for x t t'
      using record_dependency_keeps [of "fst x" "snd x" t t'] edges [OF that(1)] that(2,3) by (auto simp: plan_pending_def split_beta)
    ultimately show ?thesis using apply_all_keeps [OF run(4), of "plan_pending plan"] by blast
  qed
  finally have "keeps s s3" .
  then show ?thesis unfolding s' by (simp add: keeps_def)
next
  case False
  assume "ApplyPlan plan s = Inr (b, s')"
  with False have "s' = s" using ApplyPlan_False by auto
  then show ?thesis by simp
qed

lemma CreateInstance_keeps: "CreateInstance clock i s = Inr s' \<Longrightarrow> keeps s s'"
  by (auto simp: CreateInstance_def Let_def inst_row_of_def intro!: keeps_inst_insert split: if_splits)

lemma keeps_history [simp]: "keeps s (t\<lparr>ST_history := h\<rparr>) = keeps s t"
  by (simp add: keeps_def)

lemma Advance_keeps:
  assumes "Advance clock c s = Inr (i, s')"
  shows "keeps s s'"
proof -
  let ?m = "change_matches (SC_InstanceID c) (SC_ExpectedState c) (SC_ExpectedVersion c)" and ?t = "unix_nanos clock"
  let ?f = "\<lambda>r. r\<lparr>IR_state := SC_NextState c, IR_version := IR_version r + 1, IR_last_error := SC_FailureCode c, IR_updated_at := ?t\<rparr>"
  let ?g = "\<lambda>r. r\<lparr>OR_status := OperationCompleted, OR_lease_owner := [], OR_lease_until := 0, OR_last_error := SC_Outcome c, OR_updated_at := ?t\<rparr>"
  define s1 where "s1 = s\<lparr>ST_instances := sql_update ?m ?f (ST_instances s), ST_history := ST_history s @ [\<lparr>HR_instance_id = SC_InstanceID c,
    HR_from_state = SC_ExpectedState c, HR_to_state = SC_NextState c, HR_version = SC_ExpectedVersion c + 1, HR_operation_id = None, HR_created_at = ?t\<rparr>]\<rparr>"
  have valid: "ValidState (SC_NextState c)" and s': "s' = (if DO_ID (SC_Settles c) \<noteq> [] then s1\<lparr>ST_operations := sql_update (settle_matches c) ?g (ST_operations s1)\<rparr> else s1)"
    using assms unfolding Advance_def Let_def s1_def by (auto split: if_splits sum.splits)
  have "keeps s (s\<lparr>ST_instances := sql_update ?m ?f (ST_instances s)\<rparr>)" using valid by (intro keeps_inst_update) simp_all
  then have "keeps s s1" by (simp add: s1_def)
  moreover have "keeps s1 (s1\<lparr>ST_operations := sql_update (settle_matches c) ?g (ST_operations s1)\<rparr>)"
  proof (rule keeps_update)
    fix r assume "store_ok s1" "r \<in> set (ST_operations s1)" "settle_matches c r"
    then show "prerequisites_done s1 (OR_id r)" by (intro store_okD(3)) (auto simp: settle_matches_def)
  qed (auto simp: keeps_keys_def leases_ok_def settle_matches_def)
  ultimately show ?thesis unfolding s' using keeps_trans by auto
qed

lemma RenewOperation_keeps:
  assumes "RenewOperation k owner now leaseFor s = Inr s'"
  shows "keeps s s'"
proof -
  let ?c = "\<lambda>r. OR_id r = k \<and> OR_status r = OperationClaimed \<and> OR_lease_owner r = owner \<and> OR_lease_until r > unix_nanos now"
  have "owner \<noteq> []" and s': "s' = s\<lparr>ST_operations := sql_update ?c (\<lambda>r. r\<lparr>OR_lease_until := unix_nanos (now + leaseFor), OR_updated_at := unix_nanos now\<rparr>) (ST_operations s)\<rparr>"
    using assms by (auto simp: RenewOperation_def Let_def split: if_splits)
  then show ?thesis unfolding s' by (intro keeps_update) (auto simp: keeps_keys_def leases_ok_def intro: store_okD(3))
qed

lemma Retry_op_keeps:
  assumes "Retry_op clock k owner message availableAt dead s = Inr s'"
  shows "keeps s s'"
proof -
  let ?c = "\<lambda>r. OR_id r = k \<and> OR_status r = OperationClaimed \<and> OR_lease_owner r = owner"
  let ?f = "\<lambda>r. r\<lparr>OR_status := (if dead then OperationDead else OperationPending), OR_attempts := OR_attempts r + 1,
    OR_available_at := unix_nanos availableAt, OR_lease_owner := [], OR_lease_until := 0, OR_last_error := message, OR_updated_at := unix_nanos clock\<rparr>"
  have s': "s' = s\<lparr>ST_operations := sql_update ?c ?f (ST_operations s)\<rparr>"
    using assms by (auto simp: Retry_op_def Let_def split: if_splits)
  show ?thesis unfolding s' by (intro keeps_update) (auto simp: keeps_keys_def leases_ok_def split: if_splits)
qed

lemma RecoverExpired_keeps: "keeps s (snd (RecoverExpired now s))"
  unfolding RecoverExpired_def Let_def snd_conv by (intro keeps_update) (auto simp: keeps_keys_def leases_ok_def)

lemma propagate_dead_keeps: "keeps s (propagate_dead stamp s)"
  unfolding propagate_dead_def by (intro keeps_update) (auto simp: keeps_keys_def leases_ok_def)

section \<open>Claims\<close>

lemma prerequisites_met_done:
  assumes "tables_ok s" and "prerequisites_met s r"
  shows "prerequisites_done s (OR_id r)"
  unfolding prerequisites_done_def
proof (intro allI impI)
  fix d assume d: "(OR_id r, d) \<in> set (ST_dependencies s)"
  with assms(1) have "d \<in> OR_id ` set (ST_operations s)" by (force simp: tables_ok_def)
  then obtain pre where "pre \<in> set (ST_operations s)" "OR_id pre = d" by blast
  with assms(2) d show "done_op s d" by (auto simp: prerequisites_met_def list_ex_iff done_op_def)
qed

lemma claim_loop_keeps:
  assumes "claim_loop owner stamp until ks s = Inr (qs, s')" and "owner \<noteq> []"
    and "\<And>k. k \<in> set ks \<Longrightarrow> store_ok s \<Longrightarrow> prerequisites_done s k"
  shows "keeps s s'"
  using assms(1,3)
proof (induction ks arbitrary: s qs)
  case (Cons k ks)
  let ?c = "\<lambda>r. OR_id r = k \<and> free_for_claim stamp r"
  define t where "t = s\<lparr>ST_operations := sql_update ?c (\<lambda>r. r\<lparr>OR_status := OperationClaimed, OR_lease_owner := owner, OR_lease_until := until,
    OR_updated_at := stamp\<rparr>) (ST_operations s)\<rparr>"
  show ?case
  proof (cases "sql_count ?c (ST_operations s) = 1")
    case False
    with Cons.prems(1) have "claim_loop owner stamp until ks s = Inr (qs, s')" by (simp add: Let_def)
    then show ?thesis using Cons.prems(2) by (intro Cons.IH) auto
  next
    case True
    with Cons.prems(1) obtain qs' where rest: "claim_loop owner stamp until ks t = Inr (qs', s')"
      by (auto simp: Let_def t_def split: sum.splits)
    have step: "keeps s t" unfolding t_def
      by (intro keeps_update) (use \<open>owner \<noteq> []\<close> Cons.prems(2) in \<open>auto simp: keeps_keys_def leases_ok_def free_for_claim_def\<close>)
    have "ST_dependencies t = ST_dependencies s" by (simp add: t_def)
    then have pre: "prerequisites_done t j" if "prerequisites_done s j" "store_ok s" for j
      using that step by (simp add: prerequisites_done_def keeps_def)
    show ?thesis
    proof (cases "store_ok s")
      case True
      have "keeps t s'" using Cons.prems(2) True pre by (intro Cons.IH [OF rest]) auto
      with step show ?thesis by (rule keeps_trans)
    qed (simp add: keeps_def)
  qed
qed simp

lemma Claim_ops_keeps:
  assumes "Claim_ops owner limit now leaseFor s = Inr (qs, s')"
  shows "keeps s s'"
proof -
  let ?s = "propagate_dead (unix_nanos now) s"
  let ?ids = "map OR_id (take (nat limit) (sort_slice op_row_less (filter (claimable (unix_nanos now) ?s) (ST_operations ?s))))"
  have loop: "claim_loop owner (unix_nanos now) (unix_nanos (now + leaseFor)) ?ids ?s = Inr (qs, s')" and owner: "owner \<noteq> []"
    using assms by (auto simp: Claim_ops_def Let_def split: if_splits)
  have "prerequisites_done ?s k" if k: "k \<in> set ?ids" "store_ok ?s" for k
  proof -
    obtain r where "OR_id r = k" "claimable (unix_nanos now) ?s r" using k(1) by (auto dest!: in_set_takeD)
    then show ?thesis using prerequisites_met_done [OF store_okD(1) [OF k(2)]] by (auto simp: claimable_def)
  qed
  with claim_loop_keeps [OF loop owner] have "keeps ?s s'" by blast
  with propagate_dead_keeps show ?thesis by (rule keeps_trans)
qed

lemma Complete_op_keeps:
  assumes "Complete_op k owner effectKey now s = Inr (b, s')"
  shows "keeps s s'"
proof (cases "s' = s")
  case False
  let ?f = "\<lambda>r. r\<lparr>OR_status := OperationCompleted, OR_lease_owner := [], OR_lease_until := 0, OR_updated_at := unix_nanos now\<rparr>"
  define t where "t = s\<lparr>ST_operations := sql_update (\<lambda>r. OR_id r = k) ?f (ST_operations s)\<rparr>"
  obtain r where r: "ST_op s k = Some r" "OR_effect_key r = effectKey" "OR_status r = OperationClaimed"
    and s': "s' = (if effectKey \<in> fst ` set (ST_effects s) then t else t\<lparr>ST_effects := ST_effects s @ [(effectKey, k, unix_nanos now)]\<rparr>)"
    using assms False unfolding Complete_op_def Let_def t_def by (auto split: option.splits if_splits)
  have step: "keeps s t" unfolding t_def
  proof (rule keeps_update)
    fix q assume "store_ok s" "q \<in> set (ST_operations s)" "OR_id q = k"
    with r op_unique have q: "q = r" by (metis ST_op_iff store_okD(1))
    with \<open>store_ok s\<close> \<open>q \<in> set (ST_operations s)\<close> r show "prerequisites_done s (OR_id q)" by (intro store_okD(3)) auto
    show "OR_status (?f q) = OR_status q" if "OR_status q \<in> {OperationCompleted, OperationDischarged}" using that q r(3) by simp
  qed (simp_all add: keeps_keys_def leases_ok_def)
  have "keeps t (t\<lparr>ST_effects := ST_effects s @ [(effectKey, k, unix_nanos now)]\<rparr>)" if new: "effectKey \<notin> fst ` set (ST_effects s)" "store_ok s"
  proof -
    have "r \<in> set (ST_operations s)" "OR_id r = k" using r(1) ST_op_iff [OF store_okD(1) [OF that(2)]] by auto
    then have "?f r \<in> set (ST_operations t)" by (auto simp: t_def)
    then have "\<exists>q \<in> set (ST_operations t). OR_id q = k \<and> OR_effect_key q = effectKey \<and> OR_status q = OperationCompleted"
      using r(2) \<open>OR_id r = k\<close> by (intro bexI [of _ "?f r"]) simp_all
    with new(1) show ?thesis unfolding keeps_def by (auto simp: store_ok_def tables_ok_def prerequisites_done_def done_op_def t_def)
  qed
  with step show ?thesis unfolding s' by (auto simp: keeps_def)
qed simp

section \<open>Leases, transitions and discharges\<close>

lemma map_LR_name_update: "(\<And>r. LR_name (f r) = LR_name r) \<Longrightarrow> map LR_name (sql_update c f rows) = map LR_name rows"
  by (rule map_sql_update)

lemma lease_keeps:
  "AcquireLease name owner now ttl s = Inr (l, s') \<Longrightarrow> keeps s s'"
  "RenewLease l' now ttl s = Inr (l, s') \<Longrightarrow> keeps s s'"
  "ReleaseLease l' s = Inr s' \<Longrightarrow> keeps s s'"
  "PutOwnership resource w s = Inr s' \<Longrightarrow> keeps s s'"
proof -
  assume a: "AcquireLease name owner now ttl s = Inr (l, s')"
  show "keeps s s'"
  proof (cases "find (\<lambda>r. LR_name r = name) (ST_leases s)")
    case None
    with a have "s' = s\<lparr>ST_leases := ST_leases s @ [\<lparr>LR_name = name, LR_owner = owner, LR_token = 1, LR_expires_at = unix_nanos (now + ttl)\<rparr>]\<rparr>"
      by (auto simp: AcquireLease_def Let_def split: if_splits)
    with None show ?thesis by (auto simp: store_ok_def tables_ok_def find_None_iff intro!: keeps_leases)
  next
    case (Some r)
    with a show ?thesis
      by (auto simp: AcquireLease_def Let_def store_ok_def tables_ok_def map_LR_name_update intro!: keeps_leases split: if_splits)
  qed
next
  assume "RenewLease l' now ttl s = Inr (l, s')"
  then show "keeps s s'" by (auto simp: RenewLease_def Let_def store_ok_def tables_ok_def map_LR_name_update intro!: keeps_leases split: if_splits)
next
  assume "ReleaseLease l' s = Inr s'"
  then show "keeps s s'" by (auto simp: ReleaseLease_def store_ok_def tables_ok_def distinct_map_filterI intro!: keeps_leases split: if_splits)
next
  assume "PutOwnership resource w s = Inr s'"
  then show "keeps s s'" by (auto simp: PutOwnership_def keeps_def split: if_splits option.splits)
qed

lemma store_Transition_keeps:
  assumes "store_Transition clock t s = Inr (i, q, s')"
  shows "keeps s s'"
proof (cases "s' = s")
  case False
  let ?q = "Tr_Operation t" and ?m = "change_matches (Tr_InstanceID t) (Tr_ExpectedState t) (Tr_ExpectedVersion t)"
  let ?now = "if time_IsZero (DO_CreatedAt ?q) then clock else DO_CreatedAt ?q"
  let ?row = "(op_row_of (?q\<lparr>DO_Status := OperationPending, DO_CreatedAt := ?now, DO_UpdatedAt := ?now\<rparr>) (unix_nanos ?now))\<lparr>OR_last_error := []\<rparr>"
  let ?f = "\<lambda>r. r\<lparr>IR_state := Tr_NextState t, IR_version := IR_version r + 1, IR_drain_phase := Tr_DrainPhase t, IR_last_error := Tr_LastError t,
    IR_updated_at := unix_nanos ?now\<rparr>"
  define s1 where "s1 = s\<lparr>ST_instances := sql_update ?m ?f (ST_instances s)\<rparr>"
  define s2 where "s2 = s1\<lparr>ST_operations := ST_operations s1 @ [?row]\<rparr>"
  obtain s3 h where valid: "ValidState (Tr_NextState t)"
    and key: "find (\<lambda>r. OR_idempotency_key r = DO_IdempotencyKey ?q) (ST_operations s) = None" and id: "ST_op s1 (DO_ID ?q) = None"
    and deps: "apply_all (record_dependency (DO_ID ?q)) (DO_DependsOn ?q) s2 = Inr s3" and s': "s' = s3\<lparr>ST_history := h\<rparr>"
    using assms False unfolding store_Transition_def Let_def s2_def s1_def by (auto split: if_splits option.splits sum.splits)
  have "keeps s s1" unfolding s1_def using valid by (intro keeps_inst_update) simp_all
  also have "keeps s1 s2" unfolding s2_def
    by (intro keeps_op_insert) (use key id in \<open>auto simp: list_ex_iff find_None_iff s1_def\<close>)
  also have "keeps s2 s3"
  proof -
    let ?P = "\<lambda>u. \<exists>r \<in> set (ST_operations u). OR_id r = DO_ID ?q \<and> OR_status r = OperationPending"
    have "?P s2" by (auto simp: s2_def)
    moreover have "?P u' \<and> keeps u u'" if "?P u" "record_dependency (DO_ID ?q) d u = Inr u'" for d u u'
      using record_dependency_keeps [OF that(2,1)] that(1) by simp
    ultimately show ?thesis using apply_all_keeps [OF deps, of ?P] by blast
  qed
  finally show ?thesis by (simp add: s')
qed simp

lemma reapInstance_keeps: "reapInstance i stamp s = Inr s' \<Longrightarrow> keeps s s'"
  by (auto simp: reapInstance_def Let_def ValidState_def intro!: keeps_inst_update split: if_splits)

lemma store_DischargeDeadLetter_keeps:
  assumes "store_DischargeDeadLetter d s = Inr (out, s')"
  shows "keeps s s'"
proof -
  let ?c = "\<lambda>q. OR_id q = Di_OperationID d \<and> OR_status q = OperationDead"
  let ?f = "\<lambda>q. q\<lparr>OR_status := OperationDischarged, OR_lease_owner := [], OR_lease_until := 0, OR_updated_at := unix_nanos (Di_At d)\<rparr>"
  have step: "keeps s (s\<lparr>ST_operations := sql_update ?c ?f (ST_operations s)\<rparr>)"
    by (intro keeps_update) (auto simp: keeps_keys_def leases_ok_def)
  obtain t i where t: "t = s \<or> t = s\<lparr>ST_operations := sql_update ?c ?f (ST_operations s)\<rparr>"
    and s': "s' = t \<or> reapInstance i (unix_nanos (Di_At d)) t = Inr s'"
    using assms unfolding store_DischargeDeadLetter_def Let_def by (auto split: if_splits option.splits sum.splits)
  have "keeps s t" using t step by auto
  moreover have "keeps t s'" using s' reapInstance_keeps by auto
  ultimately show ?thesis by (rule keeps_trans)
qed

text \<open>Redirecting the pending successors of a superseded cleanup.\<close>

definition pending_op :: "store \<Rightarrow> string \<Rightarrow> bool" where
  "pending_op s k \<longleftrightarrow> list_ex (\<lambda>r. OR_id r = k \<and> OR_status r = OperationPending) (ST_operations s)"

lemma keeps_redirect:
  assumes new: "n \<in> OR_id ` set (ST_operations s)" and dead: "store_ok s \<Longrightarrow> \<not> discharged_op s k"
  shows "keeps s (s\<lparr>ST_dependencies := map (\<lambda>(op, d). if d = k \<and> pending_op s op then (op, n) else (op, d)) (ST_dependencies s)\<rparr>)"
proof -
  let ?s = "s\<lparr>ST_dependencies := map (\<lambda>(op, d). if d = k \<and> pending_op s op then (op, n) else (op, d)) (ST_dependencies s)\<rparr>"
  have "store_ok ?s" if ok: "store_ok s"
  proof -
    have "tables_ok ?s" using store_okD(1) [OF ok] new by (fastforce simp: tables_ok_def)
    moreover have "prerequisites_done ?s (OR_id r)" if r: "r \<in> set (ST_operations s)" "OR_status r \<in> {OperationClaimed, OperationCompleted}" for r
    proof -
      have "\<not> pending_op s (OR_id r)" using op_unique [OF store_okD(1) [OF ok] r(1)] r(2)
        unfolding pending_op_def list_ex_iff by (metis OperationStatus.distinct(1,3) insertE singletonD)
      with store_okD(3) [OF ok r] show ?thesis by (auto simp: prerequisites_done_def split: if_splits)
    qed
    ultimately show ?thesis using store_okD(2,4) [OF ok] unfolding store_ok_def by simp
  qed
  moreover have "(j, d) \<in> set (ST_dependencies ?s)" if "(j, d) \<in> set (ST_dependencies s)" "discharged_op s d" "store_ok s" for j d
  proof -
    have "d \<noteq> k" using that dead by blast
    with that(1) show ?thesis by (auto intro!: rev_image_eqI)
  qed
  ultimately show ?thesis by (simp add: keeps_def)
qed

lemma ResumeCleanup_keeps:
  assumes "ResumeCleanup k resource stopped at' s = Inr s'"
  shows "keeps s s'"
proof (cases "s' = s")
  case False
  let ?stamp = "unix_nanos at'" and ?n = "recovery_id k"
  let ?f = "\<lambda>r. r\<lparr>OR_status := OperationDischarged, OR_updated_at := ?stamp\<rparr>"
  let ?g = "\<lambda>r. r\<lparr>IR_drain_phase := DrainPhaseStoppedRecovery, IR_version := IR_version r + 1, IR_updated_at := ?stamp\<rparr>"
  obtain old where old: "ST_op s k = Some old" "OR_status old = OperationDead"
    and new: "\<not> list_ex (\<lambda>r. OR_id r = ?n \<or> OR_idempotency_key r = ?n) (ST_operations s)"
    using assms False unfolding ResumeCleanup_def Let_def by (auto split: if_splits option.splits sum.splits)
  define s1 where "s1 = s\<lparr>ST_operations := ST_operations s @ [resumed_row old resource ?stamp]\<rparr>"
  define s2 where "s2 = s1\<lparr>ST_dependencies := map (\<lambda>(op, d). if d = k \<and> pending_op s1 op then (op, ?n) else (op, d)) (ST_dependencies s1)\<rparr>"
  define s3 where "s3 = s2\<lparr>ST_operations := sql_update (\<lambda>r. OR_id r = k) ?f (ST_operations s2)\<rparr>"
  have s': "s' = s3 \<or> s' = s3\<lparr>ST_instances := sql_update (\<lambda>r. IR_id r = resource) ?g (ST_instances s3)\<rparr>"
    using assms False old unfolding ResumeCleanup_def Let_def s3_def s2_def s1_def pending_op_def
    by (simp split: if_splits option.splits sum.splits)
  have row: "OR_id (resumed_row old resource ?stamp) = ?n" "OR_idempotency_key (resumed_row old resource ?stamp) = ?n"
    if "OR_id old = k" using that by (simp_all add: resumed_row_def)
  have id: "OR_id old = k" using old(1) by (auto simp: find_Some_iff)
  have "keeps s s1" unfolding s1_def
    by (intro keeps_op_insert) (use new row [OF id] in \<open>auto simp: resumed_row_def\<close>)
  also have "keeps s1 s2" unfolding s2_def
  proof (rule keeps_redirect)
    show "?n \<in> OR_id ` set (ST_operations s1)" by (auto simp: s1_def row [OF id])
    assume ok: "store_ok s1"
    have "old \<in> set (ST_operations s1)" using old(1) by (auto simp: s1_def find_Some_iff)
    then have "r = old" if "r \<in> set (ST_operations s1)" "OR_id r = k" for r using op_unique [OF store_okD(1) [OF ok] that(1)] that(2) id by simp
    with old(2) show "\<not> discharged_op s1 k" by (auto simp: discharged_op_def)
  qed
  also have "keeps s2 s3" unfolding s3_def
  proof (rule keeps_update)
    fix r assume r: "store_ok s2" "r \<in> set (ST_operations s2)" "OR_id r = k"
    have "old \<in> set (ST_operations s2)" using old(1) by (auto simp: s2_def s1_def find_Some_iff)
    with r id old(2) have dead: "OR_status r = OperationDead" using op_unique [OF store_okD(1) [OF r(1)] r(2)] by auto
    with store_okD(2) [OF r(1,2)] show "leases_ok (?f r)" by (simp add: leases_ok_def)
    show "OR_status (?f r) = OR_status r" if "OR_status r \<in> {OperationCompleted, OperationDischarged}" using dead that by simp
  qed (simp_all add: keeps_keys_def)
  also have "keeps s3 s'"
  proof -
    have "keeps s3 (s3\<lparr>ST_instances := sql_update (\<lambda>r. IR_id r = resource) ?g (ST_instances s3)\<rparr>)"
      by (intro keeps_inst_update) (auto simp: store_ok_def tables_ok_def)
    with s' show ?thesis by auto
  qed
  finally show ?thesis .
qed simp

end
