(* ===== verification/Outbox_Safety.thy ===== *)
theory Outbox_Safety
  imports Outbox_Invariant
begin

text \<open>
  What the durable store promises its clients: the order of the outbox, plans that commit once, exclusive claims,
  instances that read back as written, and what dead letters and aborted drains do to the operations behind them.
\<close>

section \<open>Every reachable store\<close>

text \<open>The store after its migrations: empty tables and the seeded scheduler row.\<close>

definition empty_store :: store where
  "empty_store = \<lparr>ST_instances = [], ST_operations = [], ST_dependencies = [], ST_effects = [], ST_history = [], ST_plans = [],
     ST_scheduler = Some seed_scheduler, ST_leases = [], ST_ownership = []\<rparr>"

text \<open>One committed transaction, whichever method ran it; a transaction that failed leaves the store as it was.\<close>

inductive store_step :: "store \<Rightarrow> store \<Rightarrow> bool" where
  ApplyPlan_step: "ApplyPlan plan s = Inr (fresh, s') \<Longrightarrow> store_step s s'"
| Reseed_step: "store_step s (ReseedSchedulerState s)"
| Create_step: "CreateInstance clock i s = Inr s' \<Longrightarrow> store_step s s'"
| Advance_step: "Advance clock c s = Inr (i, s') \<Longrightarrow> store_step s s'"
| Transition_step: "store_Transition clock t s = Inr (i, q, s') \<Longrightarrow> store_step s s'"
| Claim_step: "Claim_ops owner n now leaseFor s = Inr (qs, s') \<Longrightarrow> store_step s s'"
| RenewOperation_step: "RenewOperation k owner now leaseFor s = Inr s' \<Longrightarrow> store_step s s'"
| Complete_step: "Complete_op k owner effect now s = Inr (fresh, s') \<Longrightarrow> store_step s s'"
| Retry_step: "Retry_op clock k owner message available dead s = Inr s' \<Longrightarrow> store_step s s'"
| Recover_step: "store_step s (snd (RecoverExpired now s))"
| Acquire_step: "AcquireLease name owner now ttl s = Inr (l, s') \<Longrightarrow> store_step s s'"
| RenewLease_step: "RenewLease l now ttl s = Inr (l', s') \<Longrightarrow> store_step s s'"
| Release_step: "ReleaseLease l s = Inr s' \<Longrightarrow> store_step s s'"
| Ownership_step: "PutOwnership resource w s = Inr s' \<Longrightarrow> store_step s s'"
| Discharge_step: "store_DischargeDeadLetter d s = Inr (outcome, s') \<Longrightarrow> store_step s s'"
| Binding_step: "update_binding stamp i i' s = Inr s' \<Longrightarrow> store_step s s'"
| Resume_step: "ResumeCleanup k resource stopped now s = Inr s' \<Longrightarrow> store_step s s'"

lemma Reseed_keeps: "keeps s (ReseedSchedulerState s)"
  by (auto simp: ReseedSchedulerState_def keeps_def split: option.splits)

lemma update_binding_keeps: "update_binding stamp i i' s = Inr s' \<Longrightarrow> keeps s s'"
  by (auto simp: update_binding_def store_ok_def tables_ok_def intro!: keeps_inst_update split: if_splits)

lemma store_step_keeps: "store_step s s' \<Longrightarrow> keeps s s'"
  by (induction rule: store_step.induct)
     (blast intro: ApplyPlan_keeps Reseed_keeps CreateInstance_keeps Advance_keeps store_Transition_keeps Claim_ops_keeps RenewOperation_keeps
        Complete_op_keeps Retry_op_keeps RecoverExpired_keeps lease_keeps store_DischargeDeadLetter_keeps ResumeCleanup_keeps update_binding_keeps)+

lemma store_run_keeps: "store_step\<^sup>*\<^sup>* s s' \<Longrightarrow> keeps s s'"
  by (induction rule: rtranclp_induct) (auto intro: keeps_trans store_step_keeps)

lemma empty_store_ok: "store_ok empty_store"
  by (simp add: empty_store_def store_ok_def tables_ok_def)

lemma reachable_ok: "store_step\<^sup>*\<^sup>* empty_store s \<Longrightarrow> store_ok s"
  using store_run_keeps empty_store_ok by (auto simp: keeps_def)

text \<open>
  C4. The outbox keeps its order in every store a controller can reach, by whatever sequence of transactions of
  whatever replicas: an operation that is claimed or completed has only completed prerequisites, a prerequisite
  that was completed stays completed in every later store, and no recorded effect is without its completed
  operation.
\<close>

theorem outbox_order:
  assumes "store_step\<^sup>*\<^sup>* empty_store s" and "store_step\<^sup>*\<^sup>* s s'"
    and "ST_op s k = Some r" "OR_status r = OperationClaimed \<or> OR_status r = OperationCompleted" "(k, d) \<in> set (ST_dependencies s)"
  shows "map_option OR_status (ST_op s' d) = Some OperationCompleted
    \<and> (\<forall>effect n stamp. (effect, n, stamp) \<in> set (ST_effects s') \<longrightarrow> map_option OR_status (ST_op s' n) = Some OperationCompleted)"
proof -
  have ok: "store_ok s" "store_ok s'" using reachable_ok assms(1,2) by (blast, metis rtranclp_trans)
  have status: "map_option OR_status (ST_op s' x) = Some OperationCompleted" if "done_op s' x" for x
    using that ST_op_iff [OF store_okD(1) [OF ok(2)]] unfolding done_op_def by fastforce
  have "r \<in> set (ST_operations s)" "OR_id r = k" using assms(3) ST_op_iff [OF store_okD(1) [OF ok(1)]] by auto
  then have "done_op s d" using store_okD(3) [OF ok(1)] assms(4,5) by (auto simp: prerequisites_done_def)
  then have "done_op s' d" using store_run_keeps [OF assms(2)] ok(1) by (auto simp: keeps_def)
  moreover have "done_op s' n" if "(effect, n, stamp) \<in> set (ST_effects s')" for effect n stamp
    using store_okD(4) [OF ok(2) that] unfolding done_op_def by auto
  ultimately show ?thesis using status by blast
qed

section \<open>A handoff, step by step\<close>

text \<open>
  A plan that drains one instance and starts another behind it, and the stores the controller and its worker
  reach with it. Digests are left symbolic when these are evaluated.
\<close>

declare sha256_def [code del] json_string_def [code del] json_object_def [code del] json_array_def [code del] decimal_def [code del] pad_left_def [code del] bytes_of_def [code del]

definition fx_time :: time where "fx_time = unix_epoch + 1000 * second"

definition fx_durable :: "string \<Rightarrow> InstanceState \<Rightarrow> int \<Rightarrow> DurableInstance" where
  "fx_durable n st v = zero_DurableInstance\<lparr>DI_ID := n, DI_State := st, DI_Version := v,
     DI_Ownership := \<lparr>Own_ControllerID = ''ctl'', Own_ResourceID = n, Own_OperationID = ''boot''\<rparr>\<rparr>"

definition fx_outbox :: "string \<Rightarrow> string \<Rightarrow> string \<Rightarrow> string list \<Rightarrow> DurableOperation" where
  "fx_outbox n kind resource deps = zero_DurableOperation\<lparr>DO_ID := n, DO_IdempotencyKey := n, DO_EffectKey := kind @ '':'' @ resource,
     DO_Kind := kind, DO_ResourceID := resource, DO_AvailableAt := fx_time, DO_DependsOn := deps\<rparr>"

definition fx_handoff :: DurablePlan where
  "fx_handoff = \<lparr>DP_ID = ''plan'', DP_ExpectedSchedulerVersion = 0,
     DP_Scheduler = \<lparr>DS_Version = 1, DS_Data = [], DS_Reservations = [], DS_DeficitRoundRobin = [], DS_ObservationCursor = []\<rparr>,
     DP_Instances = [\<lparr>II_ExpectedVersion = 0, II_ExpectedState = InstanceOnlineIdle, II_Instance = fx_durable ''old'' InstanceDraining 1\<rparr>,
                     \<lparr>II_ExpectedVersion = -1, II_ExpectedState = InstanceOther [], II_Instance = fx_durable ''new'' InstancePlanned 0\<rparr>],
     DP_Operations = [fx_outbox ''drain'' OperationDrainKind ''old'' [], fx_outbox ''clone'' OperationProvisionKind ''new'' [''drain'']],
     DP_CreatedAt = fx_time\<rparr>"

definition fx_s0 :: store where "fx_s0 = projr (CreateInstance fx_time (fx_durable ''old'' InstanceOnlineIdle 0) empty_store)"
definition fx_s1 :: store where "fx_s1 = snd (projr (ApplyPlan fx_handoff fx_s0))"
definition fx_s2 :: store where "fx_s2 = snd (projr (Claim_ops ''w'' 5 (fx_time + second) minute fx_s1))"
definition fx_s3 :: store where "fx_s3 = snd (projr (Complete_op ''drain'' ''w'' ''deregister:old'' (fx_time + 2 * second) fx_s2))"
definition fx_s4 :: store where "fx_s4 = snd (projr (Claim_ops ''w'' 5 (fx_time + 3 * second) minute fx_s3))"

lemma fx_commits:
  "isl (CreateInstance fx_time (fx_durable ''old'' InstanceOnlineIdle 0) empty_store) = False"
  "isl (ApplyPlan fx_handoff fx_s0) = False"
  "isl (Claim_ops ''w'' 5 (fx_time + second) minute fx_s1) = False"
  "isl (Complete_op ''drain'' ''w'' ''deregister:old'' (fx_time + 2 * second) fx_s2) = False"
  "isl (Claim_ops ''w'' 5 (fx_time + 3 * second) minute fx_s3) = False"
  by code_simp+

lemma projr_pair: "isl x = False \<Longrightarrow> x = Inr (fst (projr x), snd (projr x))"
  by (cases x) simp_all

lemma fx_reachable: "store_step\<^sup>*\<^sup>* empty_store fx_s0" "store_step\<^sup>*\<^sup>* empty_store fx_s1" "store_step\<^sup>*\<^sup>* empty_store fx_s2"
  "store_step\<^sup>*\<^sup>* empty_store fx_s3" "store_step\<^sup>*\<^sup>* empty_store fx_s4"
proof -
  have "store_step empty_store fx_s0" unfolding fx_s0_def
    by (rule Create_step [of fx_time "fx_durable ''old'' InstanceOnlineIdle 0"]) (use fx_commits(1) in \<open>cases "CreateInstance fx_time (fx_durable ''old'' InstanceOnlineIdle 0) empty_store"; simp\<close>)
  then show s0: "store_step\<^sup>*\<^sup>* empty_store fx_s0" by blast
  have "store_step fx_s0 fx_s1" unfolding fx_s1_def by (rule ApplyPlan_step) (rule projr_pair [OF fx_commits(2)])
  with s0 show s1: "store_step\<^sup>*\<^sup>* empty_store fx_s1" by (rule rtranclp.rtrancl_into_rtrancl)
  have "store_step fx_s1 fx_s2" unfolding fx_s2_def by (rule Claim_step) (rule projr_pair [OF fx_commits(3)])
  with s1 show s2: "store_step\<^sup>*\<^sup>* empty_store fx_s2" by (rule rtranclp.rtrancl_into_rtrancl)
  have "store_step fx_s2 fx_s3" unfolding fx_s3_def by (rule Complete_step) (rule projr_pair [OF fx_commits(4)])
  with s2 show s3: "store_step\<^sup>*\<^sup>* empty_store fx_s3" by (rule rtranclp.rtrancl_into_rtrancl)
  have "store_step fx_s3 fx_s4" unfolding fx_s4_def by (rule Claim_step) (rule projr_pair [OF fx_commits(5)])
  with s3 show "store_step\<^sup>*\<^sup>* empty_store fx_s4" by (rule rtranclp.rtrancl_into_rtrancl)
qed

theorem outbox_order_witness: "map_option OR_status (ST_op fx_s4 ''clone'') = Some OperationClaimed \<and> map_option OR_status (ST_op fx_s4 ''drain'') = Some OperationCompleted"
proof -
  have c: "map_option OR_status (ST_op fx_s4 ''clone'') = Some OperationClaimed" "(''clone'', ''drain'') \<in> set (ST_dependencies fx_s4)" by code_simp+
  then obtain r where r: "ST_op fx_s4 ''clone'' = Some r" "OR_status r = OperationClaimed" by auto
  then show ?thesis using outbox_order [OF fx_reachable(5) rtranclp.rtrancl_refl r(1) _ c(2)] c(1) by simp
qed

section \<open>A plan commits once\<close>

text \<open>Accepted plans stay recorded and the scheduler version never falls.\<close>

definition version_of :: "store \<Rightarrow> int" where
  "version_of s = (case ST_scheduler s of None \<Rightarrow> 0 | Some r \<Rightarrow> SR_version r)"

definition same_history :: "store \<Rightarrow> store \<Rightarrow> bool" where
  "same_history s s' \<longleftrightarrow> ST_plans s' = ST_plans s \<and> ST_scheduler s' = ST_scheduler s"

lemma same_history_trans: "same_history s s' \<Longrightarrow> same_history s' s'' \<Longrightarrow> same_history s s''"
  by (simp add: same_history_def)

lemma apply_all_history:
  assumes "apply_all f xs s = Inr s'" and "\<And>x t t'. f x t = Inr t' \<Longrightarrow> same_history t t'"
  shows "same_history s s'"
  using assms(1)
proof (induction xs arbitrary: s)
  case (Cons x xs)
  then obtain t where "f x s = Inr t" "apply_all f xs t = Inr s'" by (auto split: sum.splits)
  with Cons.IH assms(2) same_history_trans show ?case by blast
qed (simp add: same_history_def)

lemma insert_history:
  "apply_intent stamp t s = Inr s' \<Longrightarrow> same_history s s'"
  "insertOperation stamp q s = Inr s' \<Longrightarrow> same_history s s'"
  "record_dependency k d s = Inr s' \<Longrightarrow> same_history s s'"
  by (auto simp: apply_intent_def insertOperation_def record_dependency_def same_history_def Let_def split: if_splits)

lemma claim_loop_history: "claim_loop owner stamp until ks s = Inr (qs, s') \<Longrightarrow> same_history s s'"
proof (induction ks arbitrary: s qs)
  case (Cons k ks)
  let ?m = "\<lambda>r. OR_id r = k \<and> free_for_claim stamp r"
  show ?case
  proof (cases "sql_count ?m (ST_operations s) = 1")
    case True
    with Cons.prems obtain qs' where "claim_loop owner stamp until ks (s\<lparr>ST_operations := sql_update ?m (\<lambda>r. r\<lparr>OR_status := OperationClaimed,
        OR_lease_owner := owner, OR_lease_until := until, OR_updated_at := stamp\<rparr>) (ST_operations s)\<rparr>) = Inr (qs', s')"
      by (auto simp: Let_def split: sum.splits)
    from Cons.IH [OF this] show ?thesis by (simp add: same_history_def)
  next
    case False
    with Cons.prems Cons.IH show ?thesis by (simp add: Let_def)
  qed
qed (simp add: same_history_def)

lemma dependencies_history: "apply_all (record_dependency k) ds s = Inr s' \<Longrightarrow> same_history s s'"
  by (erule apply_all_history) (rule insert_history(3))

lemma Transition_history: "store_Transition clock t s = Inr (i, q, s') \<Longrightarrow> same_history s s'"
  by (auto simp: store_Transition_def Let_def same_history_def dest!: dependencies_history split: if_splits sum.splits option.splits)

lemma method_history:
  "CreateInstance clock i s = Inr s' \<Longrightarrow> same_history s s'"
  "Advance clock c s = Inr (i, s') \<Longrightarrow> same_history s s'"
  "Claim_ops owner n now leaseFor s = Inr (qs, s') \<Longrightarrow> same_history s s'"
  "RenewOperation k owner now leaseFor s = Inr s' \<Longrightarrow> same_history s s'"
  "Complete_op k owner effect now s = Inr (fresh, s') \<Longrightarrow> same_history s s'"
  "Retry_op clock k owner message available dead s = Inr s' \<Longrightarrow> same_history s s'"
  "same_history s (snd (RecoverExpired now s))"
  "AcquireLease name owner now ttl s = Inr (l, s') \<Longrightarrow> same_history s s'"
  "RenewLease l now ttl s = Inr (l', s') \<Longrightarrow> same_history s s'"
  "ReleaseLease l s = Inr s' \<Longrightarrow> same_history s s'"
  "PutOwnership resource w s = Inr s' \<Longrightarrow> same_history s s'"
  "store_DischargeDeadLetter d s = Inr (outcome, s') \<Longrightarrow> same_history s s'"
  "ResumeCleanup k resource stopped now s = Inr s' \<Longrightarrow> same_history s s'"
proof -
  show "CreateInstance clock i s = Inr s' \<Longrightarrow> same_history s s'" by (auto simp: CreateInstance_def same_history_def Let_def split: if_splits)
  show "Advance clock c s = Inr (i, s') \<Longrightarrow> same_history s s'" by (auto simp: Advance_def same_history_def Let_def split: if_splits sum.splits)
  show "Claim_ops owner n now leaseFor s = Inr (qs, s') \<Longrightarrow> same_history s s'"
    by (auto simp: Claim_ops_def Let_def same_history_def propagate_dead_def dest!: claim_loop_history split: if_splits)
  show "RenewOperation k owner now leaseFor s = Inr s' \<Longrightarrow> same_history s s'" by (auto simp: RenewOperation_def same_history_def Let_def split: if_splits)
  show "Complete_op k owner effect now s = Inr (fresh, s') \<Longrightarrow> same_history s s'"
    by (auto simp: Complete_op_def same_history_def Let_def split: if_splits option.splits)
  show "Retry_op clock k owner message available dead s = Inr s' \<Longrightarrow> same_history s s'" by (auto simp: Retry_op_def same_history_def Let_def split: if_splits)
  show "same_history s (snd (RecoverExpired now s))" by (simp add: RecoverExpired_def same_history_def Let_def)
  show "AcquireLease name owner now ttl s = Inr (l, s') \<Longrightarrow> same_history s s'"
    by (auto simp: AcquireLease_def same_history_def Let_def split: if_splits option.splits)
  show "RenewLease l now ttl s = Inr (l', s') \<Longrightarrow> same_history s s'" by (auto simp: RenewLease_def same_history_def Let_def split: if_splits)
  show "ReleaseLease l s = Inr s' \<Longrightarrow> same_history s s'" by (auto simp: ReleaseLease_def same_history_def split: if_splits)
  show "PutOwnership resource w s = Inr s' \<Longrightarrow> same_history s s'" by (auto simp: PutOwnership_def same_history_def split: if_splits option.splits)
  show "store_DischargeDeadLetter d s = Inr (outcome, s') \<Longrightarrow> same_history s s'"
    by (auto simp: store_DischargeDeadLetter_def reapInstance_def same_history_def Let_def split: if_splits option.splits sum.splits)
  show "ResumeCleanup k resource stopped now s = Inr s' \<Longrightarrow> same_history s s'"
    by (auto simp: ResumeCleanup_def same_history_def Let_def split: if_splits option.splits sum.splits)
qed

definition goes_on :: "store \<Rightarrow> store \<Rightarrow> bool" where
  "goes_on s s' \<longleftrightarrow> (ST_scheduler s \<noteq> None \<longrightarrow> ST_scheduler s' \<noteq> None \<and> version_of s \<le> version_of s')
     \<and> (\<forall>k d. map_of (ST_plans s) k = Some d \<longrightarrow> map_of (ST_plans s') k = Some d)"

lemma same_history_goes_on: "same_history s s' \<Longrightarrow> goes_on s s'"
  by (simp add: same_history_def goes_on_def version_of_def)

lemma ApplyPlan_history:
  assumes "ApplyPlan plan s = Inr (True, s')"
  shows "goes_on s s'" "version_of s' = DP_ExpectedSchedulerVersion plan + 1" "map_of (ST_plans s') (DP_ID plan) = Digest plan" "Digest plan \<noteq> None"
    "DP_Valid plan" "ST_scheduler s' \<noteq> None"
proof -
  obtain digest current s1 s2 s3 row where run: "DP_Valid plan" "Digest plan = Some digest" "map_of (ST_plans s) (DP_ID plan) = None"
    "ST_scheduler s = Some current" "SR_version current = DP_ExpectedSchedulerVersion plan"
    "apply_all (apply_intent (unix_nanos (DP_CreatedAt plan))) (DP_Instances plan) s = Inr s1"
    "apply_all (insertOperation (unix_nanos (DP_CreatedAt plan))) (DP_Operations plan) s1 = Inr s2"
    "apply_all (\<lambda>(operation, dependency). record_dependency operation dependency) (plan_edges plan) s2 = Inr s3"
    and s': "s' = s3\<lparr>ST_scheduler := Some row, ST_plans := ST_plans s3 @ [(DP_ID plan, digest)]\<rparr>" and row: "SR_version row = DS_Version (DP_Scheduler plan)"
    using assms by (elim ApplyPlan_True) auto
  have "same_history s s1" using apply_all_history [OF run(6)] insert_history(1) by blast
  moreover have "same_history s1 s2" using apply_all_history [OF run(7)] insert_history(2) by blast
  moreover have "same_history s2 s3" using apply_all_history [OF run(8)] insert_history(3) by (auto split: prod.splits)
  ultimately have h: "ST_plans s3 = ST_plans s" by (simp add: same_history_def)
  have v: "DS_Version (DP_Scheduler plan) = DP_ExpectedSchedulerVersion plan + 1" using run(1) by (auto simp: DP_Valid_def)
  show "DP_Valid plan" "Digest plan \<noteq> None" "ST_scheduler s' \<noteq> None" "version_of s' = DP_ExpectedSchedulerVersion plan + 1"
    using run(1,2) row v by (simp_all add: s' version_of_def)
  show "map_of (ST_plans s') (DP_ID plan) = Digest plan" "goes_on s s'"
    using h run(2,3,4,5) row v by (auto simp: s' map_add_def goes_on_def version_of_def split: option.splits)
qed

lemma update_binding_history: "update_binding stamp i i' s = Inr s' \<Longrightarrow> same_history s s'"
  by (auto simp: update_binding_def same_history_def split: if_splits)

lemma step_goes_on: "store_step s s' \<Longrightarrow> goes_on s s'"
proof (induction rule: store_step.induct)
  case (ApplyPlan_step plan s fresh s')
  then show ?case using ApplyPlan_history(1) [of plan s s'] ApplyPlan_False [of plan s s'] by (cases fresh) (auto simp: goes_on_def)
next
  case (Reseed_step s)
  then show ?case by (auto simp: ReseedSchedulerState_def goes_on_def split: option.splits)
qed (blast intro: same_history_goes_on Transition_history update_binding_history method_history)+

lemma run_goes_on: "store_step\<^sup>*\<^sup>* s s' \<Longrightarrow> goes_on s s'"
proof (induction rule: rtranclp_induct)
  case (step t u)
  then have "goes_on t u" by (blast intro: step_goes_on)
  with step.IH show ?case unfolding goes_on_def by force
qed (simp add: goes_on_def)

text \<open>
  C6. A plan commits once and fences its rivals. After \<open>ApplyPlan\<close> accepted a plan, applying it again, in any store
  the controllers reach afterwards, reports a repeat and changes nothing; no other plan built on the same or an
  older scheduler version is accepted in any of these stores; and another plan under the same identifier is
  refused.
\<close>

theorem plan_commits_once:
  assumes "ApplyPlan plan s = Inr (True, s')" and "store_step\<^sup>*\<^sup>* s' s''"
  shows "ApplyPlan plan s'' = Inr (False, s'')
    \<and> (\<forall>rival t. DP_ExpectedSchedulerVersion rival \<le> DP_ExpectedSchedulerVersion plan \<longrightarrow> ApplyPlan rival s'' \<noteq> Inr (True, t))
    \<and> (\<forall>rival. DP_ID rival = DP_ID plan \<and> Digest rival \<noteq> Digest plan \<longrightarrow> isl (ApplyPlan rival s''))"
proof (intro conjI allI impI notI)
  note h = ApplyPlan_history [OF assms(1)] and on = run_goes_on [OF assms(2)]
  obtain digest where digest: "Digest plan = Some digest" using h(4) by blast
  have known: "map_of (ST_plans s'') (DP_ID plan) = Some digest" and late: "version_of s'' > DP_ExpectedSchedulerVersion plan" "ST_scheduler s'' \<noteq> None"
    using on h(2,3,6) digest by (auto simp: goes_on_def)
  show "ApplyPlan plan s'' = Inr (False, s'')" using known digest h(5) by (simp add: ApplyPlan_def)
  show False if "DP_ExpectedSchedulerVersion rival \<le> DP_ExpectedSchedulerVersion plan" and run: "ApplyPlan rival s'' = Inr (True, t)" for rival t
  proof -
    obtain current where "ST_scheduler s'' = Some current" "SR_version current = DP_ExpectedSchedulerVersion rival" by (rule ApplyPlan_True [OF run])
    with that(1) late show False by (simp add: version_of_def)
  qed
  show "isl (ApplyPlan rival s'')" if "DP_ID rival = DP_ID plan \<and> Digest rival \<noteq> Digest plan" for rival
    using that known digest by (auto simp: ApplyPlan_def split: option.splits)
qed

theorem plan_commits_once_witness: "\<not> isl (ApplyPlan fx_handoff fx_s0) \<and> ApplyPlan fx_handoff fx_s4 = Inr (False, fx_s4)"
proof -
  have "fst (projr (ApplyPlan fx_handoff fx_s0)) = True" by code_simp
  then have first: "ApplyPlan fx_handoff fx_s0 = Inr (True, fx_s1)" using projr_pair [OF fx_commits(2)] by (metis fx_s1_def)
  have "store_step fx_s1 fx_s2" unfolding fx_s2_def by (rule Claim_step) (rule projr_pair [OF fx_commits(3)])
  moreover have "store_step fx_s2 fx_s3" unfolding fx_s3_def by (rule Complete_step) (rule projr_pair [OF fx_commits(4)])
  moreover have "store_step fx_s3 fx_s4" unfolding fx_s4_def by (rule Claim_step) (rule projr_pair [OF fx_commits(5)])
  ultimately have "store_step\<^sup>*\<^sup>* fx_s1 fx_s4" by (meson converse_rtranclp_into_rtranclp rtranclp.rtrancl_refl)
  then show ?thesis using plan_commits_once [OF first] fx_commits(2) by auto
qed

section \<open>Claims\<close>

definition claimed_by :: "string \<Rightarrow> int \<Rightarrow> op_row \<Rightarrow> bool" where
  "claimed_by owner until r \<longleftrightarrow> OR_status r = OperationClaimed \<and> OR_lease_owner r = owner \<and> OR_lease_until r = until"

definition has_row :: "store \<Rightarrow> string \<Rightarrow> (op_row \<Rightarrow> bool) \<Rightarrow> bool" where
  "has_row s k P \<longleftrightarrow> (\<exists>r \<in> set (ST_operations s). OR_id r = k \<and> P r)"

lemma claim_loop_rows:
  "claim_loop owner stamp until ks s = Inr (qs, s') \<Longrightarrow>
     (\<forall>q \<in> set qs. has_row s (DO_ID q) (free_for_claim stamp) \<and> has_row s' (DO_ID q) (claimed_by owner until))
     \<and> (\<forall>k. has_row s k (claimed_by owner until) \<longrightarrow> has_row s' k (claimed_by owner until))"
proof (induction ks arbitrary: s qs)
  case (Cons k ks)
  let ?m = "\<lambda>r. OR_id r = k \<and> free_for_claim stamp r"
    and ?f = "\<lambda>r. r\<lparr>OR_status := OperationClaimed, OR_lease_owner := owner, OR_lease_until := until, OR_updated_at := stamp\<rparr>"
  show ?case
  proof (cases "sql_count ?m (ST_operations s) = 1")
    case True
    define t where "t = s\<lparr>ST_operations := sql_update ?m ?f (ST_operations s)\<rparr>"
    obtain q qs' where q: "scanOperation (ST_op t k) = Inr q" and rest: "claim_loop owner stamp until ks t = Inr (qs', s')" and qs: "qs = q # qs'"
      using Cons.prems True by (auto simp: Let_def t_def split: sum.splits)
    have prior: "has_row s j (free_for_claim stamp)" if "has_row t j (free_for_claim stamp)" for j
      using that by (auto simp: has_row_def t_def split: if_splits)
    have mono: "has_row t j (claimed_by owner until)" if row: "has_row s j (claimed_by owner until)" for j
    proof -
      obtain r where "r \<in> set (ST_operations s)" "OR_id r = j" "claimed_by owner until r" using row by (auto simp: has_row_def)
      then show ?thesis unfolding has_row_def t_def by (intro bexI [of _ "if ?m r then ?f r else r"]) (auto simp: claimed_by_def)
    qed
    obtain r where r: "r \<in> set (ST_operations s)" "?m r" using True sql_count_pos [of ?m "ST_operations s"] by auto
    then have free: "has_row s k (free_for_claim stamp)" by (auto simp: has_row_def)
    have claimed: "has_row t k (claimed_by owner until)" using r unfolding has_row_def t_def
      by (intro bexI [of _ "?f r"]) (auto simp: claimed_by_def intro!: image_eqI [of _ _ r])
    have first: "DO_ID q = k" using q by (auto simp: scanOperation_def find_Some_iff split: option.splits)
    note tail = Cons.IH [OF rest]
    show ?thesis using tail first free claimed prior mono by (auto simp: qs)
  next
    case False
    with Cons.prems Cons.IH show ?thesis by (simp add: Let_def)
  qed
qed simp

lemma Claim_ops_rows:
  assumes "Claim_ops owner n now leaseFor s = Inr (qs, s')" and "q \<in> set qs"
  shows "has_row s (DO_ID q) (free_for_claim (unix_nanos now))" "has_row s' (DO_ID q) (claimed_by owner (unix_nanos (now + leaseFor)))" "owner \<noteq> []"
proof -
  let ?s = "propagate_dead (unix_nanos now) s"
  obtain ks where loop: "claim_loop owner (unix_nanos now) (unix_nanos (now + leaseFor)) ks ?s = Inr (qs, s')" and "owner \<noteq> []"
    using assms(1) by (auto simp: Claim_ops_def Let_def split: if_splits)
  from claim_loop_rows [OF this(1)] assms(2) have r: "has_row ?s (DO_ID q) (free_for_claim (unix_nanos now))"
    and "has_row s' (DO_ID q) (claimed_by owner (unix_nanos (now + leaseFor)))" by auto
  then show "has_row s' (DO_ID q) (claimed_by owner (unix_nanos (now + leaseFor)))" "owner \<noteq> []" using \<open>owner \<noteq> []\<close> by auto
  from r show "has_row s (DO_ID q) (free_for_claim (unix_nanos now))"
    by (auto simp: has_row_def propagate_dead_def free_for_claim_def split: if_splits)
qed

text \<open>
  What the others commit while worker \<open>a\<close> holds operation \<open>k\<close> with a lease that ends at \<open>until\<close>: every transaction of the
  store but \<open>a\<close>'s own renewal, completion or retry of \<open>k\<close>; a claim and the recovery of expired claims read a clock that has
  not reached the end of the lease.
\<close>

inductive other_step :: "string \<Rightarrow> string \<Rightarrow> int \<Rightarrow> store \<Rightarrow> store \<Rightarrow> bool" for k a until where
  Other_ApplyPlan: "ApplyPlan plan s = Inr (fresh, s') \<Longrightarrow> other_step k a until s s'"
| Other_Reseed: "other_step k a until s (ReseedSchedulerState s)"
| Other_Create: "CreateInstance clock i s = Inr s' \<Longrightarrow> other_step k a until s s'"
| Other_Advance: "Advance clock c s = Inr (i, s') \<Longrightarrow> DO_ID (SC_Settles c) \<noteq> k \<or> DO_LeaseOwner (SC_Settles c) \<noteq> a \<Longrightarrow> other_step k a until s s'"
| Other_Transition: "store_Transition clock t s = Inr (i, q, s') \<Longrightarrow> other_step k a until s s'"
| Other_Claim: "Claim_ops b n now leaseFor s = Inr (qs, s') \<Longrightarrow> unix_nanos now < until \<Longrightarrow> other_step k a until s s'"
| Other_Renew: "RenewOperation k' b now leaseFor s = Inr s' \<Longrightarrow> k' \<noteq> k \<or> b \<noteq> a \<Longrightarrow> other_step k a until s s'"
| Other_Complete: "Complete_op k' b effect now s = Inr (fresh, s') \<Longrightarrow> k' \<noteq> k \<or> b \<noteq> a \<Longrightarrow> other_step k a until s s'"
| Other_Retry: "Retry_op clock k' b message available dead s = Inr s' \<Longrightarrow> k' \<noteq> k \<or> b \<noteq> a \<Longrightarrow> other_step k a until s s'"
| Other_Recover: "unix_nanos now < until \<Longrightarrow> other_step k a until s (snd (RecoverExpired now s))"
| Other_Acquire: "AcquireLease name owner now ttl s = Inr (l, s') \<Longrightarrow> other_step k a until s s'"
| Other_RenewLease: "RenewLease l now ttl s = Inr (l', s') \<Longrightarrow> other_step k a until s s'"
| Other_Release: "ReleaseLease l s = Inr s' \<Longrightarrow> other_step k a until s s'"
| Other_Ownership: "PutOwnership resource w s = Inr s' \<Longrightarrow> other_step k a until s s'"
| Other_Discharge: "store_DischargeDeadLetter d s = Inr (outcome, s') \<Longrightarrow> other_step k a until s s'"
| Other_Binding: "update_binding stamp i i' s = Inr s' \<Longrightarrow> other_step k a until s s'"
| Other_Resume: "ResumeCleanup k' resource stopped now s = Inr s' \<Longrightarrow> other_step k a until s s'"

lemma other_store_step: "other_step k a until s s' \<Longrightarrow> store_step s s'"
  by (induction rule: other_step.induct) (blast intro: store_step.intros)+

text \<open>The row of the claim itself stays in the table.\<close>

lemma stays: "r \<in> set rows \<Longrightarrow> \<not> c r \<Longrightarrow> r \<in> set (sql_update c f rows)"
  by (auto simp: sql_update_def image_iff)

lemma apply_all_stays:
  assumes "apply_all f xs s = Inr s'" and "\<And>x t t'. f x t = Inr t' \<Longrightarrow> set (ST_operations t) \<subseteq> set (ST_operations t')"
  shows "set (ST_operations s) \<subseteq> set (ST_operations s')"
  using assms(1)
proof (induction xs arbitrary: s)
  case (Cons x xs)
  then obtain t where "f x s = Inr t" "apply_all f xs t = Inr s'" by (auto split: sum.splits)
  then show ?case using assms(2) Cons.IH by blast
qed simp

lemma plan_parts_stay:
  "apply_intent stamp x t = Inr t' \<Longrightarrow> set (ST_operations t) \<subseteq> set (ST_operations t')"
  "insertOperation stamp q t = Inr t' \<Longrightarrow> set (ST_operations t) \<subseteq> set (ST_operations t')"
  "record_dependency k d t = Inr t' \<Longrightarrow> set (ST_operations t) \<subseteq> set (ST_operations t')"
  by (auto simp: apply_intent_def insertOperation_def record_dependency_def Let_def split: if_splits option.splits sum.splits)

lemma ApplyPlan_stays: "ApplyPlan plan s = Inr (fresh, s') \<Longrightarrow> set (ST_operations s) \<subseteq> set (ST_operations s')"
proof (cases fresh)
  case True
  assume "ApplyPlan plan s = Inr (fresh, s')"
  with True have "ApplyPlan plan s = Inr (True, s')" by simp
  then obtain digest current s1 s2 s3 where run:
    "apply_all (apply_intent (unix_nanos (DP_CreatedAt plan))) (DP_Instances plan) s = Inr s1"
    "apply_all (insertOperation (unix_nanos (DP_CreatedAt plan))) (DP_Operations plan) s1 = Inr s2"
    "apply_all (\<lambda>(operation, dependency). record_dependency operation dependency) (plan_edges plan) s2 = Inr s3"
    and s': "s' = s3\<lparr>ST_scheduler := Some current, ST_plans := ST_plans s3 @ [(DP_ID plan, digest)]\<rparr>"
    by (elim ApplyPlan_True) blast
  have "set (ST_operations s) \<subseteq> set (ST_operations s1)" by (rule apply_all_stays [OF run(1)]) (rule plan_parts_stay)
  also have "\<dots> \<subseteq> set (ST_operations s2)" by (rule apply_all_stays [OF run(2)]) (rule plan_parts_stay)
  also have "\<dots> \<subseteq> set (ST_operations s3)" by (rule apply_all_stays [OF run(3)]) (auto dest: plan_parts_stay(3) split: prod.splits)
  finally show ?thesis by (simp add: s')
next
  case False
  assume "ApplyPlan plan s = Inr (fresh, s')"
  with False show ?thesis using ApplyPlan_False by auto
qed

lemma Transition_stays: "store_Transition clock t s = Inr (i, q, s') \<Longrightarrow> set (ST_operations s) \<subseteq> set (ST_operations s')"
  by (auto simp: store_Transition_def Let_def dest!: apply_all_stays [OF _ plan_parts_stay(3)] split: if_splits option.splits sum.splits)

lemma Claim_stays:
  assumes "Claim_ops b n now leaseFor s = Inr (qs, s')" and "r \<in> set (ST_operations s)" "claimed_by a until r" "unix_nanos now < until"
  shows "r \<in> set (ST_operations s')"
proof -
  have held: "\<not> free_for_claim (unix_nanos now) r" using assms(3,4) by (simp add: claimed_by_def free_for_claim_def)
  have loop: "claim_loop b (unix_nanos now) e ks t = Inr (qs, s') \<Longrightarrow> r \<in> set (ST_operations t) \<Longrightarrow> r \<in> set (ST_operations s')" for e ks t qs
  proof (induction ks arbitrary: t qs)
    case (Cons x ks)
    then show ?case using held by (auto simp: Let_def stays split: if_splits sum.splits simp del: sql_update_simps)
  qed simp
  have "r \<in> set (ST_operations (propagate_dead (unix_nanos now) s))"
    using assms(2,3) by (auto simp: propagate_dead_def claimed_by_def stays simp del: sql_update_simps)
  then show ?thesis using assms(1) loop by (auto simp: Claim_ops_def Let_def split: if_splits)
qed

lemma others_leave_the_claim:
  assumes "other_step k a until s s'" and ok: "tables_ok s" and r: "r \<in> set (ST_operations s)" "OR_id r = k" and mine: "claimed_by a until r"
  shows "r \<in> set (ST_operations s')"
proof -
  note row = ok r mine
  have this_row: "ST_op s k = Some r" using ST_op_iff [OF ok] r by simp
  from assms(1) show ?thesis
  proof cases
    case (Other_Advance clock c i)
    then show ?thesis using r mine by (auto simp: Advance_def Let_def settle_matches_def claimed_by_def stays split: if_splits sum.splits simp del: sql_update_simps)
  next
    case (Other_Complete k' b effect now fresh)
    have "k' \<noteq> k \<or> s' = s" using Other_Complete this_row mine by (auto simp: Complete_op_def claimed_by_def split: if_splits)
    then show ?thesis using Other_Complete r by (auto simp: Complete_op_def Let_def stays split: if_splits option.splits simp del: sql_update_simps)
  next
    case (Other_Resume k' resource stopped now)
    have "k' \<noteq> k" using Other_Resume this_row mine by (auto simp: ResumeCleanup_def claimed_by_def split: if_splits)
    then show ?thesis using Other_Resume r by (auto simp: ResumeCleanup_def Let_def stays split: if_splits option.splits sum.splits simp del: sql_update_simps)
  next
    case (Other_Discharge d outcome)
    then show ?thesis using r mine
      by (auto simp: store_DischargeDeadLetter_def reapInstance_def claimed_by_def Let_def stays split: if_splits option.splits sum.splits simp del: sql_update_simps)
  next
    case (Other_Claim b n now leaseFor qs)
    then show ?thesis using Claim_stays r mine by blast
  qed (use r mine in \<open>auto dest: ApplyPlan_stays Transition_stays simp: ReseedSchedulerState_def CreateInstance_def RenewOperation_def Retry_op_def RecoverExpired_def AcquireLease_def
      RenewLease_def ReleaseLease_def PutOwnership_def update_binding_def claimed_by_def Let_def stays split: if_splits option.splits simp del: sql_update_simps\<close>)
qed

lemma others_leave_the_claims:
  assumes "(other_step k a until)\<^sup>*\<^sup>* s s'" and "store_ok s" and "r \<in> set (ST_operations s)" "OR_id r = k" "claimed_by a until r"
  shows "store_ok s' \<and> r \<in> set (ST_operations s')"
  using assms(1)
proof (induction rule: rtranclp_induct)
  case (step t u)
  then show ?case using others_leave_the_claim [OF step.hyps(2) store_okD(1) _ assms(4,5)] store_step_keeps [OF other_store_step [OF step.hyps(2)]]
    by (auto simp: keeps_def)
qed (use assms in simp)

lemma claim_holds:
  assumes ok: "tables_ok s" and r: "r \<in> set (ST_operations s)" "OR_id r = k" and mine: "claimed_by a until r"
  shows "unix_nanos later < until \<Longrightarrow> Claim_ops b m later leaseFor s = Inr (qs, s') \<Longrightarrow> k \<notin> DO_ID ` set qs"
    and "b \<noteq> a \<Longrightarrow> isl (Complete_op k b effect later s) \<and> isl (Retry_op clock k b message available dead s) \<and> isl (RenewOperation k b later leaseFor s)"
    and "\<exists>fresh s'. Complete_op k a (OR_effect_key r) later s = Inr (fresh, s')"
proof -
  have row: "ST_op s k = Some r" using ST_op_iff [OF ok] r by simp
  have only: "p = r" if "p \<in> set (ST_operations s)" "OR_id p = k" for p using op_unique [OF ok that(1) r(1)] that(2) r(2) by simp
  show "k \<notin> DO_ID ` set qs" if early: "unix_nanos later < until" and again: "Claim_ops b m later leaseFor s = Inr (qs, s')"
  proof
    assume "k \<in> DO_ID ` set qs"
    then obtain p where "p \<in> set qs" "DO_ID p = k" by auto
    then have "free_for_claim (unix_nanos later) r" using Claim_ops_rows(1) [OF again] only by (fastforce simp: has_row_def)
    with mine early show False by (simp add: free_for_claim_def claimed_by_def)
  qed
  show "\<exists>fresh s'. Complete_op k a (OR_effect_key r) later s = Inr (fresh, s')" using row mine by (simp add: Complete_op_def claimed_by_def Let_def)
  assume other: "b \<noteq> a"
  have none: "sql_count (\<lambda>p. OR_id p = k \<and> OR_status p = OperationClaimed \<and> OR_lease_owner p = b \<and> P p) (ST_operations s) = 0" for P
    using other only mine sql_count_pos [of "\<lambda>p. OR_id p = k \<and> OR_status p = OperationClaimed \<and> OR_lease_owner p = b \<and> P p" "ST_operations s"]
    by (auto simp: claimed_by_def)
  show "isl (Complete_op k b effect later s) \<and> isl (Retry_op clock k b message available dead s) \<and> isl (RenewOperation k b later leaseFor s)"
    using other row mine none [of "\<lambda>_. True"] none [of "\<lambda>p. OR_lease_until p > unix_nanos later"]
    by (auto simp: Complete_op_def Retry_op_def RenewOperation_def claimed_by_def)
qed

text \<open>
  C14. A claimed operation has one worker. Whatever the other workers and controllers commit before the claim's lease runs out,
  recovery of expired claims included, the operation stays claimed by its owner until the same instant, no claim in that time
  returns it, nobody but its owner can complete, retry or renew it, and its owner still can complete it.
\<close>

theorem claims_are_exclusive:
  assumes "store_step\<^sup>*\<^sup>* empty_store s" and "Claim_ops a n now leaseFor s = Inr (qs, s1)" and "q \<in> set qs"
    and "(other_step (DO_ID q) a (unix_nanos (now + leaseFor)))\<^sup>*\<^sup>* s1 s'"
  shows "has_row s' (DO_ID q) (claimed_by a (unix_nanos (now + leaseFor)))
    \<and> (unix_nanos later < unix_nanos (now + leaseFor) \<longrightarrow> Claim_ops b m later leaseFor' s' = Inr (qs', s'') \<longrightarrow> DO_ID q \<notin> DO_ID ` set qs')
    \<and> (b \<noteq> a \<longrightarrow> isl (Complete_op (DO_ID q) b effect later s') \<and> isl (Retry_op clock (DO_ID q) b message available dead s')
          \<and> isl (RenewOperation (DO_ID q) b later leaseFor' s'))
    \<and> (\<exists>own fresh s''. Complete_op (DO_ID q) a own later s' = Inr (fresh, s''))"
proof -
  have "store_step\<^sup>*\<^sup>* empty_store s1" using assms(1) Claim_step [OF assms(2)] by (rule rtranclp.rtrancl_into_rtrancl)
  then have ok: "store_ok s1" by (rule reachable_ok)
  obtain r where r: "r \<in> set (ST_operations s1)" "OR_id r = DO_ID q" "claimed_by a (unix_nanos (now + leaseFor)) r"
    using Claim_ops_rows(2) [OF assms(2,3)] by (auto simp: has_row_def)
  then have kept: "tables_ok s'" "r \<in> set (ST_operations s')" using others_leave_the_claims [OF assms(4) ok r] store_okD(1) by auto
  note held = claim_holds [OF kept r(2,3)]
  show ?thesis using kept(2) r(2,3) held(1) [of later b m leaseFor' qs' s''] held(2) [of b effect later clock message available dead leaseFor'] held(3) [of later]
    unfolding has_row_def by blast
qed

text \<open>Another worker recovers and claims before the lease ends; the operation stays with its worker.\<close>

definition fx_raced :: store where "fx_raced = snd (projr (Claim_ops ''v'' 5 (fx_time + 30 * second) minute (snd (RecoverExpired (fx_time + 20 * second) fx_s2))))"

theorem claims_are_exclusive_witness:
  "map DO_ID (fst (projr (Claim_ops ''w'' 5 (fx_time + second) minute fx_s1))) = [''drain''] \<and> has_row fx_raced ''drain'' (claimed_by ''w'' (unix_nanos (fx_time + second + minute)))
    \<and> isl (Complete_op ''drain'' ''v'' ''deregister:old'' (fx_time + 40 * second) fx_raced)"
proof -
  let ?until = "unix_nanos (fx_time + second + minute)" and ?t = "snd (RecoverExpired (fx_time + 20 * second) fx_s2)"
  have ids: "map DO_ID (fst (projr (Claim_ops ''w'' 5 (fx_time + second) minute fx_s1))) = [''drain'']" by code_simp
  then obtain q where q: "fst (projr (Claim_ops ''w'' 5 (fx_time + second) minute fx_s1)) = [q]" "DO_ID q = ''drain''" by auto
  have first: "Claim_ops ''w'' 5 (fx_time + second) minute fx_s1 = Inr ([q], fx_s2)" using projr_pair [OF fx_commits(3)] q(1) by (metis fx_s2_def)
  have early: "unix_nanos (fx_time + 20 * second) < ?until" "unix_nanos (fx_time + 30 * second) < ?until" by code_simp+
  have "isl (Claim_ops ''v'' 5 (fx_time + 30 * second) minute ?t) = False" by code_simp
  from Other_Claim [OF projr_pair [OF this] early(2)] have "other_step ''drain'' ''w'' ?until ?t fx_raced" by (simp add: fx_raced_def)
  with Other_Recover [OF early(1)] have "(other_step ''drain'' ''w'' ?until)\<^sup>*\<^sup>* fx_s2 fx_raced" by (meson converse_rtranclp_into_rtranclp rtranclp.rtrancl_refl)
  from claims_are_exclusive [OF fx_reachable(2) first, of q fx_raced _ "''v''" _ _ _ _ "''deregister:old''"] this q(2) ids show ?thesis by simp
qed

section \<open>Dead letters and their successors\<close>

text \<open>
  C35. A discharged operation blocks its successors for good: once an operator discharged a dead letter, no
  operation that still depends on it is claimed or completed in any later store, and no claim marks it dead for
  that. A successor that was pending at the discharge stays pending.
\<close>

theorem discharged_prerequisite_blocks:
  assumes "store_step\<^sup>*\<^sup>* empty_store s" and "ST_op s d = Some gone" "OR_status gone = OperationDischarged" "(k, d) \<in> set (ST_dependencies s)"
    and "store_step\<^sup>*\<^sup>* s s'" "ST_op s' k = Some r"
  shows "OR_status r \<noteq> OperationClaimed \<and> OR_status r \<noteq> OperationCompleted \<and> map_option OR_status (ST_op s' d) = Some OperationDischarged"
proof -
  have ok: "store_ok s" "store_ok s'" using reachable_ok assms(1,5) by (blast, metis rtranclp_trans)
  note row = ST_op_iff [OF store_okD(1) [OF ok(1)]] ST_op_iff [OF store_okD(1) [OF ok(2)]]
  have "discharged_op s d" using assms(2,3) row(1) by (auto simp: discharged_op_def)
  then have d: "discharged_op s' d" "(k, d) \<in> set (ST_dependencies s')" using store_run_keeps [OF assms(5)] ok(1) assms(4) by (auto simp: keeps_def)
  then obtain g where g: "ST_op s' d = Some g" "OR_status g = OperationDischarged" using row(2) by (auto simp: discharged_op_def)
  have "\<not> done_op s' d"
  proof
    assume "done_op s' d"
    then obtain p where "ST_op s' d = Some p" "OR_status p = OperationCompleted" using row(2) unfolding done_op_def by blast
    with g show False by simp
  qed
  moreover have "r \<in> set (ST_operations s')" "OR_id r = k" using assms(6) row(2) by auto
  ultimately have "OR_status r \<notin> {OperationClaimed, OperationCompleted}" using store_okD(3) [OF ok(2)] d(2) by (auto simp: prerequisites_done_def)
  with g show ?thesis by simp
qed

definition fx_t1 :: store where "fx_t1 = projr (Retry_op (fx_time + 2 * second) ''drain'' ''w'' ''runner lifecycle failed at persist'' fx_time True fx_s2)"

definition fx_letter :: Discharge where
  "fx_letter = \<lparr>Di_OperationID = ''drain'', Di_InstanceID = ''old'', Di_ReapInstance = True, Di_Reason = ''gone'', Di_At = fx_time + 3 * second\<rparr>"

definition fx_t2 :: store where "fx_t2 = snd (projr (store_DischargeDeadLetter fx_letter fx_t1))"
definition fx_t3 :: store where "fx_t3 = snd (projr (Claim_ops ''w'' 5 (fx_time + 4 * second) minute fx_t2))"

lemma fx_letter_commits:
  "isl (Retry_op (fx_time + 2 * second) ''drain'' ''w'' ''runner lifecycle failed at persist'' fx_time True fx_s2) = False"
  "isl (store_DischargeDeadLetter fx_letter fx_t1) = False"
  "isl (Claim_ops ''w'' 5 (fx_time + 4 * second) minute fx_t2) = False"
  by code_simp+

lemma fx_letter_steps: "store_step\<^sup>*\<^sup>* empty_store fx_t2" "store_step fx_t2 fx_t3"
proof -
  have "store_step fx_s2 fx_t1" unfolding fx_t1_def
    by (rule Retry_step) (use fx_letter_commits(1) in \<open>cases "Retry_op (fx_time + 2 * second) ''drain'' ''w'' ''runner lifecycle failed at persist'' fx_time True fx_s2"; simp\<close>)
  with fx_reachable(3) have "store_step\<^sup>*\<^sup>* empty_store fx_t1" by (rule rtranclp.rtrancl_into_rtrancl)
  moreover have "store_step fx_t1 fx_t2" unfolding fx_t2_def by (rule Discharge_step) (rule projr_pair [OF fx_letter_commits(2)])
  ultimately show "store_step\<^sup>*\<^sup>* empty_store fx_t2" by (rule rtranclp.rtrancl_into_rtrancl)
  show "store_step fx_t2 fx_t3" unfolding fx_t3_def by (rule Claim_step) (rule projr_pair [OF fx_letter_commits(3)])
qed

theorem discharged_prerequisite_blocks_witness:
  "map_option OR_status (ST_op fx_t3 ''clone'') = Some OperationPending \<and> map_option OR_status (ST_op fx_t3 ''drain'') = Some OperationDischarged"
proof -
  have g: "map_option OR_status (ST_op fx_t2 ''drain'') = Some OperationDischarged" "(''clone'', ''drain'') \<in> set (ST_dependencies fx_t2)"
    "map_option OR_status (ST_op fx_t3 ''clone'') = Some OperationPending" by code_simp+
  then obtain gone r where "ST_op fx_t2 ''drain'' = Some gone" "OR_status gone = OperationDischarged" "ST_op fx_t3 ''clone'' = Some r" by auto
  from discharged_prerequisite_blocks [OF fx_letter_steps(1) this(1,2) g(2) r_into_rtranclp [of store_step, OF fx_letter_steps(2)] this(3)] g(3)
  show ?thesis by simp
qed

section \<open>An aborted drain\<close>

lemma count_one_id:
  assumes "sql_count P rows = 1" and "distinct (map key rows)" and "\<And>r. P r \<Longrightarrow> key r = k" and "r \<in> set rows" "key r = k"
  shows "P r"
proof -
  obtain p where "p \<in> set rows" "P p" using assms(1) sql_count_pos [of P rows] by auto
  with assms(2-5) have "p = r" by (auto simp: distinct_map inj_on_def)
  with \<open>P p\<close> show ?thesis by simp
qed

lemma Advance_settles:
  assumes "Advance clock c s = Inr (i, s')" and "DO_ID (SC_Settles c) \<noteq> []" and ok: "tables_ok s"
  shows "ST_dependencies s' = ST_dependencies s" "DI_State i = SC_NextState c"
    and "r \<in> set (ST_operations s') \<Longrightarrow> OR_id r = DO_ID (SC_Settles c) \<Longrightarrow> OR_status r = OperationCompleted"
    and "r \<in> set (ST_operations s) \<Longrightarrow> OR_id r \<noteq> DO_ID (SC_Settles c) \<Longrightarrow> r \<in> set (ST_operations s')"
proof -
  let ?m = "change_matches (SC_InstanceID c) (SC_ExpectedState c) (SC_ExpectedVersion c)" and ?t = "unix_nanos clock"
  let ?f = "\<lambda>r. r\<lparr>IR_state := SC_NextState c, IR_version := IR_version r + 1, IR_last_error := SC_FailureCode c, IR_updated_at := ?t\<rparr>"
  let ?g = "\<lambda>r. r\<lparr>OR_status := OperationCompleted, OR_lease_owner := [], OR_lease_until := 0, OR_last_error := SC_Outcome c, OR_updated_at := ?t\<rparr>"
  have one: "sql_count ?m (ST_instances s) = 1" "sql_count (settle_matches c) (ST_operations s) = 1"
    and ops: "ST_operations s' = sql_update (settle_matches c) ?g (ST_operations s)" and inst: "ST_instances s' = sql_update ?m ?f (ST_instances s)"
    and deps: "ST_dependencies s' = ST_dependencies s" and scan: "scanInstance (ST_inst s' (SC_InstanceID c)) = Inr i"
    using assms(1,2) unfolding Advance_def Let_def store_Instance_def by (auto split: if_splits sum.splits)
  show "ST_dependencies s' = ST_dependencies s" by (rule deps)
  have settled: "settle_matches c p" if "p \<in> set (ST_operations s)" "OR_id p = DO_ID (SC_Settles c)" for p
    using count_one_id [OF one(2), of OR_id "DO_ID (SC_Settles c)" p] ok that by (auto simp: tables_ok_def settle_matches_def)
  show "OR_status r = OperationCompleted" if "r \<in> set (ST_operations s')" "OR_id r = DO_ID (SC_Settles c)" for r
    using that settled by (auto simp: ops split: if_splits)
  show "r \<in> set (ST_operations s')" if "r \<in> set (ST_operations s)" "OR_id r \<noteq> DO_ID (SC_Settles c)" for r
    using that by (auto simp: ops settle_matches_def intro!: image_eqI [of _ _ r])
  obtain row where row: "ST_inst s' (SC_InstanceID c) = Some row" "DI_State i = IR_state row" using scan by (auto simp: scanInstance_def split: option.splits sum.splits)
  then have "row \<in> set (ST_instances s')" "IR_id row = SC_InstanceID c" by (auto simp: find_Some_iff)
  then obtain p where p: "p \<in> set (ST_instances s)" "row = (if ?m p then ?f p else p)" by (auto simp: inst)
  with \<open>IR_id row = _\<close> have "IR_id p = SC_InstanceID c" by (auto split: if_splits)
  then have "?m p" using count_one_id [OF one(1), of IR_id "SC_InstanceID c" p] ok p(1) by (auto simp: tables_ok_def change_matches_def)
  then show "DI_State i = SC_NextState c" using p(2) row(2) by simp
qed

text \<open>
  Aborting a drain releases what waited for it. When \<open>Advance\<close> rolls an instance back to running and settles the
  drain operation in the same transaction, an operation that waited only for that drain can be claimed at
  once, while the instance it was to replace runs on.
\<close>

theorem aborted_drain_releases:
  assumes "store_step\<^sup>*\<^sup>* empty_store s" and abort: "Advance clock c s = Inr (i, s')" "SC_NextState c = InstanceRunning"
    and drain: "DO_ID (SC_Settles c) = d" "d \<noteq> []" "k \<noteq> d"
    and r: "ST_op s k = Some r" "OR_status r = OperationPending" "OR_available_at r \<le> unix_nanos now"
    and waits: "\<And>p. (k, p) \<in> set (ST_dependencies s) \<Longrightarrow> p = d"
  shows "DI_State i = InstanceRunning \<and> ST_op s' k = Some r \<and> claimable (unix_nanos now) s' r"
proof -
  have ok: "tables_ok s" using reachable_ok [OF assms(1)] by (rule store_okD(1))
  have "store_step\<^sup>*\<^sup>* empty_store s'" using assms(1) Advance_step [OF abort(1)] by (rule rtranclp.rtrancl_into_rtrancl)
  then have ok': "tables_ok s'" using reachable_ok store_okD(1) by blast
  have row: "r \<in> set (ST_operations s)" "OR_id r = k" using r(1) ST_op_iff [OF ok] by auto
  note settles = Advance_settles [OF abort(1) _ ok, unfolded drain(1), OF drain(2)]
  have "ST_op s' k = Some r" using settles(4) [OF row(1)] row(2) drain(3) ST_op_iff [OF ok'] by auto
  moreover have "prerequisites_met s' r" using settles(1,3) waits row(2) by (force simp: prerequisites_met_def list_ex_iff)
  ultimately show ?thesis using settles(2) abort(2) r(2,3) by (simp add: claimable_def free_for_claim_def)
qed

definition fx_abort :: StateChange where
  "fx_abort = \<lparr>SC_InstanceID = ''old'', SC_ExpectedState = InstanceDraining, SC_ExpectedVersion = 1, SC_NextState = InstanceRunning, SC_FailureCode = [],
     SC_Settles = zero_DurableOperation\<lparr>DO_ID := ''drain'', DO_LeaseOwner := ''w''\<rparr>, SC_Outcome = ''aborted:runner_busy''\<rparr>"

theorem aborted_drain_releases_witness: "\<exists>i s' r. Advance (fx_time + 2 * second) fx_abort fx_s2 = Inr (i, s') \<and> DI_State i = InstanceRunning
  \<and> ST_op s' ''clone'' = Some r \<and> claimable (unix_nanos (fx_time + 3 * second)) s' r"
proof -
  have "isl (Advance (fx_time + 2 * second) fx_abort fx_s2) = False" by code_simp
  then obtain i s' where run: "Advance (fx_time + 2 * second) fx_abort fx_s2 = Inr (i, s')" by (cases "Advance (fx_time + 2 * second) fx_abort fx_s2") auto
  have "map_option (\<lambda>r. (OR_status r, OR_available_at r)) (ST_op fx_s2 ''clone'') = Some (OperationPending, 1000 * second)"
    "ST_dependencies fx_s2 = [(''clone'', ''drain'')]" "1000 * second \<le> unix_nanos (fx_time + 3 * second)" by code_simp+
  then obtain r where "ST_op fx_s2 ''clone'' = Some r" "OR_status r = OperationPending" "OR_available_at r \<le> unix_nanos (fx_time + 3 * second)"
    "\<And>p. (''clone'', p) \<in> set (ST_dependencies fx_s2) \<Longrightarrow> p = ''drain''" by auto
  from aborted_drain_releases [OF fx_reachable(3) run _ _ _ _ this] run show ?thesis by (auto simp: fx_abort_def)
qed

end
