(* ===== verification/Authority.thy ===== *)
theory Authority
  imports Outbox_Safety
begin

text \<open>
  The guard of the controller authority (\<open>acquireAuthorityLease\<close> and the renewal loop of
  \<open>internal/daemon/runtime.go\<close>) over the leases table of the durable store.
\<close>

section \<open>The guard of the controller authority\<close>

definition authorityLeaseName :: string where "authorityLeaseName = ''tart-runner-fleet-authority''"
definition authorityLeaseTTL :: duration where "authorityLeaseTTL = 30 * second"
definition authorityLeaseRenewInterval :: duration where "authorityLeaseRenewInterval = 10 * second"
definition authorityLeaseAcquireWindow :: duration where "authorityLeaseAcquireWindow = authorityLeaseTTL * 3 div 2"
definition authorityLeaseAcquireRetry :: duration where "authorityLeaseAcquireRetry = second"
definition authorityLeaseRenewRetry :: duration where "authorityLeaseRenewRetry = 2 * second"

lemmas authority_constants = authorityLeaseTTL_def authorityLeaseRenewInterval_def authorityLeaseAcquireWindow_def
  authorityLeaseAcquireRetry_def authorityLeaseRenewRetry_def

text \<open>
  The loop that acquires the lease, over what each turn reads: the instant of the attempt, the instant compared with
  the deadline, and the store the attempt meets. \<open>None\<close> is a turn that was not reached before the context ended.
\<close>

fun acquireAuthorityLease :: "string \<Rightarrow> time \<Rightarrow> (time \<times> time \<times> store) list \<Rightarrow> (ControllerLease \<times> store) outcome option" where
  "acquireAuthorityLease owner deadline [] = None"
| "acquireAuthorityLease owner deadline ((now, after', s) # turns) =
     (case AcquireLease authorityLeaseName owner now authorityLeaseTTL s of
        Inl ErrLeaseHeld \<Rightarrow> if \<not> after' < deadline then Some (Inl ErrLeaseHeld) else acquireAuthorityLease owner deadline turns
      | result \<Rightarrow> Some result)"

definition nextRenewal :: "time \<Rightarrow> time \<Rightarrow> duration" where
  "nextRenewal now expiresAt = max 0 (time_Sub (expiresAt + (authorityLeaseRenewInterval - authorityLeaseTTL)) now)"

definition renewRetryFits :: "time \<Rightarrow> time \<Rightarrow> bool" where
  "renewRetryFits now expiresAt \<longleftrightarrow> now + authorityLeaseRenewRetry < expiresAt"

definition transientRenewFailure :: "OpError \<Rightarrow> bool" where
  "transientRenewFailure err \<longleftrightarrow> err \<noteq> ErrLeaseLost \<and> err \<noteq> ErrInvalid"

text \<open>One turn of the renewal loop: the lease it holds on with and the delay before the next turn, or the error it reports.\<close>

definition renew_turn :: "time \<Rightarrow> time \<Rightarrow> ControllerLease \<Rightarrow> (ControllerLease \<times> store) outcome \<Rightarrow> OpError + ControllerLease \<times> duration" where
  "renew_turn began finished lease result =
     (if time_Sub (Le_ExpiresAt lease) began \<le> 0 then Inl ErrLeaseLost
      else (case result of
        Inr (renewed, _) \<Rightarrow> Inr (renewed, nextRenewal finished (Le_ExpiresAt renewed))
      | Inl err \<Rightarrow> if \<not> transientRenewFailure err \<or> \<not> renewRetryFits finished (Le_ExpiresAt lease) then Inl err
                   else Inr (lease, authorityLeaseRenewRetry)))"

section \<open>Controllers on one store\<close>

datatype guard = GuardIdle | GuardWaiting time | GuardHolds ControllerLease | GuardLost OpError

record controllers =
  Cs_clock :: time
  Cs_store :: store
  Cs_guard :: "string \<Rightarrow> guard"

text \<open>
  What the guards of any number of controllers do to one store, each under its own owner name. A transaction may
  commit later than the instant it was given, and it may commit and still be reported as failed; \<open>horizon\<close> keeps the instants in the range of the table's 64-bit counts.
\<close>

definition horizon :: time where "horizon = unix_epoch + 2 ^ 63 - 1 - authorityLeaseTTL"

definition reading :: "controllers \<Rightarrow> time \<Rightarrow> bool" where
  "reading w t \<longleftrightarrow> unix_epoch \<le> t \<and> t \<le> Cs_clock w"

text \<open>A guard reads its clock after the instant the lease it holds was stamped with.\<close>

definition reading_on :: "controllers \<Rightarrow> ControllerLease \<Rightarrow> time \<Rightarrow> bool" where
  "reading_on w l t \<longleftrightarrow> reading w t \<and> Le_ExpiresAt l - authorityLeaseTTL \<le> t"

inductive authority_step :: "controllers \<Rightarrow> controllers \<Rightarrow> bool" where
  tick: "Cs_clock w \<le> t \<Longrightarrow> t \<le> horizon \<Longrightarrow> authority_step w (w\<lparr>Cs_clock := t\<rparr>)"
| start: "Cs_guard w a = GuardIdle \<Longrightarrow> reading w t \<Longrightarrow>
    authority_step w (w\<lparr>Cs_guard := (Cs_guard w)(a := GuardWaiting (t + authorityLeaseAcquireWindow))\<rparr>)"
| acquire: "Cs_guard w a = GuardWaiting deadline \<Longrightarrow> reading w t \<Longrightarrow> reading w t' \<Longrightarrow>
    acquireAuthorityLease a deadline [(t, t, Cs_store w)] = Some (Inr (l, s')) \<Longrightarrow>
    authority_step w (w\<lparr>Cs_store := snd (RecoverExpired t' s'), Cs_guard := (Cs_guard w)(a := GuardHolds l)\<rparr>)"
| acquire_unconfirmed: "Cs_guard w a = GuardWaiting deadline \<Longrightarrow> reading w t \<Longrightarrow>
    AcquireLease authorityLeaseName a t authorityLeaseTTL (Cs_store w) = Inr (l, s') \<Longrightarrow>
    authority_step w (w\<lparr>Cs_store := s', Cs_guard := (Cs_guard w)(a := GuardIdle)\<rparr>)"
| give_up: "Cs_guard w a = GuardWaiting deadline \<Longrightarrow> authority_step w (w\<lparr>Cs_guard := (Cs_guard w)(a := GuardIdle)\<rparr>)"
| renew: "Cs_guard w a = GuardHolds l \<Longrightarrow> reading_on w l began \<Longrightarrow> reading w finished \<Longrightarrow>
    RenewLease l began authorityLeaseTTL (Cs_store w) = Inr (l', s') \<Longrightarrow>
    renew_turn began finished l (Inr (l', s')) = Inr (held, delay) \<Longrightarrow>
    authority_step w (w\<lparr>Cs_store := s', Cs_guard := (Cs_guard w)(a := GuardHolds held)\<rparr>)"
| renew_fails: "Cs_guard w a = GuardHolds l \<Longrightarrow> reading_on w l began \<Longrightarrow> reading w finished \<Longrightarrow>
    renew_turn began finished l (Inl e) = Inr (held, delay) \<Longrightarrow>
    authority_step w (w\<lparr>Cs_guard := (Cs_guard w)(a := GuardHolds held)\<rparr>)"
| renew_unconfirmed: "Cs_guard w a = GuardHolds l \<Longrightarrow> reading_on w l began \<Longrightarrow> reading w finished \<Longrightarrow>
    RenewLease l began authorityLeaseTTL (Cs_store w) = Inr (l', s') \<Longrightarrow> renew_turn began finished l (Inl e) = Inr (held, delay) \<Longrightarrow>
    authority_step w (w\<lparr>Cs_store := s', Cs_guard := (Cs_guard w)(a := GuardHolds held)\<rparr>)"
| surrender: "Cs_guard w a = GuardHolds l \<Longrightarrow> reading_on w l began \<Longrightarrow> reading w finished \<Longrightarrow>
    renew_turn began finished l result = Inl e \<Longrightarrow> authority_step w (w\<lparr>Cs_guard := (Cs_guard w)(a := GuardLost e)\<rparr>)"
| close: "Cs_guard w a = GuardHolds l \<Longrightarrow> ReleaseLease l (Cs_store w) = Inr s' \<Longrightarrow>
    authority_step w (w\<lparr>Cs_store := s', Cs_guard := (Cs_guard w)(a := GuardIdle)\<rparr>)"
| work: "store_step (Cs_store w) s' \<Longrightarrow> ST_leases s' = ST_leases (Cs_store w) \<Longrightarrow> authority_step w (w\<lparr>Cs_store := s'\<rparr>)"

text \<open>A controller has authority while the lease its guard holds has not run out.\<close>

definition has_authority :: "controllers \<Rightarrow> string \<Rightarrow> bool" where
  "has_authority w a \<longleftrightarrow> (case Cs_guard w a of GuardHolds l \<Rightarrow> Cs_clock w < Le_ExpiresAt l | _ \<Rightarrow> False)"

definition initial_controllers :: "time \<Rightarrow> controllers" where
  "initial_controllers t = \<lparr>Cs_clock = t, Cs_store = empty_store, Cs_guard = (\<lambda>_. GuardIdle)\<rparr>"

section \<open>One authority\<close>

definition in_range :: "time \<Rightarrow> bool" where
  "in_range t \<longleftrightarrow> unix_epoch \<le> t \<and> t \<le> unix_epoch + 2 ^ 63 - 1"

lemma unix_nanos_less: "in_range t \<Longrightarrow> in_range u \<Longrightarrow> unix_nanos t \<le> unix_nanos u \<longleftrightarrow> t \<le> u"
  by (simp add: in_range_def unix_nanos_def wrap64_def)

text \<open>What a guard holds the table knows, for as long as it counts.\<close>

definition lease_backed :: "controllers \<Rightarrow> string \<Rightarrow> ControllerLease \<Rightarrow> bool" where
  "lease_backed w a l \<longleftrightarrow> Le_Name l = authorityLeaseName \<and> Le_Owner l = a \<and> in_range (Le_ExpiresAt l)
     \<and> (Cs_clock w < Le_ExpiresAt l \<longrightarrow>
        (\<exists>r \<in> set (ST_leases (Cs_store w)). lease_row_matches l r \<and> unix_nanos (Le_ExpiresAt l) \<le> LR_expires_at r))"

definition authority_ok :: "controllers \<Rightarrow> bool" where
  "authority_ok w \<longleftrightarrow> unix_epoch \<le> Cs_clock w \<and> Cs_clock w \<le> horizon \<and> distinct (map LR_name (ST_leases (Cs_store w)))
     \<and> (\<forall>a l. Cs_guard w a = GuardHolds l \<longrightarrow> lease_backed w a l)"


lemma lease_unique: "distinct (map LR_name rows) \<Longrightarrow> r \<in> set rows \<Longrightarrow> r' \<in> set rows \<Longrightarrow> LR_name r = LR_name r' \<Longrightarrow> r = r'"
  by (auto simp: distinct_map inj_on_def)

lemma AcquireLease_row:
  assumes "AcquireLease name a now ttl s = Inr (l, s')" and "distinct (map LR_name (ST_leases s))"
  shows "l = \<lparr>Le_Name = name, Le_Owner = a, Le_Token = Le_Token l, Le_ExpiresAt = now + ttl\<rparr>"
    and "\<lparr>LR_name = name, LR_owner = a, LR_token = Le_Token l, LR_expires_at = unix_nanos (now + ttl)\<rparr> \<in> set (ST_leases s')"
    and "distinct (map LR_name (ST_leases s'))"
    and "r \<in> set (ST_leases s) \<Longrightarrow> LR_name r = name \<Longrightarrow> LR_expires_at r \<le> unix_nanos now \<or> LR_owner r = a"
    and "r \<in> set (ST_leases s) \<Longrightarrow> LR_name r \<noteq> name \<Longrightarrow> r \<in> set (ST_leases s')"
proof -
  show "l = \<lparr>Le_Name = name, Le_Owner = a, Le_Token = Le_Token l, Le_ExpiresAt = now + ttl\<rparr>"
    using assms(1) by (auto simp: AcquireLease_def Let_def split: if_splits option.splits)
  show "distinct (map LR_name (ST_leases s'))"
    using assms by (auto simp: AcquireLease_def Let_def map_LR_name_update find_None_iff split: if_splits option.splits)
  show "\<lparr>LR_name = name, LR_owner = a, LR_token = Le_Token l, LR_expires_at = unix_nanos (now + ttl)\<rparr> \<in> set (ST_leases s')"
  proof (cases "find (\<lambda>r. LR_name r = name) (ST_leases s)")
    case None
    with assms(1) show ?thesis by (auto simp: AcquireLease_def Let_def split: if_splits)
  next
    case (Some r)
    then have "r \<in> set (ST_leases s)" "LR_name r = name" by (auto simp: find_Some_iff)
    with Some assms(1) show ?thesis by (auto simp: AcquireLease_def Let_def split: if_splits intro!: image_eqI [of _ _ r])
  qed
  show "LR_expires_at r \<le> unix_nanos now \<or> LR_owner r = a" if r: "r \<in> set (ST_leases s)" "LR_name r = name" for r
  proof -
    obtain q where q: "find (\<lambda>r. LR_name r = name) (ST_leases s) = Some q" using r by (cases "find (\<lambda>r. LR_name r = name) (ST_leases s)") (auto simp: find_None_iff)
    then have "q = r" using lease_unique [OF assms(2)] r by (auto simp: find_Some_iff)
    with q assms(1) show ?thesis by (auto simp: AcquireLease_def Let_def split: if_splits)
  qed
  show "r \<in> set (ST_leases s')" if "r \<in> set (ST_leases s)" "LR_name r \<noteq> name" for r
    using that assms(1) by (auto simp: AcquireLease_def Let_def split: if_splits option.splits intro!: image_eqI [of _ _ r])
qed

lemma RenewLease_row:
  assumes "RenewLease l now ttl s = Inr (l', s')"
  shows "l' = l\<lparr>Le_ExpiresAt := now + ttl\<rparr>" and "map LR_name (ST_leases s') = map LR_name (ST_leases s)"
    and "r \<in> set (ST_leases s) \<Longrightarrow> \<not> lease_row_matches l r \<Longrightarrow> r \<in> set (ST_leases s')"
    and "\<exists>r \<in> set (ST_leases s). lease_row_matches l r \<and> unix_nanos now < LR_expires_at r \<and> r\<lparr>LR_expires_at := unix_nanos (now + ttl)\<rparr> \<in> set (ST_leases s')"
proof -
  let ?m = "\<lambda>r. lease_row_matches l r \<and> LR_expires_at r > unix_nanos now"
  have run: "l' = l\<lparr>Le_ExpiresAt := now + ttl\<rparr>" "sql_count ?m (ST_leases s) = 1"
    "ST_leases s' = sql_update ?m (\<lambda>r. r\<lparr>LR_expires_at := unix_nanos (now + ttl)\<rparr>) (ST_leases s)"
    using assms by (auto simp: RenewLease_def Let_def split: if_splits)
  then show "l' = l\<lparr>Le_ExpiresAt := now + ttl\<rparr>" "map LR_name (ST_leases s') = map LR_name (ST_leases s)"
    "r \<in> set (ST_leases s) \<Longrightarrow> \<not> lease_row_matches l r \<Longrightarrow> r \<in> set (ST_leases s')" for r
    by (auto simp: map_LR_name_update intro!: image_eqI [of _ _ r])
  obtain r where "r \<in> set (ST_leases s)" "?m r" using run(2) sql_count_pos [of ?m "ST_leases s"] by auto
  then show "\<exists>r \<in> set (ST_leases s). lease_row_matches l r \<and> unix_nanos now < LR_expires_at r \<and> r\<lparr>LR_expires_at := unix_nanos (now + ttl)\<rparr> \<in> set (ST_leases s')"
    using run(3) by (intro bexI [of _ r]) auto
qed

lemma reading_range:
  assumes "authority_ok w" "reading w t"
  shows "in_range t" "in_range (t + authorityLeaseTTL)" "in_range (Cs_clock w)" "unix_nanos t \<le> unix_nanos (Cs_clock w)"
proof -
  show r: "in_range t" "in_range (t + authorityLeaseTTL)" "in_range (Cs_clock w)"
    using assms by (auto simp: authority_ok_def reading_def in_range_def horizon_def authorityLeaseTTL_def)
  show "unix_nanos t \<le> unix_nanos (Cs_clock w)" using unix_nanos_less [OF r(1,3)] assms(2) by (simp add: reading_def)
qed

lemma acquire_keeps:
  assumes ok: "authority_ok w" and t: "reading w t" and run: "AcquireLease authorityLeaseName a t authorityLeaseTTL (Cs_store w) = Inr (l, s')"
    and leases: "ST_leases s'' = ST_leases s'" and g: "g = GuardHolds l \<or> g = GuardIdle"
  shows "authority_ok (w\<lparr>Cs_store := s'', Cs_guard := (Cs_guard w)(a := g)\<rparr>)"
proof -
  have d: "distinct (map LR_name (ST_leases (Cs_store w)))" using ok by (simp add: authority_ok_def)
  note row = AcquireLease_row [OF run d] and range = reading_range [OF ok t]
  have "lease_backed (w\<lparr>Cs_store := s'', Cs_guard := G\<rparr>) b l'" if b: "b \<noteq> a" "Cs_guard w b = GuardHolds l'" for b l' G
  proof -
    have backed: "lease_backed w b l'" using ok b(2) by (auto simp: authority_ok_def)
    have "\<not> Cs_clock w < Le_ExpiresAt l'"
    proof
      assume live: "Cs_clock w < Le_ExpiresAt l'"
      then obtain r where r: "r \<in> set (ST_leases (Cs_store w))" "lease_row_matches l' r" "unix_nanos (Le_ExpiresAt l') \<le> LR_expires_at r"
        using backed by (auto simp: lease_backed_def)
      then have "LR_expires_at r \<le> unix_nanos (Cs_clock w)"
        using row(4) [OF r(1)] backed b(1) range(4) by (auto simp: lease_backed_def lease_row_matches_def)
      with r(3) have "Le_ExpiresAt l' \<le> Cs_clock w" using unix_nanos_less [of "Le_ExpiresAt l'" "Cs_clock w"] backed range(3) by (auto simp: lease_backed_def)
      with live show False by simp
    qed
    with backed show ?thesis by (simp add: lease_backed_def)
  qed
  moreover have "lease_backed (w\<lparr>Cs_store := s'', Cs_guard := G\<rparr>) a l" for G
  proof -
    have "Le_Name l = authorityLeaseName" "Le_Owner l = a" "Le_ExpiresAt l = t + authorityLeaseTTL" by (subst row(1), simp)+
    then show ?thesis using row(2) range(2) by (auto simp: lease_backed_def leases lease_row_matches_def intro!: bexI [OF _ row(2)])
  qed
  ultimately show ?thesis using ok row(3) g by (auto simp: authority_ok_def leases)
qed

lemma backed_elsewhere:
  assumes ok: "authority_ok w" and l: "lease_backed w a l" and b: "b \<noteq> a" "Cs_guard w b = GuardHolds l'"
    and rest: "\<And>r. r \<in> set (ST_leases (Cs_store w)) \<Longrightarrow> \<not> lease_row_matches l r \<Longrightarrow> r \<in> set (ST_leases s')"
  shows "lease_backed (w\<lparr>Cs_store := s', Cs_guard := G\<rparr>) b l'"
proof -
  have backed: "lease_backed w b l'" using ok b(2) by (auto simp: authority_ok_def)
  have "\<not> lease_row_matches l r" if "lease_row_matches l' r" for r using that backed l b(1) by (auto simp: lease_backed_def lease_row_matches_def)
  with backed rest show ?thesis by (auto simp: lease_backed_def)
qed

lemma renew_keeps:
  assumes ok: "authority_ok w" and l: "Cs_guard w a = GuardHolds l" and t: "reading w t"
    and run: "RenewLease l t authorityLeaseTTL (Cs_store w) = Inr (l', s')" and held: "held = l' \<or> held = l \<and> Le_ExpiresAt l \<le> t + authorityLeaseTTL"
  shows "authority_ok (w\<lparr>Cs_store := s', Cs_guard := (Cs_guard w)(a := GuardHolds held)\<rparr>)"
proof -
  note row = RenewLease_row [OF run] and range = reading_range [OF ok t]
  have backed: "lease_backed w a l" using ok l by (auto simp: authority_ok_def)
  then have bl: "Le_Name l = authorityLeaseName" "Le_Owner l = a" "in_range (Le_ExpiresAt l)" by (simp_all add: lease_backed_def)
  have "lease_backed (w\<lparr>Cs_store := s', Cs_guard := G\<rparr>) b m" if "b \<noteq> a" "Cs_guard w b = GuardHolds m" for b m G
    using backed_elsewhere [OF ok backed that] row(3) by blast
  moreover have "lease_backed (w\<lparr>Cs_store := s', Cs_guard := G\<rparr>) a held" for G
  proof -
    obtain r where r: "lease_row_matches l r" "r\<lparr>LR_expires_at := unix_nanos (t + authorityLeaseTTL)\<rparr> \<in> set (ST_leases s')" using row(4) by blast
    have "unix_nanos (Le_ExpiresAt held) \<le> unix_nanos (t + authorityLeaseTTL)"
      using held unix_nanos_less [OF bl(3) range(2)] row(1) by auto
    then show ?thesis using r held row(1) bl range(2) by (auto simp: lease_backed_def lease_row_matches_def intro!: bexI [OF _ r(2)])
  qed
  ultimately show ?thesis using ok row(2) by (auto simp: authority_ok_def)
qed

lemma close_keeps:
  assumes ok: "authority_ok w" and l: "Cs_guard w a = GuardHolds l" and run: "ReleaseLease l (Cs_store w) = Inr s'" and g: "\<And>m. g \<noteq> GuardHolds m"
  shows "authority_ok (w\<lparr>Cs_store := s', Cs_guard := (Cs_guard w)(a := g)\<rparr>)"
proof -
  have s': "ST_leases s' = filter (\<lambda>r. \<not> lease_row_matches l r) (ST_leases (Cs_store w))" using run by (auto simp: ReleaseLease_def split: if_splits)
  have backed: "lease_backed w a l" using ok l by (auto simp: authority_ok_def)
  have "lease_backed (w\<lparr>Cs_store := s', Cs_guard := G\<rparr>) b m" if "b \<noteq> a" "Cs_guard w b = GuardHolds m" for b m G
    using backed_elsewhere [OF ok backed that] by (simp add: s')
  then show ?thesis using ok g by (auto simp: authority_ok_def s' distinct_map_filterI)
qed

lemma guard_keeps:
  assumes "authority_ok w" and "\<And>m. g = GuardHolds m \<Longrightarrow> Cs_guard w a = GuardHolds m"
  shows "authority_ok (w\<lparr>Cs_guard := (Cs_guard w)(a := g)\<rparr>)"
  using assms by (auto simp: authority_ok_def lease_backed_def)

lemma renew_turn_Inr:
  "renew_turn began finished l (Inl e) = Inr (held, delay) \<Longrightarrow> held = l"
  "renew_turn began finished l (Inr (l', s')) = Inr (held, delay) \<Longrightarrow> held = l'"
  by (auto simp: renew_turn_def split: if_splits)

lemma RecoverExpired_leases [simp]: "ST_leases (snd (RecoverExpired t s)) = ST_leases s"
  by (simp add: RecoverExpired_def Let_def)

lemma acquire_one: "acquireAuthorityLease a deadline [(t, t', s)] = Some (Inr (l, s')) \<Longrightarrow> AcquireLease authorityLeaseName a t authorityLeaseTTL s = Inr (l, s')"
  by (auto split: sum.splits OpError.splits if_splits)

lemma acquire_first: "AcquireLease authorityLeaseName a t authorityLeaseTTL s = Inr x \<Longrightarrow> acquireAuthorityLease a deadline ((t, t', s) # turns) = Some (Inr x)"
  by simp

lemma authority_step_ok: "authority_step w w' \<Longrightarrow> authority_ok w \<Longrightarrow> authority_ok w'"
proof (induction rule: authority_step.induct)
  case (tick w t)
  then show ?case by (auto simp: authority_ok_def lease_backed_def)
next
  case (acquire w a deadline t t' l s')
  then show ?case using acquire_keeps [OF acquire(5) acquire(2) acquire_one [OF acquire(4)]] by simp
next
  case (acquire_unconfirmed w a deadline t l s')
  then show ?case using acquire_keeps [OF _ acquire_unconfirmed(2,3)] by simp
next
  case (renew w a l began finished l' s' held delay)
  then show ?case using renew_keeps [of w a l began l' s' held] renew_turn_Inr(2) by (auto simp: reading_on_def)
next
  case (renew_unconfirmed w a l began finished l' s' e held delay)
  then show ?case using renew_keeps [of w a l began l' s' held] renew_turn_Inr(1) by (auto simp: reading_on_def)
next
  case (renew_fails w a l began finished e held delay)
  then have "held = l" using renew_turn_Inr(1) by blast
  with renew_fails show ?case by (auto intro!: guard_keeps)
next
  case (close w a l s')
  then show ?case using close_keeps by simp
next
  case (work w s')
  then show ?case by (auto simp: authority_ok_def lease_backed_def)
qed (auto intro!: guard_keeps)

lemma authority_run_ok: "authority_step\<^sup>*\<^sup>* (initial_controllers t) w \<Longrightarrow> unix_epoch \<le> t \<Longrightarrow> t \<le> horizon \<Longrightarrow> authority_ok w"
proof (induction rule: rtranclp_induct)
  case base
  then show ?case by (simp add: initial_controllers_def authority_ok_def empty_store_def)
qed (blast intro: authority_step_ok)

text \<open>
  C5. No two controllers have authority at once. However the guards of any number of controllers interleave their
  acquisitions, renewals, failures and releases on one store, with transactions that commit late or commit
  unreported, at most one of them holds a lease that has not run out.
\<close>

theorem one_authority:
  assumes "unix_epoch \<le> t" "t \<le> horizon" and "authority_step\<^sup>*\<^sup>* (initial_controllers t) w"
    and "has_authority w a" "has_authority w b"
  shows "a = b"
proof -
  have ok: "authority_ok w" using authority_run_ok assms(1-3) by blast
  have row: "\<exists>r \<in> set (ST_leases (Cs_store w)). LR_name r = authorityLeaseName \<and> LR_owner r = c" if c: "has_authority w c" for c
  proof -
    obtain l where l: "Cs_guard w c = GuardHolds l" "Cs_clock w < Le_ExpiresAt l" using c by (auto simp: has_authority_def split: guard.splits)
    then have "lease_backed w c l" using ok by (simp add: authority_ok_def)
    with l(2) show ?thesis by (auto simp: lease_backed_def lease_row_matches_def)
  qed
  then obtain r r' where "r \<in> set (ST_leases (Cs_store w))" "LR_name r = authorityLeaseName" "LR_owner r = a"
    "r' \<in> set (ST_leases (Cs_store w))" "LR_name r' = authorityLeaseName" "LR_owner r' = b" using assms(4,5) by metis
  moreover from this have "r = r'" using lease_unique [of "ST_leases (Cs_store w)" r r'] ok by (simp add: authority_ok_def)
  ultimately show ?thesis by simp
qed

text \<open>One controller that starts on an empty store, and the state it reaches.\<close>

definition fx_holds :: controllers where
  "fx_holds = (let run = AcquireLease authorityLeaseName ''a/1'' fx_time authorityLeaseTTL empty_store
     in \<lparr>Cs_clock = fx_time, Cs_store = snd (RecoverExpired fx_time (snd (projr run))),
         Cs_guard = (\<lambda>_. GuardIdle)(''a/1'' := GuardHolds (fst (projr run)))\<rparr>)"

theorem one_authority_witness: "{b. has_authority fx_holds b} = {''a/1''}"
proof -
  let ?w = "initial_controllers fx_time" and ?run = "AcquireLease authorityLeaseName ''a/1'' fx_time authorityLeaseTTL empty_store"
  let ?w1 = "?w\<lparr>Cs_guard := (Cs_guard ?w)(''a/1'' := GuardWaiting (fx_time + authorityLeaseAcquireWindow))\<rparr>"
  have range: "unix_epoch \<le> fx_time" "fx_time \<le> horizon" by code_simp+
  then have reads: "reading ?w fx_time" "reading ?w1 fx_time" by (simp_all add: reading_def initial_controllers_def)
  have "isl ?run = False" by code_simp
  then have run: "?run = Inr (fst (projr ?run), snd (projr ?run))" by (rule projr_pair)
  have first: "acquireAuthorityLease ''a/1'' (fx_time + authorityLeaseAcquireWindow) [(fx_time, fx_time, Cs_store ?w1)] = Some (Inr (fst (projr ?run), snd (projr ?run)))"
    by (rule acquire_first) (use run in \<open>simp add: initial_controllers_def\<close>)
  have "authority_step ?w1 (?w1\<lparr>Cs_store := snd (RecoverExpired fx_time (snd (projr ?run))), Cs_guard := (Cs_guard ?w1)(''a/1'' := GuardHolds (fst (projr ?run)))\<rparr>)"
    by (rule authority_step.acquire [OF _ reads(2) reads(2) first]) simp
  moreover have "authority_step ?w ?w1" by (rule start [OF _ reads(1)]) (simp add: initial_controllers_def)
  ultimately have reach: "authority_step\<^sup>*\<^sup>* ?w fx_holds"
    by (auto simp: fx_holds_def initial_controllers_def Let_def intro: converse_rtranclp_into_rtranclp)
  have "has_authority fx_holds ''a/1''" by code_simp
  then show ?thesis using one_authority [OF range reach] by blast
qed

section \<open>A stale lease is waited out\<close>

text \<open>
  The pace of the loop: a turn starts when the one before has waited its retry interval out, the first at once, and both
  readings of the clock in it come at most \<open>lag\<close> later. This bounds what the source leaves to the scheduler and the disk.
\<close>

fun paced :: "duration \<Rightarrow> time \<Rightarrow> (time \<times> time \<times> store) list \<Rightarrow> bool" where
  "paced lag ready [] = True"
| "paced lag ready ((now, after', s) # turns) =
     (ready \<le> now \<and> now \<le> after' \<and> after' \<le> ready + lag \<and> paced lag (after' + authorityLeaseAcquireRetry) turns)"

definition left_behind :: "lease_row \<Rightarrow> (time \<times> time \<times> store) list \<Rightarrow> bool" where
  "left_behind r turns = list_all (\<lambda>(now, after', s). find (\<lambda>q. LR_name q = authorityLeaseName) (ST_leases s) = Some r) turns"

lemma AcquireLease_turn:
  assumes "owner \<noteq> []" and "find (\<lambda>r. LR_name r = authorityLeaseName) (ST_leases s) = Some r"
  shows "(\<exists>l s'. AcquireLease authorityLeaseName owner now authorityLeaseTTL s = Inr (l, s') \<and> Le_Owner l = owner \<and> Le_ExpiresAt l = now + authorityLeaseTTL)
    \<or> (AcquireLease authorityLeaseName owner now authorityLeaseTTL s = Inl ErrLeaseHeld \<and> unix_nanos now < LR_expires_at r)"
  using assms by (auto simp: AcquireLease_def Let_def authorityLeaseName_def authorityLeaseTTL_def)

lemma waits_from:
  assumes "left_behind r turns" and "LR_expires_at r \<le> unix_nanos (began + authorityLeaseTTL)" and "owner \<noteq> []"
    and "paced lag ready turns" and "0 \<le> lag" "lag \<le> authorityLeaseTTL div 2"
    and "in_range began" "in_range (began + 3 * authorityLeaseTTL)"
    and "began \<le> ready" "ready \<le> began + authorityLeaseTTL + authorityLeaseAcquireRetry + lag"
    and "turns \<noteq> []" "began + authorityLeaseTTL \<le> ready + (int (length turns) - 1) * authorityLeaseAcquireRetry"
  shows "\<exists>l s'. acquireAuthorityLease owner (began + authorityLeaseAcquireWindow) turns = Some (Inr (l, s')) \<and> Le_Owner l = owner
    \<and> Le_ExpiresAt l \<le> began + 2 * authorityLeaseTTL + authorityLeaseAcquireRetry + 2 * lag"
  using assms(1,4,9-)
proof (induction turns arbitrary: ready)
  case (Cons turn turns)
  obtain now after' s where turn: "turn = (now, after', s)" by (cases turn) auto
  have row: "find (\<lambda>q. LR_name q = authorityLeaseName) (ST_leases s) = Some r" and tail: "left_behind r turns"
    using Cons.prems(1) by (auto simp: left_behind_def turn)
  have pace: "ready \<le> now" "now \<le> after'" "after' \<le> ready + lag" "paced lag (after' + authorityLeaseAcquireRetry) turns"
    using Cons.prems(2) by (auto simp: turn)
  consider (taken) l s' where "AcquireLease authorityLeaseName owner now authorityLeaseTTL s = Inr (l, s')" "Le_Owner l = owner" "Le_ExpiresAt l = now + authorityLeaseTTL"
    | (held) "AcquireLease authorityLeaseName owner now authorityLeaseTTL s = Inl ErrLeaseHeld" "unix_nanos now < LR_expires_at r"
    using AcquireLease_turn [OF assms(3) row] by blast
  then show ?case
  proof cases
    case taken
    then show ?thesis using pace Cons.prems(4) by (simp add: turn)
  next
    case held
    have "in_range now" "in_range (began + authorityLeaseTTL)" using assms(5-8) pace Cons.prems(3,4) by (auto simp: in_range_def authority_constants)
    with held(2) assms(2) have early: "now < began + authorityLeaseTTL" using unix_nanos_less [of "began + authorityLeaseTTL" now] by linarith
    then have open': "after' < began + authorityLeaseAcquireWindow" using pace assms(6) by (simp add: authority_constants)
    have "turns \<noteq> []" using early pace(1) Cons.prems(6) by auto
    moreover have "began + authorityLeaseTTL \<le> after' + authorityLeaseAcquireRetry + (int (length turns) - 1) * authorityLeaseAcquireRetry"
      using Cons.prems(6) pace(1,2) by (simp add: algebra_simps)
    moreover have "began \<le> after' + authorityLeaseAcquireRetry" "after' + authorityLeaseAcquireRetry \<le> began + authorityLeaseTTL + authorityLeaseAcquireRetry + lag"
      using pace Cons.prems(3) early by (auto simp: authorityLeaseAcquireRetry_def)
    ultimately show ?thesis using Cons.IH [OF tail pace(4)] held(1) open' by (simp add: turn)
  qed
qed simp


definition fx_stale :: store where
  "fx_stale = empty_store\<lparr>ST_leases := [\<lparr>LR_name = authorityLeaseName, LR_owner = ''a/1'', LR_token = 4, LR_expires_at = unix_nanos (fx_time + 25 * second)\<rparr>]\<rparr>"

definition fx_turns :: "(time \<times> time \<times> store) list" where
  "fx_turns = map (\<lambda>n. (fx_time + int n * second, fx_time + int n * second, fx_stale)) [0..<31]"


end
