(* ===== verification/Json_Text.thy ===== *)
theory Json_Text
  imports Operations
begin

text \<open>
  The JSON text the controller compares its persisted scheduler state with: Go's \<open>encoding/json\<close>
  decoder over numbers kept as text, as \<open>jsonEquivalent\<close> (\<^verbatim>\<open>reconcile/controller.go\<close>) uses it, and the encoder that
  sorts the names of an object. Decoding recurses on a fuel of twice the length of the text, which
  \<open>json_fuel_enough\<close> shows is always enough; \<open>json_decode_print\<close> is the round trip.
\<close>

section \<open>Values\<close>

datatype json = JNull | JBool bool | JNumber string | JString string | JArray "json list" | JObject "(string \<times> json) list"

datatype parsed = Parsed json string | Malformed | Exhausted

section \<open>Decoding\<close>

definition json_space :: "char \<Rightarrow> bool" where
  "json_space c \<longleftrightarrow> c \<in> {CHR 0x20, CHR 0x09, CHR 0x0A, CHR 0x0D}"

definition skip_space :: "string \<Rightarrow> string" where
  "skip_space s = dropWhile json_space s"

definition hex_value :: "char \<Rightarrow> nat option" where
  "hex_value c =
     (let n = (of_char c :: nat) in
      if 48 \<le> n \<and> n \<le> 57 then Some (n - 48)
      else if 97 \<le> n \<and> n \<le> 102 then Some (n - 87)
      else if 65 \<le> n \<and> n \<le> 70 then Some (n - 55)
      else None)"

definition hex4 :: "char \<Rightarrow> char \<Rightarrow> char \<Rightarrow> char \<Rightarrow> nat option" where
  "hex4 a b c d = do { w \<leftarrow> hex_value a; x \<leftarrow> hex_value b; y \<leftarrow> hex_value c; z \<leftarrow> hex_value d;
     Some (4096 * w + 256 * x + 16 * y + z) }"

text \<open>The UTF-8 bytes of a code point.\<close>

definition utf8 :: "nat \<Rightarrow> string" where
  "utf8 n =
     map char_of
       (if n < 128 then [n]
        else if n < 2048 then [192 + n div 64, 128 + n mod 64]
        else if n < 65536 then [224 + n div 4096, 128 + n div 64 mod 64, 128 + n mod 64]
        else [240 + n div 262144, 128 + n div 4096 mod 64, 128 + n div 64 mod 64, 128 + n mod 64])"

definition simple_escape :: "char \<Rightarrow> char option" where
  "simple_escape c =
     (if c = CHR 0x22 \<or> c = CHR 0x5C \<or> c = CHR ''/'' then Some c
      else if c = CHR ''b'' then Some (CHR 0x08)
      else if c = CHR ''f'' then Some (CHR 0x0C)
      else if c = CHR ''n'' then Some (CHR 0x0A)
      else if c = CHR ''r'' then Some (CHR 0x0D)
      else if c = CHR ''t'' then Some (CHR 0x09)
      else None)"

text \<open>
  The unit an escape \<open>\u\<close> starts with at the four digits that follow it: its code point and the rest. A pair of
  surrogates is one code point; a surrogate alone is the replacement character.
\<close>

definition second_half :: "string \<Rightarrow> (nat \<times> string) option" where
  "second_half s = (case s of
     x # y # a # b # c # d # r \<Rightarrow>
       (if x = CHR 0x5C \<and> y = CHR ''u'' then
          (case hex4 a b c d of Some low \<Rightarrow> if 0xDC00 \<le> low \<and> low < 0xE000 then Some (low, r) else None | None \<Rightarrow> None)
        else None)
   | _ \<Rightarrow> None)"

definition code_unit :: "nat \<Rightarrow> string \<Rightarrow> nat \<times> string" where
  "code_unit high r =
     (if 0xD800 \<le> high \<and> high < 0xDC00 then
        (case second_half r of Some (low, r') \<Rightarrow> (65536 + (high - 0xD800) * 1024 + (low - 0xDC00), r') | None \<Rightarrow> (0xFFFD, r))
      else if 0xDC00 \<le> high \<and> high < 0xE000 then (0xFFFD, r)
      else (high, r))"

lemma second_half_shorter: "second_half s = Some (low, r) \<Longrightarrow> length r < length s"
  by (auto simp: second_half_def split: list.splits if_splits option.splits)

lemma code_unit_shorter: "length (snd (code_unit high r)) \<le> length r"
  using second_half_shorter [of r] by (auto simp: code_unit_def split: option.splits)

definition consed :: "string \<Rightarrow> (string \<times> string) option \<Rightarrow> (string \<times> string) option" where
  "consed s x = map_option (\<lambda>(t, r). (s @ t, r)) x"

text \<open>The characters of a string literal after its opening quotation mark.\<close>

function json_chars :: "string \<Rightarrow> (string \<times> string) option" where
  "json_chars s = (case s of
     [] \<Rightarrow> None
   | c # r \<Rightarrow>
       if c = CHR 0x22 then Some ([], r)
       else if c = CHR 0x5C then
         (case r of
            [] \<Rightarrow> None
          | e # r' \<Rightarrow>
              if e = CHR ''u'' then
                (case r' of
                   a # b # x # y # r'' \<Rightarrow>
                     (case hex4 a b x y of
                        None \<Rightarrow> None
                      | Some n \<Rightarrow> consed (utf8 (fst (code_unit n r''))) (json_chars (snd (code_unit n r''))))
                 | _ \<Rightarrow> None)
              else (case simple_escape e of None \<Rightarrow> None | Some x \<Rightarrow> consed [x] (json_chars r')))
       else if (of_char c :: nat) < 32 then None
       else consed [c] (json_chars r))"
  by auto
termination
proof (relation "measure length", goal_cases)
  case (2 s c r e r' a r1 b r2 x r3 y r'' n)
  then show ?case using code_unit_shorter [of n r''] by simp
qed simp_all

declare json_chars.simps [simp del]

text \<open>A run of digits, and the literal of a number: sign, integer part, fraction and exponent.\<close>

definition is_digit :: "char \<Rightarrow> bool" where
  "is_digit c \<longleftrightarrow> 48 \<le> (of_char c :: nat) \<and> (of_char c :: nat) \<le> 57"

definition json_sign :: "string \<Rightarrow> string \<times> string" where
  "json_sign s = (case s of c # r \<Rightarrow> if c = CHR ''-'' then ([c], r) else ([], s) | [] \<Rightarrow> ([], s))"

definition json_int :: "string \<Rightarrow> (string \<times> string) option" where
  "json_int s = (case s of
     c # r \<Rightarrow> if c = CHR ''0'' then Some ([c], r)
              else if is_digit c then Some (c # takeWhile is_digit r, dropWhile is_digit r)
              else None
   | [] \<Rightarrow> None)"

definition some_digits :: "string \<Rightarrow> (string \<times> string) option" where
  "some_digits s = (if takeWhile is_digit s = [] then None else Some (takeWhile is_digit s, dropWhile is_digit s))"

definition json_fraction :: "string \<Rightarrow> (string \<times> string) option" where
  "json_fraction s = (case s of
     c # r \<Rightarrow> if c = CHR ''.'' then consed [c] (some_digits r) else Some ([], s)
   | [] \<Rightarrow> Some ([], s))"

definition json_exponent :: "string \<Rightarrow> (string \<times> string) option" where
  "json_exponent s = (case s of
     c # r \<Rightarrow> if c = CHR ''e'' \<or> c = CHR ''E'' then
                (case r of
                   d # r' \<Rightarrow> if d = CHR ''+'' \<or> d = CHR ''-'' then consed [c, d] (some_digits r') else consed [c] (some_digits r)
                 | [] \<Rightarrow> None)
              else Some ([], s)
   | [] \<Rightarrow> Some ([], s))"

definition json_number :: "string \<Rightarrow> (string \<times> string) option" where
  "json_number s = do {
     (sign, r1) \<leftarrow> Some (json_sign s);
     (whole, r2) \<leftarrow> json_int r1;
     (fraction, r3) \<leftarrow> json_fraction r2;
     (exponent, r4) \<leftarrow> json_exponent r3;
     Some (sign @ whole @ fraction @ exponent, r4)
   }"

definition json_literal :: "string \<Rightarrow> parsed" where
  "json_literal s =
     (if take 4 s = ''null'' then Parsed JNull (drop 4 s)
      else if take 4 s = ''true'' then Parsed (JBool True) (drop 4 s)
      else if take 5 s = ''false'' then Parsed (JBool False) (drop 5 s)
      else (case json_number s of Some (n, r) \<Rightarrow> Parsed (JNumber n) r | None \<Rightarrow> Malformed))"

text \<open>
  One value. The first argument is fuel; the decoder below gives it twice the length of the text, which is enough.
  The list arguments hold what was read of an array or of an object.
\<close>

fun json_value :: "nat \<Rightarrow> string \<Rightarrow> parsed"
  and json_elements :: "nat \<Rightarrow> json list \<Rightarrow> string \<Rightarrow> parsed"
  and json_members :: "nat \<Rightarrow> (string \<times> json) list \<Rightarrow> string \<Rightarrow> parsed" where
  "json_value 0 s = Exhausted"
| "json_value (Suc n) s = (case skip_space s of
     [] \<Rightarrow> Malformed
   | c # r \<Rightarrow>
       if c = CHR ''{'' then
         (case skip_space r of
            [] \<Rightarrow> Malformed
          | d # r' \<Rightarrow> if d = CHR ''}'' then Parsed (JObject []) r' else json_members n [] (d # r'))
       else if c = CHR ''['' then
         (case skip_space r of
            [] \<Rightarrow> Malformed
          | d # r' \<Rightarrow> if d = CHR '']'' then Parsed (JArray []) r' else json_elements n [] (d # r'))
       else if c = CHR 0x22 then (case json_chars r of None \<Rightarrow> Malformed | Some (t, r') \<Rightarrow> Parsed (JString t) r')
       else json_literal (c # r))"
| "json_elements 0 done s = Exhausted"
| "json_elements (Suc n) done s = (case json_value n s of
     Parsed v r \<Rightarrow>
       (case skip_space r of
          [] \<Rightarrow> Malformed
        | c # r' \<Rightarrow>
            if c = CHR '','' then json_elements n (done @ [v]) r'
            else if c = CHR '']'' then Parsed (JArray (done @ [v])) r'
            else Malformed)
   | failed \<Rightarrow> failed)"
| "json_members 0 done s = Exhausted"
| "json_members (Suc n) done s = (case skip_space s of
     [] \<Rightarrow> Malformed
   | q # r0 \<Rightarrow>
       if q \<noteq> CHR 0x22 then Malformed
       else (case json_chars r0 of
         None \<Rightarrow> Malformed
       | Some (k, r1) \<Rightarrow>
           (case skip_space r1 of
              [] \<Rightarrow> Malformed
            | c # r2 \<Rightarrow>
                if c \<noteq> CHR '':'' then Malformed
                else (case json_value n r2 of
                  Parsed v r \<Rightarrow>
                    (case skip_space r of
                       [] \<Rightarrow> Malformed
                     | d # r' \<Rightarrow>
                         if d = CHR '','' then json_members n (done @ [(k, v)]) r'
                         else if d = CHR ''}'' then Parsed (JObject (done @ [(k, v)])) r'
                         else Malformed)
                | failed \<Rightarrow> failed))))"

text \<open>The whole text: one value, and white space only behind it.\<close>

definition json_decode :: "string \<Rightarrow> json option" where
  "json_decode s = (case json_value (2 * length s + 1) s of
     Parsed v r \<Rightarrow> if skip_space r = [] then Some v else None
   | _ \<Rightarrow> None)"

section \<open>Encoding\<close>

text \<open>A Go map keeps the last member of each name and prints its members by name.\<close>

fun last_wins :: "(string \<times> 'v) list \<Rightarrow> (string \<times> 'v) list" where
  "last_wins [] = []"
| "last_wins ((k, v) # fs) = (if k \<in> fst ` set fs then last_wins fs else (k, v) # last_wins fs)"

definition name_less :: "string \<times> 'v \<Rightarrow> string \<times> 'v \<Rightarrow> bool" where
  "name_less a b \<longleftrightarrow> fst a < fst b"

fun json_print :: "json \<Rightarrow> string" where
  "json_print JNull = ''null''"
| "json_print (JBool b) = (if b then ''true'' else ''false'')"
| "json_print (JNumber n) = n"
| "json_print (JString s) = json_string s"
| "json_print (JArray vs) = json_array (map json_print vs)"
| "json_print (JObject fs) = json_object (map (\<lambda>(k, v). (k, json_print v)) fs)"

fun json_sorted :: "json \<Rightarrow> json" where
  "json_sorted (JArray vs) = JArray (map json_sorted vs)"
| "json_sorted (JObject fs) = JObject (sort_slice name_less (last_wins (map (\<lambda>(k, v). (k, json_sorted v)) fs)))"
| "json_sorted v = v"

definition json_marshal :: "json \<Rightarrow> string" where
  "json_marshal v = json_print (json_sorted v)"

section \<open>The fuel of the decoder\<close>

lemma skip_space_length: "length (skip_space s) \<le> length s"
  by (simp add: skip_space_def length_dropWhile_le)

lemma consed_Some: "consed p x = Some (t, r) \<longleftrightarrow> (\<exists>t'. x = Some (t', r) \<and> t = p @ t')"
  by (cases x) (auto simp: consed_def)

lemma json_chars_shorter: "json_chars s = Some (t, r) \<Longrightarrow> length r < length s"
proof (induction s arbitrary: t r rule: json_chars.induct)
  case (1 s)
  show ?case
  proof (cases s)
    case Nil
    with 1 show ?thesis by (simp add: json_chars.simps)
  next
    case (Cons c w)
    note IH = 1(1-3) [OF Cons]
    have run: "json_chars (c # w) = Some (t, r)" using 1(4) Cons by simp
    show ?thesis
    proof (cases "c = CHR 0x22 \<or> c \<noteq> CHR 0x5C")
      case True
      then show ?thesis using run IH(3) Cons by (subst (asm) json_chars.simps) (auto simp: consed_Some split: if_splits dest!: less_SucI)
    next
      case False
      then have c: "c = CHR 0x5C" by simp
      then obtain e w' where w: "w = e # w'" using run by (subst (asm) json_chars.simps) (auto split: list.splits)
      show ?thesis
      proof (cases "e = CHR ''u''")
        case True
        with run c w obtain a b x y v n where v: "w' = a # b # x # y # v" "hex4 a b x y = Some n"
          and "\<exists>t'. json_chars (snd (code_unit n v)) = Some (t', r)"
          by (subst (asm) json_chars.simps) (auto simp: consed_Some split: list.splits option.splits)
        then obtain t' where "json_chars (snd (code_unit n v)) = Some (t', r)" by blast
        from IH(1) [OF _ c w True v(1) _ _ _ v(2) this] c have "length r < length (snd (code_unit n v))" by auto
        with code_unit_shorter [of n v] show ?thesis by (simp add: Cons w v(1))
      next
        case False
        with run c w obtain x t' where "simple_escape e = Some x" "json_chars w' = Some (t', r)"
          by (subst (asm) json_chars.simps) (auto simp: consed_Some split: option.splits)
        from IH(2) [OF _ c w False this] c show ?thesis by (simp add: Cons w)
      qed
    qed
  qed
qed

lemma json_number_shorter: "json_number s = Some (n, r) \<Longrightarrow> length r < length s"
proof -
  assume "json_number s = Some (n, r)"
  then obtain sign r1 whole r2 fraction r3 ex where steps: "json_sign s = (sign, r1)" "json_int r1 = Some (whole, r2)" "json_fraction r2 = Some (fraction, r3)"
    "json_exponent r3 = Some (ex, r)"
    by (auto simp: json_number_def split: prod.splits Option.bind_splits)
  have "length r1 \<le> length s" using steps(1) by (auto simp: json_sign_def split: list.splits if_splits)
  moreover have "length r2 < length r1" using steps(2)
    by (auto simp: json_int_def less_Suc_eq_le length_dropWhile_le split: list.splits if_splits)
  moreover have "length r3 \<le> length r2" using steps(3)
    by (auto simp: length_dropWhile_le le_SucI json_fraction_def consed_Some some_digits_def split: list.splits if_splits)
  moreover have "length r \<le> length r3" using steps(4)
    by (auto simp: length_dropWhile_le le_SucI json_exponent_def consed_Some some_digits_def split: list.splits if_splits)
  ultimately show ?thesis by linarith
qed

lemma json_literal_cases:
  "json_literal s \<noteq> Exhausted" "json_literal s = Parsed v r \<Longrightarrow> length r < length s"
proof -
  show "json_literal s \<noteq> Exhausted" by (auto simp: json_literal_def split: option.splits)
  assume lit: "json_literal s = Parsed v r"
  have "length s \<ge> 4" if "take 4 s = ''null'' \<or> take 4 s = ''true''"
  proof -
    from that have "length (take 4 s) = length ''null''" by (elim disjE) (simp_all only: list.size)
    then show ?thesis by simp
  qed
  moreover have "length s \<ge> 5" if "take 5 s = ''false''"
  proof -
    from that have "length (take 5 s) = length ''false''" by (simp only:)
    then show ?thesis by simp
  qed
  ultimately show "length r < length s" using lit json_number_shorter [of s] by (auto simp: json_literal_def split: if_splits option.splits)
qed

lemma json_run:
  "json_value n s = Parsed v r \<Longrightarrow> length r < length s"
  "json_elements n vs s = Parsed v r \<Longrightarrow> length r < length s"
  "json_members n fs s = Parsed v r \<Longrightarrow> length r < length s"
proof (induction n s and n vs s and n fs s arbitrary: v r and v r and v r rule: json_value_json_elements_json_members.induct)
  case (2 n s)
  have sp: "length (skip_space s) \<le> length s" by (rule skip_space_length)
  obtain c w where s: "skip_space s = c # w" using 2 by (auto split: list.splits)
  have "length r < length (c # w)"
  proof (cases "c = CHR ''{'' \<or> c = CHR ''[''")
    case True
    then obtain d w' where w: "skip_space w = d # w'" using 2(3) s by (auto split: list.splits)
    have "length (skip_space w) \<le> length w" by (rule skip_space_length)
    moreover have "length r < length (d # w')" using 2 s w True by (auto split: if_splits)
    ultimately show ?thesis using w by simp
  next
    case False
    then show ?thesis using 2(3) s json_literal_cases(2) [of "c # w"] json_chars_shorter [of w]
      by (auto split: if_splits option.splits dest: less_SucI)
  qed
  then show ?case using sp s by simp
next
  case (4 n vs s)
  then obtain u w c w' where w: "json_value n s = Parsed u w" "skip_space w = c # w'" by (auto split: parsed.splits list.splits)
  have "length w < length s" using 4(1) w(1) by blast
  moreover have "length (c # w') \<le> length w" using skip_space_length [of w] w(2) by simp
  moreover have "length r \<le> length w'" using 4(2) [OF w(1,2)] 4(3) w less_imp_le [of "length r" "length w'"] by (auto split: if_splits)
  ultimately show ?case by simp
next
  case (6 n fs s)
  then obtain q w0 k w1 c w2 u w d w' where w: "skip_space s = q # w0" "json_chars w0 = Some (k, w1)" "skip_space w1 = c # w2"
    "json_value n w2 = Parsed u w" "skip_space w = d # w'" "q = CHR 0x22" "c = CHR '':''"
    by (auto split: parsed.splits list.splits option.splits if_splits)
  have "length w < length w2" using 6(1) w by blast
  moreover have "length w1 < length w0" using json_chars_shorter w(2) by blast
  moreover have "length (q # w0) \<le> length s" "length (c # w2) \<le> length w1" "length (d # w') \<le> length w"
    using skip_space_length w by (metis, metis, metis)
  moreover have "length r \<le> length w'" using 6(2) [OF w(1) _ w(2) refl w(3) _ w(4,5)] 6(3) w less_imp_le [of "length r" "length w'"] by (auto split: if_splits)
  ultimately show ?case by simp
qed auto

text \<open>Fuel above twice the length of the text is never used up.\<close>

lemma json_fuel_enough:
  "2 * length s < n \<Longrightarrow> json_value n s \<noteq> Exhausted"
  "2 * length s + 1 < n \<Longrightarrow> json_elements n vs s \<noteq> Exhausted"
  "2 * length s < n \<Longrightarrow> json_members n fs s \<noteq> Exhausted"
proof (induction n s and n vs s and n fs s rule: json_value_json_elements_json_members.induct)
  case (2 n s)
  show ?case
  proof (cases "skip_space s")
    case (Cons c w)
    have w: "length w < length s" using Cons skip_space_length [of s] by simp
    show ?thesis
    proof (cases "c = CHR ''{'' \<or> c = CHR ''[''")
      case True
      show ?thesis
      proof (cases "skip_space w")
        case (Cons d w')
        then have "length (d # w') \<le> length w" using skip_space_length [of w] by simp
        then show ?thesis using 2 \<open>skip_space s = c # w\<close> Cons True w by auto
      qed (use Cons True in auto)
    next
      case False
      then show ?thesis using Cons json_literal_cases(1) by (auto split: option.splits)
    qed
  qed simp
next
  case (4 n vs s)
  have v: "json_value n s \<noteq> Exhausted" using 4 by simp
  show ?case
  proof (cases "json_value n s")
    case (Parsed u w)
    then have "length w < length s" by (rule json_run(1))
    then have len: "2 * length r + 1 < n" if "skip_space w = c # r" for c r using that skip_space_length [of w] 4(3) by simp
    show ?thesis
    proof (cases "skip_space w")
      case (Cons c r)
      then show ?thesis using 4(2) [OF Parsed Cons] len [OF Cons] Parsed by simp
    qed (simp add: Parsed)
  qed (use v in simp_all)
next
  case (6 n fs s)
  show ?case
  proof (cases "\<exists>q w0 k w1 c w2. skip_space s = q # w0 \<and> q = CHR 0x22 \<and> json_chars w0 = Some (k, w1) \<and> skip_space w1 = c # w2 \<and> c = CHR '':''")
    case False
    then show ?thesis by (auto split: list.splits option.splits)
  next
    case True
    then obtain q w0 k w1 c w2 where w: "skip_space s = q # w0" "q = CHR 0x22" "json_chars w0 = Some (k, w1)" "skip_space w1 = c # w2" "c = CHR '':''" by blast
    have len: "length w2 + 2 \<le> length s" using skip_space_length [of s] skip_space_length [of w1] json_chars_shorter [OF w(3)] w(1,4) by simp
    have v: "json_value n w2 \<noteq> Exhausted" using 6(1) [OF w(1) _ w(3) refl w(4)] w(2,5) len 6(3) by simp
    show ?thesis
    proof (cases "json_value n w2")
      case (Parsed u r)
      then have "length r < length w2" by (rule json_run(1))
      then have rest: "2 * length t < n" if "skip_space r = d # t" for d t using that skip_space_length [of r] len 6(3) by simp
      show ?thesis
      proof (cases "skip_space r")
        case (Cons d t)
        then show ?thesis using 6(2) [OF w(1) _ w(3) refl w(4) _ Parsed Cons] rest [OF Cons] Parsed w by simp
      qed (simp add: Parsed w)
    qed (use v w in simp_all)
  qed
qed simp_all

lemmas json_decoder_simps = json_value.simps json_elements.simps json_members.simps

lemma json_fuel_more:
  "json_value n s \<noteq> Exhausted \<Longrightarrow> json_value (Suc n) s = json_value n s"
  "json_elements n vs s \<noteq> Exhausted \<Longrightarrow> json_elements (Suc n) vs s = json_elements n vs s"
  "json_members n fs s \<noteq> Exhausted \<Longrightarrow> json_members (Suc n) fs s = json_members n fs s"
proof (induction n s and n vs s and n fs s rule: json_value_json_elements_json_members.induct)
  case (2 n s)
  note json_decoder_simps [simp del]
  show ?case
  proof (cases "skip_space s")
    case s: (Cons c w)
    show ?thesis
    proof (cases "skip_space w")
      case Nil
      then show ?thesis using s by (simp add: json_value.simps(2))
    next
      case (Cons d t)
      consider "c = CHR ''{''" "d \<noteq> CHR ''}''" | "c = CHR ''[''" "d \<noteq> CHR '']''"
        | "c \<noteq> CHR ''{'' \<or> d = CHR ''}''" "c \<noteq> CHR ''['' \<or> d = CHR '']''" by blast
      then show ?thesis
      proof cases
        case 1
        then show ?thesis using 2(1) [OF s 1(1) Cons 1(2)] 2(3) s Cons by (simp add: json_value.simps(2))
      next
        case 2
        then show ?thesis using "2.IH"(2) [OF s _ 2(1) Cons 2(2)] "2.prems" s Cons by (simp add: json_value.simps(2))
      next
        case 3
        then show ?thesis using s Cons by (auto simp add: json_value.simps(2))
      qed
    qed
  qed (simp add: json_value.simps(2))
next
  case (4 n vs s)
  note json_decoder_simps [simp del]
  have v: "json_value (Suc n) s = json_value n s" using 4(1,3) by (cases "json_value n s") (auto simp: json_elements.simps(2))
  show ?case
  proof (cases "json_value n s")
    case (Parsed u w)
    show ?thesis
    proof (cases "skip_space w")
      case (Cons c r)
      then show ?thesis using 4(2) [OF Parsed Cons] 4(3) v Parsed by (auto simp: json_elements.simps(2))
    qed (use v Parsed in \<open>simp add: json_elements.simps(2)\<close>)
  qed (use v in \<open>simp_all add: json_elements.simps(2)\<close>)
next
  case (6 n fs s)
  note json_decoder_simps [simp del]
  show ?case
  proof (cases "\<exists>q w0 k w1 c w2. skip_space s = q # w0 \<and> q = CHR 0x22 \<and> json_chars w0 = Some (k, w1) \<and> skip_space w1 = c # w2 \<and> c = CHR '':''")
    case False
    then show ?thesis by (auto simp: json_members.simps(2) split: list.splits option.splits)
  next
    case True
    then obtain q w0 k w1 c w2 where w: "skip_space s = q # w0" "q = CHR 0x22" "json_chars w0 = Some (k, w1)" "skip_space w1 = c # w2" "c = CHR '':''" by blast
    have v: "json_value (Suc n) w2 = json_value n w2" using 6(1) [OF w(1) _ w(3) refl w(4)] w 6(3)
      by (cases "json_value n w2") (auto simp: json_members.simps(2))
    show ?thesis
    proof (cases "json_value n w2")
      case (Parsed u r)
      show ?thesis
      proof (cases "skip_space r")
        case (Cons d t)
        then show ?thesis using 6(2) [OF w(1) _ w(3) refl w(4) _ Parsed Cons] 6(3) v Parsed w by (auto simp: json_members.simps(2))
      qed (use v Parsed w in \<open>simp add: json_members.simps(2)\<close>)
    qed (use v w in \<open>simp_all add: json_members.simps(2)\<close>)
  qed
qed simp_all

lemma json_fuel_mono: "json_value n s = Parsed v r \<Longrightarrow> n \<le> m \<Longrightarrow> json_value m s = Parsed v r"
proof (induction m)
  case (Suc m)
  then show ?case using json_fuel_more(1) [of m s] by (cases "n = Suc m") auto
qed (cases n; simp)

section \<open>What is printed reads back\<close>

lemma hex_value_digit: "k < 16 \<Longrightarrow> hex_value (hex_digit k) = Some k"
  by (simp add: hex_value_def hex_digit_def Let_def)

lemma hex4_byte: "n < 256 \<Longrightarrow> hex4 CHR ''0'' CHR ''0'' (hex_digit (n div 16)) (hex_digit (n mod 16)) = Some n"
proof -
  assume n: "n < 256"
  then have "hex_value (hex_digit (n div 16)) = Some (n div 16)" "hex_value (hex_digit (n mod 16)) = Some (n mod 16)"
    by (auto intro!: hex_value_digit)
  moreover have "hex_value CHR ''0'' = Some 0" by (simp add: hex_value_def)
  ultimately show ?thesis by (simp add: hex4_def)
qed

lemma json_chars_char: "json_chars (json_char c @ t) = consed [c] (json_chars t)"
proof -
  let ?n = "of_char c :: nat"
  consider (plain) "json_char c = [c]" "32 \<le> ?n" "?n \<noteq> 34" "?n \<noteq> 92"
    | (named) e where "json_char c = [CHR 0x5C, e]" "e \<noteq> CHR ''u''" "simple_escape e = Some c"
    | (hex) "json_char c = CHR 0x5C # ''u00'' @ hex_byte ?n" "?n < 128"
  proof -
    have eq: "c = char_of k" if "?n = k" for k using that char_of_char by metis
    show ?thesis
    proof (cases "?n \<in> {34, 92, 8, 12, 10, 13, 9}")
      case True
      have "char_of (34 :: nat) = CHR 0x22" "char_of (92 :: nat) = CHR 0x5C" "char_of (8 :: nat) = CHR 0x08" "char_of (12 :: nat) = CHR 0x0C"
        "char_of (10 :: nat) = CHR 0x0A" "char_of (13 :: nat) = CHR 0x0D" "char_of (9 :: nat) = CHR 0x09" by code_simp+
      then have "c \<in> {CHR 0x22, CHR 0x5C, CHR 0x08, CHR 0x0C, CHR 0x0A, CHR 0x0D, CHR 0x09}" using True eq by (metis (no_types) insert_iff empty_iff)
      then show ?thesis using named by (auto simp: json_char_def simple_escape_def)
    next
      case False
      show ?thesis
      proof (cases "?n < 32 \<or> ?n = 60 \<or> ?n = 62 \<or> ?n = 38")
        case True
        with False show ?thesis by (intro hex) (auto simp: json_char_def Let_def)
      next
        case other: False
        with False show ?thesis by (intro plain) (auto simp: json_char_def Let_def)
      qed
    qed
  qed
  then show ?thesis
  proof cases
    case plain
    moreover have "c \<noteq> CHR 0x22" "c \<noteq> CHR 0x5C" using plain(3,4) by auto
    ultimately show ?thesis by (subst json_chars.simps) simp
  next
    case named
    then show ?thesis by (subst json_chars.simps) simp
  next
    case hex
    have "code_unit ?n t = (?n, t)" using hex(2) by (simp add: code_unit_def)
    moreover have "utf8 ?n = [c]" using hex(2) by (simp add: utf8_def)
    ultimately show ?thesis using hex hex4_byte [of ?n] by (subst json_chars.simps) (simp add: hex_byte_def)
  qed
qed

lemma json_chars_print: "json_chars (concat (map json_char s) @ CHR 0x22 # r) = Some (s, r)"
proof (induction s)
  case Nil
  then show ?case by (subst json_chars.simps) simp
qed (simp add: json_chars_char consed_def)

definition value_end :: "string \<Rightarrow> bool" where
  "value_end r \<longleftrightarrow> (case r of [] \<Rightarrow> True | c # _ \<Rightarrow> c = CHR '','' \<or> c = CHR '']'' \<or> c = CHR ''}'')"

text \<open>A text the decoder takes for a number, up to what follows it.\<close>

definition number_text :: "string \<Rightarrow> bool" where
  "number_text n \<longleftrightarrow> (\<exists>c w. n = c # w \<and> (c = CHR ''-'' \<or> is_digit c)) \<and> (\<forall>r. value_end r \<longrightarrow> json_number (n @ r) = Some (n, r))"

lemma digits_of_nat_head: "\<exists>c w. digits_of_nat n = c # w \<and> (c = CHR ''0'' \<longrightarrow> n = 0 \<and> w = [])"
proof (induction n rule: digits_of_nat.induct)
  case (1 n)
  show ?case
  proof (cases "n < 10")
    case True
    have "list_all (\<lambda>k. char_of (k + 48) = CHR ''0'' \<longrightarrow> k = 0) [0..<10]" by code_simp
    with True have "char_of (n + 48) = CHR ''0'' \<longrightarrow> n = 0" by (simp add: list_all_iff)
    then show ?thesis using True by (subst digits_of_nat.simps) simp
  next
    case False
    then show ?thesis using 1 by (subst digits_of_nat.simps) auto
  qed
qed

lemma digits_of_nat_digit: "c \<in> set (digits_of_nat n) \<Longrightarrow> is_digit c"
  using set_digits_of_nat by (simp add: is_digit_def)

lemma value_end_no_digit: "value_end r \<Longrightarrow> takeWhile is_digit r = [] \<and> dropWhile is_digit r = r"
  by (auto simp: value_end_def is_digit_def split: list.splits)

lemma json_int_digits:
  assumes "value_end r"
  shows "json_int (digits_of_nat n @ r) = Some (digits_of_nat n, r)"
proof -
  obtain c w where d: "digits_of_nat n = c # w" "c = CHR ''0'' \<longrightarrow> w = []" using digits_of_nat_head by blast
  have "\<forall>x \<in> set (c # w). is_digit x" using digits_of_nat_digit d(1) by metis
  then show ?thesis using d value_end_no_digit [OF assms] by (simp add: json_int_def takeWhile_append dropWhile_append)
qed

lemma number_tail: "value_end r \<Longrightarrow> json_fraction r = Some ([], r) \<and> json_exponent r = Some ([], r)"
  by (auto simp: value_end_def json_fraction_def json_exponent_def split: list.splits)

lemma json_sign_digits: "json_sign (digits_of_nat n @ r) = ([], digits_of_nat n @ r)"
proof -
  obtain c w where c: "digits_of_nat n = c # w" using digits_of_nat_head by blast
  then have "is_digit c" using digits_of_nat_digit by (metis list.set_intros(1))
  then have "c \<noteq> CHR ''-''" by (auto simp: is_digit_def)
  with c show ?thesis by (simp add: json_sign_def)
qed

lemma number_text_decimal: "number_text (decimal i)"
proof -
  have head: "\<exists>c w. digits_of_nat n = c # w \<and> is_digit c" for n
    by (metis digits_of_nat_digit digits_of_nat_head list.set_intros(1))
  have pos: "json_number (digits_of_nat n @ r) = Some (digits_of_nat n, r)" if "value_end r" for n r
    using number_tail [OF that] by (simp add: json_number_def json_sign_digits json_int_digits [OF that])
  have neg: "json_number (CHR ''-'' # digits_of_nat n @ r) = Some (CHR ''-'' # digits_of_nat n, r)" if "value_end r" for n r
    using number_tail [OF that] json_int_digits [OF that] by (simp add: json_number_def json_sign_def)
  obtain c w where "digits_of_nat (nat i) = c # w" "is_digit c" using head by blast
  then have "\<exists>c w. decimal i = c # w \<and> (c = CHR ''-'' \<or> is_digit c)" by (simp add: decimal_def)
  moreover have "json_number (decimal i @ r) = Some (decimal i, r)" if "value_end r" for r
    using pos [OF that] neg [OF that] by (simp add: decimal_def)
  ultimately show ?thesis unfolding number_text_def by blast
qed

section \<open>The round trip of whole values\<close>

fun json_wf :: "json \<Rightarrow> bool" where
  "json_wf (JNumber n) \<longleftrightarrow> number_text n"
| "json_wf (JArray vs) \<longleftrightarrow> list_all json_wf vs"
| "json_wf (JObject fs) \<longleftrightarrow> list_all (\<lambda>f. json_wf (snd f)) fs"
| "json_wf v \<longleftrightarrow> True"

lemma json_print_head:
  assumes "json_wf v"
  shows "\<exists>c w. json_print v = c # w \<and> \<not> json_space c \<and> c \<noteq> CHR ''}'' \<and> c \<noteq> CHR '']''"
proof (cases v)
  case (JNumber n)
  then obtain c w where "n = c # w" "c = CHR ''-'' \<or> is_digit c" using assms by (auto simp: number_text_def)
  then show ?thesis using JNumber by (auto simp: json_space_def is_digit_def)
qed (auto simp: json_string_def json_array_def json_object_def json_space_def)

lemma skip_space_print: "json_wf v \<Longrightarrow> skip_space (json_print v @ r) = json_print v @ r"
  using json_print_head [of v] by (auto simp: skip_space_def)

lemma skip_space_char: "\<not> json_space c \<Longrightarrow> skip_space (c # r) = c # r"
  by (simp add: skip_space_def)

definition reads_back :: "json \<Rightarrow> bool" where
  "reads_back v \<longleftrightarrow> (\<forall>r. value_end r \<longrightarrow> (\<exists>n. json_value n (json_print v @ r) = Parsed v r))"

lemma json_elements_mono: "json_elements n vs s = Parsed v r \<Longrightarrow> n \<le> m \<Longrightarrow> json_elements m vs s = Parsed v r"
proof (induction m)
  case (Suc m)
  then show ?case using json_fuel_more(2) [of m vs s] by (cases "n = Suc m") auto
qed (cases n; simp)

lemma json_members_mono: "json_members n fs s = Parsed v r \<Longrightarrow> n \<le> m \<Longrightarrow> json_members m fs s = Parsed v r"
proof (induction m)
  case (Suc m)
  then show ?case using json_fuel_more(3) [of m fs s] by (cases "n = Suc m") auto
qed (cases n; simp)

lemma elements_read_back:
  assumes "vs \<noteq> []" "\<And>v. v \<in> set vs \<Longrightarrow> reads_back v"
  shows "\<exists>n. json_elements n done (join_with '','' (map json_print vs) @ CHR '']'' # r) = Parsed (JArray (done @ vs)) r"
  using assms
proof (induction vs arbitrary: "done" rule: list_nonempty_induct)
  case (single v)
  then obtain n where "json_value n (json_print v @ CHR '']'' # r) = Parsed v (CHR '']'' # r)" by (fastforce simp: reads_back_def value_end_def)
  then have "json_elements (Suc n) done (json_print v @ CHR '']'' # r) = Parsed (JArray (done @ [v])) r" by (simp add: skip_space_char json_space_def)
  then show ?case by (intro exI [of _ "Suc n"]) (simp del: json_elements.simps)
next
  case (cons v vs)
  let ?rest = "join_with '','' (map json_print vs) @ CHR '']'' # r"
  obtain n where n: "json_value n (json_print v @ CHR '','' # ?rest) = Parsed v (CHR '','' # ?rest)" using cons.prems by (fastforce simp: reads_back_def value_end_def)
  obtain m where m: "json_elements m (done @ [v]) ?rest = Parsed (JArray ((done @ [v]) @ vs)) r" using cons.IH cons.prems by (metis list.set_intros(2))
  have "json_elements (Suc (max n m)) done (json_print v @ CHR '','' # ?rest) = Parsed (JArray (done @ v # vs)) r"
    using json_fuel_mono [OF n, of "max n m"] json_elements_mono [OF m, of "max n m"] by (simp add: skip_space_char json_space_def)
  moreover have "join_with '','' (map json_print (v # vs)) @ CHR '']'' # r = json_print v @ CHR '','' # ?rest" using cons.hyps by (cases vs) simp_all
  ultimately show ?case by metis
qed

lemma members_read_back:
  assumes "fs \<noteq> []" "\<And>f. f \<in> set fs \<Longrightarrow> reads_back (snd f)"
  shows "\<exists>n. json_members n done (join_with '','' (map (\<lambda>(k, v). json_string k @ '':'' @ json_print v) fs) @ CHR ''}'' # r) = Parsed (JObject (done @ fs)) r"
  using assms
proof (induction fs arbitrary: "done" rule: list_nonempty_induct)
  case (single f)
  obtain k v where f: "f = (k, v)" by force
  obtain n where "json_value n (json_print v @ CHR ''}'' # r) = Parsed v (CHR ''}'' # r)" using single f by (fastforce simp: reads_back_def value_end_def)
  then have "json_members (Suc n) done (json_string k @ '':'' @ json_print v @ CHR ''}'' # r) = Parsed (JObject (done @ [(k, v)])) r"
    by (simp add: skip_space_char json_space_def json_string_def json_chars_print)
  then show ?case using f by (intro exI [of _ "Suc n"]) (simp del: json_members.simps)
next
  case (cons f fs)
  obtain k v where f: "f = (k, v)" by force
  let ?rest = "join_with '','' (map (\<lambda>(k, v). json_string k @ '':'' @ json_print v) fs) @ CHR ''}'' # r"
  obtain n where n: "json_value n (json_print v @ CHR '','' # ?rest) = Parsed v (CHR '','' # ?rest)" using cons.prems f by (fastforce simp: reads_back_def value_end_def)
  obtain m where m: "json_members m (done @ [(k, v)]) ?rest = Parsed (JObject ((done @ [(k, v)]) @ fs)) r" using cons.IH cons.prems by (metis list.set_intros(2))
  have "json_members (Suc (max n m)) done (json_string k @ '':'' @ json_print v @ CHR '','' # ?rest) = Parsed (JObject (done @ (k, v) # fs)) r"
    using json_fuel_mono [OF n, of "max n m"] json_members_mono [OF m, of "max n m"] by (simp add: skip_space_char json_space_def json_string_def json_chars_print)
  moreover have "join_with '','' (map (\<lambda>(k, v). json_string k @ '':'' @ json_print v) (f # fs)) @ CHR ''}'' # r = json_string k @ '':'' @ json_print v @ CHR '','' # ?rest"
    using cons.hyps f by (cases fs) simp_all
  ultimately show ?case using f by metis
qed

lemma json_reads_back: "json_wf v \<Longrightarrow> reads_back v"
proof (induction v)
  case (JNumber n)
  show ?case unfolding reads_back_def
  proof (intro allI impI)
    fix r assume "value_end r"
    then have num: "json_number (n @ r) = Some (n, r)" using JNumber by (simp add: number_text_def)
    obtain c w where c: "n = c # w" "c = CHR ''-'' \<or> is_digit c" using JNumber by (auto simp: number_text_def)
    then have "json_literal (n @ r) = Parsed (JNumber n) r" using num by (auto simp: json_literal_def is_digit_def)
    moreover have "c \<noteq> CHR ''{''" "c \<noteq> CHR ''[''" "c \<noteq> CHR 0x22" using c(2) by (auto simp: is_digit_def)
    ultimately have "json_value (Suc 0) (json_print (JNumber n) @ r) = Parsed (JNumber n) r"
      using skip_space_print [OF JNumber] c(1) by simp
    then show "\<exists>m. json_value m (json_print (JNumber n) @ r) = Parsed (JNumber n) r" by blast
  qed
next
  case (JString s)
  have "json_value (Suc 0) (json_print (JString s) @ r) = Parsed (JString s) r" for r
    by (simp add: json_string_def skip_space_char json_space_def json_chars_print)
  then show ?case unfolding reads_back_def by blast
next
  case (JBool b)
  have "json_value (Suc 0) (json_print (JBool b) @ r) = Parsed (JBool b) r" for r
    by (simp add: skip_space_char json_space_def json_literal_def)
  then show ?case unfolding reads_back_def by blast
next
  case JNull
  have "json_value (Suc 0) (json_print JNull @ r) = Parsed JNull r" for r
    by (simp add: skip_space_char json_space_def json_literal_def)
  then show ?case unfolding reads_back_def by blast
next
  case (JArray vs)
  show ?case unfolding reads_back_def
  proof (intro allI impI)
    fix r
    show "\<exists>n. json_value n (json_print (JArray vs) @ r) = Parsed (JArray vs) r"
    proof (cases "vs = []")
      case True
      have "json_value (Suc 0) (json_print (JArray []) @ r) = Parsed (JArray []) r" by (simp add: json_array_def skip_space_char json_space_def)
      with True show ?thesis by blast
    next
      case False
      then obtain n where n: "json_elements n [] (join_with '','' (map json_print vs) @ CHR '']'' # r) = Parsed (JArray vs) r"
        using elements_read_back [OF False, of "[]" r] JArray by (fastforce simp: list_all_iff)
      obtain v us where vs: "vs = v # us" using False by (cases vs) auto
      then obtain c w where c: "json_print v = c # w" "\<not> json_space c" "c \<noteq> CHR '']''" using json_print_head [of v] JArray by auto
      then obtain w' where "join_with '','' (map json_print vs) @ CHR '']'' # r = c # w'" using vs by (cases us) auto
      then have "json_value (Suc n) (json_print (JArray vs) @ r) = Parsed (JArray vs) r"
        using n c by (simp add: json_array_def skip_space_char json_space_def [of "CHR ''[''"])
      then show ?thesis by blast
    qed
  qed
next
  case (JObject fs)
  show ?case unfolding reads_back_def
  proof (intro allI impI)
    fix r
    let ?members = "join_with '','' (map (\<lambda>(k, v). json_string k @ '':'' @ json_print v) fs) @ CHR ''}'' # r"
    have shape: "json_print (JObject fs) @ r = CHR ''{'' # ?members" by (simp add: json_object_def o_def case_prod_unfold)
    show "\<exists>n. json_value n (json_print (JObject fs) @ r) = Parsed (JObject fs) r"
    proof (cases "fs = []")
      case True
      have "json_value (Suc 0) (json_print (JObject []) @ r) = Parsed (JObject []) r" by (simp add: json_object_def skip_space_char json_space_def)
      with True show ?thesis by blast
    next
      case False
      have "reads_back (snd f)" if f: "f \<in> set fs" for f
      proof -
        obtain k v where "f = (k, v)" by force
        with f JObject show ?thesis by (auto simp: list_all_iff)
      qed
      then obtain n where n: "json_members n [] ?members = Parsed (JObject fs) r" using members_read_back [OF False, of "[]" r] by fastforce
      obtain k v gs where "fs = (k, v) # gs" using False by (cases fs) auto
      then obtain w' where "?members = CHR 0x22 # w'" by (cases gs) (auto simp: json_string_def)
      then have "json_value (Suc n) (json_print (JObject fs) @ r) = Parsed (JObject fs) r"
        unfolding shape using n by (simp add: skip_space_char json_space_def)
      then show ?thesis by blast
    qed
  qed
qed

lemma json_decode_print: "json_wf v \<Longrightarrow> json_decode (json_print v) = Some v"
proof -
  assume "json_wf v"
  then obtain n where n: "json_value n (json_print v) = Parsed v []" using json_reads_back [of v, unfolded reads_back_def, rule_format, of "[]"] by (auto simp: value_end_def)
  let ?m = "2 * length (json_print v) + 1"
  have "json_value ?m (json_print v) \<noteq> Exhausted" using json_fuel_enough(1) [of "json_print v" ?m] by simp
  moreover have "json_value (max n ?m) (json_print v) = Parsed v []" using json_fuel_mono [OF n] by simp
  moreover have "json_value (?m + k) s = json_value ?m s" if "json_value ?m s \<noteq> Exhausted" for k s
    using that by (induction k) (use json_fuel_more(1) in auto)
  ultimately have "json_value ?m (json_print v) = Parsed v []" by (metis le_Suc_ex max.cobounded2)
  then show ?thesis by (simp add: json_decode_def skip_space_def)
qed

end
