(* ===== verification/Stored_Text.thy ===== *)
theory Stored_Text
  imports Outbox_Safety Json_Text
begin

text \<open>
  The JSON columns of the instances table (\<open>encodeSchedulingMetadata\<close>, \<open>decodeSchedulingMetadata\<close> and \<open>scanInstance\<close> of
  \<open>internal/adapters/sqlite/store.go\<close>): the text \<open>json.Marshal\<close> prints for the ownership and the scheduling metadata, the
  reading of it by \<open>json.Unmarshal\<close>, and that both agree, which is why the store of \<open>Durable_Store\<close> may hold the records.
  Member names are compared without the case of ASCII letters.
\<close>

section \<open>The text of the columns\<close>

definition omit_empty :: "string \<Rightarrow> string \<Rightarrow> (string \<times> json) list" where
  "omit_empty name s = (if s = [] then [] else [(name, JString s)])"

definition number_field :: "string \<Rightarrow> int \<Rightarrow> string \<times> json" where
  "number_field name n = (name, JNumber (decimal n))"

definition ownership_json :: "Ownership \<Rightarrow> json" where
  "ownership_json w = JObject [(''controller_id'', JString (Own_ControllerID w)), (''resource_id'', JString (Own_ResourceID w)),
     (''operation_id'', JString (Own_OperationID w))]"

definition resources_json :: "Resources \<Rightarrow> json" where
  "resources_json r = JObject [number_field ''CPU'' (CPU r), number_field ''MemoryMB'' (MemoryMB r), number_field ''Slots'' (Slots r)]"

definition demand_json :: "DemandKey \<Rightarrow> json" where
  "demand_json k = JObject [(''Repo'', JString (Key_Repo k)), number_field ''RunID'' (Key_RunID k), number_field ''Attempt'' (Key_Attempt k),
     number_field ''JobID'' (Key_JobID k)]"

text \<open>\<open>omitempty\<close> leaves an empty string out; it never leaves out a structure.\<close>

definition metadata_json :: "schedulingMetadata \<Rightarrow> json" where
  "metadata_json m = JObject (number_field ''schema_version'' (SM_SchemaVersion m) # omit_empty ''repo'' (SM_Repo m)
     @ omit_empty ''platform'' (platform_text (SM_Platform m)) @ omit_empty ''profile'' (SM_Profile m) @ omit_empty ''route'' (SM_Route m)
     @ [(''resources'', resources_json (SM_Resources m)), (''demand'', demand_json (SM_Demand m))] @ omit_empty ''image'' (SM_Image m))"

record text_row =
  TR_id :: string
  TR_state :: InstanceState
  TR_version :: int
  TR_drain_phase :: int
  TR_ownership :: string
  TR_scheduling_metadata :: string
  TR_last_error :: string
  TR_created_at :: int
  TR_updated_at :: int

definition text_row_of :: "inst_row \<Rightarrow> text_row" where
  "text_row_of r = \<lparr>TR_id = IR_id r, TR_state = IR_state r, TR_version = IR_version r, TR_drain_phase = IR_drain_phase r,
     TR_ownership = json_print (ownership_json (IR_ownership r)), TR_scheduling_metadata = json_print (metadata_json (IR_metadata r)),
     TR_last_error = IR_last_error r, TR_created_at = IR_created_at r, TR_updated_at = IR_updated_at r\<rparr>"

section \<open>Reading them\<close>

text \<open>
  \<open>json.Unmarshal\<close> into a structure: each member of the object sets the field of its name, letter case aside, a null leaves the
  field as it is, a member of no field is passed over, and a value of the wrong kind fails the whole.
\<close>

definition parse_int64 :: "string \<Rightarrow> int option" where
  "parse_int64 s =
     (let (sign, digits) = json_sign s; n = int (nat_of_digits digits); v = (if sign = [] then n else - n)
      in if digits = [] \<or> \<not> list_all is_digit digits \<or> v < - (2 ^ 63) \<or> v > 2 ^ 63 - 1 then None else Some v)"

definition read_int :: "json \<Rightarrow> int \<Rightarrow> int option" where
  "read_int v old = (case v of JNumber n \<Rightarrow> parse_int64 n | JNull \<Rightarrow> Some old | _ \<Rightarrow> None)"

definition read_string :: "json \<Rightarrow> string \<Rightarrow> string option" where
  "read_string v old = (case v of JString s \<Rightarrow> Some s | JNull \<Rightarrow> Some old | _ \<Rightarrow> None)"

fun read_members :: "(string \<Rightarrow> json \<Rightarrow> 'r \<Rightarrow> 'r option) \<Rightarrow> (string \<times> json) list \<Rightarrow> 'r \<Rightarrow> 'r option" where
  "read_members set_field [] r = Some r"
| "read_members set_field ((name, v) # fs) r = (case set_field (ToLower name) v r of None \<Rightarrow> None | Some r' \<Rightarrow> read_members set_field fs r')"

definition read_struct :: "(string \<Rightarrow> json \<Rightarrow> 'r \<Rightarrow> 'r option) \<Rightarrow> json \<Rightarrow> 'r \<Rightarrow> 'r option" where
  "read_struct set_field v r = (case v of JObject fs \<Rightarrow> read_members set_field fs r | JNull \<Rightarrow> Some r | _ \<Rightarrow> None)"

definition set_ownership :: "string \<Rightarrow> json \<Rightarrow> Ownership \<Rightarrow> Ownership option" where
  "set_ownership name v w =
     (if name = ''controller_id'' then map_option (\<lambda>x. w\<lparr>Own_ControllerID := x\<rparr>) (read_string v (Own_ControllerID w))
      else if name = ''resource_id'' then map_option (\<lambda>x. w\<lparr>Own_ResourceID := x\<rparr>) (read_string v (Own_ResourceID w))
      else if name = ''operation_id'' then map_option (\<lambda>x. w\<lparr>Own_OperationID := x\<rparr>) (read_string v (Own_OperationID w))
      else Some w)"

definition set_resources :: "string \<Rightarrow> json \<Rightarrow> Resources \<Rightarrow> Resources option" where
  "set_resources name v r =
     (if name = ''cpu'' then map_option (\<lambda>x. r\<lparr>CPU := x\<rparr>) (read_int v (CPU r))
      else if name = ''memorymb'' then map_option (\<lambda>x. r\<lparr>MemoryMB := x\<rparr>) (read_int v (MemoryMB r))
      else if name = ''slots'' then map_option (\<lambda>x. r\<lparr>Slots := x\<rparr>) (read_int v (Slots r))
      else Some r)"

definition set_demand :: "string \<Rightarrow> json \<Rightarrow> DemandKey \<Rightarrow> DemandKey option" where
  "set_demand name v k =
     (if name = ''repo'' then map_option (\<lambda>x. k\<lparr>Key_Repo := x\<rparr>) (read_string v (Key_Repo k))
      else if name = ''runid'' then map_option (\<lambda>x. k\<lparr>Key_RunID := x\<rparr>) (read_int v (Key_RunID k))
      else if name = ''attempt'' then map_option (\<lambda>x. k\<lparr>Key_Attempt := x\<rparr>) (read_int v (Key_Attempt k))
      else if name = ''jobid'' then map_option (\<lambda>x. k\<lparr>Key_JobID := x\<rparr>) (read_int v (Key_JobID k))
      else Some k)"

definition platform_of :: "string \<Rightarrow> Platform" where
  "platform_of s = (if s = ''linux'' then PlatformLinux else if s = ''macos'' then PlatformMacOS else PlatformOther s)"

definition set_metadata :: "string \<Rightarrow> json \<Rightarrow> schedulingMetadata \<Rightarrow> schedulingMetadata option" where
  "set_metadata name v m =
     (if name = ''schema_version'' then map_option (\<lambda>x. m\<lparr>SM_SchemaVersion := x\<rparr>) (read_int v (SM_SchemaVersion m))
      else if name = ''repo'' then map_option (\<lambda>x. m\<lparr>SM_Repo := x\<rparr>) (read_string v (SM_Repo m))
      else if name = ''platform'' then map_option (\<lambda>x. m\<lparr>SM_Platform := platform_of x\<rparr>) (read_string v (platform_text (SM_Platform m)))
      else if name = ''profile'' then map_option (\<lambda>x. m\<lparr>SM_Profile := x\<rparr>) (read_string v (SM_Profile m))
      else if name = ''route'' then map_option (\<lambda>x. m\<lparr>SM_Route := x\<rparr>) (read_string v (SM_Route m))
      else if name = ''resources'' then map_option (\<lambda>x. m\<lparr>SM_Resources := x\<rparr>) (read_struct set_resources v (SM_Resources m))
      else if name = ''demand'' then map_option (\<lambda>x. m\<lparr>SM_Demand := x\<rparr>) (read_struct set_demand v (SM_Demand m))
      else if name = ''image'' then map_option (\<lambda>x. m\<lparr>SM_Image := x\<rparr>) (read_string v (SM_Image m))
      else Some m)"

definition zero_metadata :: schedulingMetadata where
  "zero_metadata = \<lparr>SM_SchemaVersion = 0, SM_Repo = [], SM_Platform = PlatformOther [], SM_Profile = [], SM_Route = [],
     SM_Resources = zero_Resources, SM_Demand = zero_DemandKey, SM_Image = []\<rparr>"

definition json_Unmarshal :: "(string \<Rightarrow> json \<Rightarrow> 'r \<Rightarrow> 'r option) \<Rightarrow> string \<Rightarrow> 'r \<Rightarrow> 'r option" where
  "json_Unmarshal set_field text r = (case json_decode text of None \<Rightarrow> None | Some v \<Rightarrow> read_struct set_field v r)"

definition scan_text_row :: "text_row \<Rightarrow> DurableInstance outcome" where
  "scan_text_row t =
     (case json_Unmarshal set_ownership (TR_ownership t) zero_Ownership of
        None \<Rightarrow> Inl (ErrStore ''decode ownership'')
      | Some ownership \<Rightarrow>
          (case json_Unmarshal set_metadata (TR_scheduling_metadata t) zero_metadata of
             None \<Rightarrow> Inl (ErrStore ''decode scheduling metadata'')
           | Some metadata \<Rightarrow>
               (case decodeSchedulingMetadata metadata
                       (zero_DurableInstance\<lparr>DI_ID := TR_id t, DI_Version := TR_version t, DI_DrainPhase := TR_drain_phase t,
                          DI_LastError := TR_last_error t, DI_Ownership := ownership\<rparr>) of
                  Inl e \<Rightarrow> Inl e
                | Inr i \<Rightarrow> Inr (i\<lparr>DI_State := TR_state t, DI_CreatedAt := fromNanos (TR_created_at t), DI_UpdatedAt := fromNanos (TR_updated_at t)\<rparr>))))"

section \<open>The round trip\<close>

definition int64 :: "int \<Rightarrow> bool" where
  "int64 n \<longleftrightarrow> - (2 ^ 63) \<le> n \<and> n \<le> 2 ^ 63 - 1"

definition ascii :: "string \<Rightarrow> bool" where
  "ascii s = list_all (\<lambda>c. (of_char c :: nat) < 128) s"

text \<open>What an instance of the program is: machine integers, and the strings ASCII, which \<open>encoding/json\<close> never rewrites.\<close>

definition storable :: "DurableInstance \<Rightarrow> bool" where
  "storable i \<longleftrightarrow> list_all int64 [CPU (DI_Resources i), MemoryMB (DI_Resources i), Slots (DI_Resources i), Key_RunID (DI_Demand i), Key_Attempt (DI_Demand i), Key_JobID (DI_Demand i)]
     \<and> list_all ascii [DI_Repo i, DI_Profile i, DI_Route i, DI_Image i, Key_Repo (DI_Demand i), Own_ControllerID (DI_Ownership i), Own_ResourceID (DI_Ownership i), Own_OperationID (DI_Ownership i)]"

lemma parse_int64_decimal:
  assumes "int64 n"
  shows "parse_int64 (decimal n) = Some n"
proof -
  have digits: "list_all is_digit (digits_of_nat m)" for m using digits_of_nat_digit by (simp add: list_all_iff)
  have nonempty: "digits_of_nat m \<noteq> []" for m using digits_of_nat_head [of m] by auto
  have plain: "json_sign (digits_of_nat m) = ([], digits_of_nat m)" for m using json_sign_digits [of m "[]"] by simp
  have signed: "json_sign (CHR ''-'' # w) = (''-'', w)" for w by (simp add: json_sign_def)
  show ?thesis using assms digits nonempty plain signed by (auto simp: parse_int64_def decimal_def int64_def nat_of_digits_of_nat)
qed

lemma read_number [simp]: "int64 n \<Longrightarrow> read_int (JNumber (decimal n)) old = Some n"
  by (simp add: read_int_def parse_int64_decimal)

lemma read_text [simp]: "read_string (JString s) old = Some s"
  by (simp add: read_string_def)

lemma read_omitted:
  "read_members set_field (omit_empty name s @ fs) r = (if s = [] then read_members set_field fs r
     else (case set_field (ToLower name) (JString s) r of None \<Rightarrow> None | Some r' \<Rightarrow> read_members set_field fs r'))"
  by (simp add: omit_empty_def)

lemma columns_wf: "json_wf (ownership_json w)" "json_wf (metadata_json m)"
  by (auto simp: ownership_json_def metadata_json_def resources_json_def demand_json_def number_field_def omit_empty_def number_text_decimal)

lemma lower_names:
  "ToLower ''schema_version'' = ''schema_version''" "ToLower ''repo'' = ''repo''" "ToLower ''platform'' = ''platform''" "ToLower ''profile'' = ''profile''"
  "ToLower ''route'' = ''route''" "ToLower ''resources'' = ''resources''" "ToLower ''demand'' = ''demand''" "ToLower ''image'' = ''image''"
  "ToLower ''controller_id'' = ''controller_id''" "ToLower ''resource_id'' = ''resource_id''" "ToLower ''operation_id'' = ''operation_id''"
  "ToLower ''CPU'' = ''cpu''" "ToLower ''MemoryMB'' = ''memorymb''" "ToLower ''Slots'' = ''slots''"
  "ToLower ''Repo'' = ''repo''" "ToLower ''RunID'' = ''runid''" "ToLower ''Attempt'' = ''attempt''" "ToLower ''JobID'' = ''jobid''"
  by code_simp+

lemma ownership_reads_back: "json_Unmarshal set_ownership (json_print (ownership_json w)) zero_Ownership = Some w"
  by (simp add: json_Unmarshal_def json_decode_print columns_wf) 
     (simp add: read_struct_def ownership_json_def set_ownership_def lower_names zero_Ownership_def)

lemma resources_read_back:
  "int64 (CPU r) \<Longrightarrow> int64 (MemoryMB r) \<Longrightarrow> int64 (Slots r) \<Longrightarrow> read_struct set_resources (resources_json r) old = Some r"
  by (simp add: read_struct_def resources_json_def number_field_def set_resources_def lower_names)

lemma demand_reads_back:
  "int64 (Key_RunID k) \<Longrightarrow> int64 (Key_Attempt k) \<Longrightarrow> int64 (Key_JobID k) \<Longrightarrow> read_struct set_demand (demand_json k) old = Some k"
  by (simp add: read_struct_def demand_json_def number_field_def set_demand_def lower_names)

lemma platform_reads_back: "SchedulingMetadataValid i \<Longrightarrow> platform_of (platform_text (DI_Platform i)) = DI_Platform i"
  by (auto simp: SchedulingMetadataValid_def platform_of_def platform_text_def split: if_splits Platform.splits)

lemma metadata_reads_back:
  assumes "SchedulingMetadataValid i" and "storable i"
  shows "json_Unmarshal set_metadata (json_print (metadata_json (metadata_of i))) zero_metadata = Some (metadata_of i)"
proof -
  have version: "int64 0" "int64 1" by (simp_all add: int64_def)
  have platform: "platform_of (platform_text (DI_Platform i)) = DI_Platform i" using assms(1) by (rule platform_reads_back)
  have none: "DI_Platform i = PlatformOther []" if "platform_text (DI_Platform i) = []" using platform that by (simp add: platform_of_def)
  have parts: "read_struct set_resources (resources_json (DI_Resources i)) zero_Resources = Some (DI_Resources i)"
    "read_struct set_demand (demand_json (DI_Demand i)) zero_DemandKey = Some (DI_Demand i)"
    using assms(2) resources_read_back demand_reads_back by (auto simp: storable_def)
  show ?thesis unfolding json_Unmarshal_def json_decode_print [OF columns_wf(2)] option.case
    using version platform none parts omit_empty_def
    by (auto simp: metadata_json_def read_struct_def metadata_of_def zero_metadata_def number_field_def set_metadata_def read_omitted lower_names)
qed

lemma decode_metadata:
  assumes "SchedulingMetadataValid i"
  shows "decodeSchedulingMetadata (metadata_of i) j = Inr (j\<lparr>DI_Repo := DI_Repo i, DI_Platform := DI_Platform i, DI_Profile := DI_Profile i,
     DI_Route := DI_Route i, DI_Resources := DI_Resources i, DI_Demand := DI_Demand i, DI_Image := DI_Image i\<rparr>)"
proof -
  let ?j = "j\<lparr>DI_Repo := DI_Repo i, DI_Platform := DI_Platform i, DI_Profile := DI_Profile i, DI_Route := DI_Route i,
    DI_Resources := DI_Resources i, DI_Demand := DI_Demand i, DI_Image := DI_Image i\<rparr>"
  have "SchedulingMetadataValid ?j = SchedulingMetadataValid i" by (simp add: SchedulingMetadataValid_def)
  with assms show ?thesis by (simp add: decodeSchedulingMetadata_def metadata_of_def Let_def)
qed

lemma find_appended: "find P xs = None \<Longrightarrow> P x \<Longrightarrow> find P (xs @ [x]) = Some x"
  by (induction xs) (auto split: if_splits)

text \<open>
  C22. What \<open>CreateInstance\<close> writes, \<open>scanInstance\<close> reads back through the JSON of its columns: an instance of machine integers
  and ASCII strings comes back in every field but the two instants, which are the stored creation instant; and two such
  instances have the same metadata column exactly if they have the same scheduling metadata, so that the compare-and-set on the
  text of that column compares the metadata.
\<close>

theorem instance_roundtrip:
  assumes "CreateInstance clock i s = Inr s'" and "storable i"
  shows "map_option (\<lambda>r. scan_text_row (text_row_of r)) (ST_inst s' (DI_ID i))
       = Some (Inr (i\<lparr>DI_CreatedAt := fromNanos (unix_nanos (if time_IsZero (DI_CreatedAt i) then clock else DI_CreatedAt i)),
           DI_UpdatedAt := fromNanos (unix_nanos (if time_IsZero (DI_CreatedAt i) then clock else DI_CreatedAt i))\<rparr>))
    \<and> (SchedulingMetadataValid j \<and> storable j \<longrightarrow>
        (json_print (metadata_json (metadata_of j)) = json_print (metadata_json (metadata_of i)) \<longleftrightarrow> metadata_of j = metadata_of i))"
proof -
  let ?t = "unix_nanos (if time_IsZero (DI_CreatedAt i) then clock else DI_CreatedAt i)"
  have valid: "SchedulingMetadataValid i" and new: "ST_inst s (DI_ID i) = None"
    and s': "s' = s\<lparr>ST_instances := ST_instances s @ [inst_row_of i ?t]\<rparr>"
    using assms by (auto simp: CreateInstance_def Let_def split: if_splits)
  have row: "ST_inst s' (DI_ID i) = Some (inst_row_of i ?t)" unfolding s' using find_appended [OF new] by (simp add: inst_row_of_def)
  have "scan_text_row (text_row_of (inst_row_of i ?t)) = Inr (i\<lparr>DI_CreatedAt := fromNanos ?t, DI_UpdatedAt := fromNanos ?t\<rparr>)"
    using decode_metadata [OF valid] by (simp add: scan_text_row_def text_row_of_def inst_row_of_def ownership_reads_back metadata_reads_back [OF valid assms(2)] zero_DurableInstance_def)
  then have read: "map_option (\<lambda>r. scan_text_row (text_row_of r)) (ST_inst s' (DI_ID i)) = Some (Inr (i\<lparr>DI_CreatedAt := fromNanos ?t, DI_UpdatedAt := fromNanos ?t\<rparr>))"
    by (simp only: row option.map)
  have same: "metadata_of j = metadata_of i"
    if "SchedulingMetadataValid j" "storable j" "json_print (metadata_json (metadata_of j)) = json_print (metadata_json (metadata_of i))"
    using metadata_reads_back [OF that(1,2), unfolded that(3)] metadata_reads_back [OF valid assms(2)] by (simp only: option.inject)
  show ?thesis
  proof (intro conjI impI iffI)
    assume "SchedulingMetadataValid j \<and> storable j" "json_print (metadata_json (metadata_of j)) = json_print (metadata_json (metadata_of i))"
    then show "metadata_of j = metadata_of i" by (elim conjE) (rule same)
  qed (rule read, simp only:)
qed

definition fx_guest :: DurableInstance where
  "fx_guest = zero_DurableInstance\<lparr>DI_ID := ''guest'', DI_Repo := ''org/app'', DI_Platform := PlatformLinux, DI_Profile := ''small'', DI_Route := ''shared'',
     DI_Resources := \<lparr>CPU = 4, MemoryMB = 8192, Slots = 1\<rparr>, DI_Demand := \<lparr>Key_Repo = ''org/app'', Key_RunID = 7, Key_Attempt = 1, Key_JobID = 12\<rparr>,
     DI_Image := ''base'', DI_State := InstancePlanned, DI_Ownership := \<lparr>Own_ControllerID = ''ctl'', Own_ResourceID = ''guest'', Own_OperationID = ''boot''\<rparr>\<rparr>"

theorem instance_roundtrip_witness:
  "map_option (\<lambda>r. scan_text_row (text_row_of r)) (ST_inst (projr (CreateInstance fx_time fx_guest empty_store)) ''guest'')
     = Some (Inr (fx_guest\<lparr>DI_CreatedAt := fx_time, DI_UpdatedAt := fx_time\<rparr>))"
proof -
  have "isl (CreateInstance fx_time fx_guest empty_store) = False" by code_simp
  then obtain s' where create: "CreateInstance fx_time fx_guest empty_store = Inr s'" by (cases "CreateInstance fx_time fx_guest empty_store") simp_all
  have "storable fx_guest" by code_simp
  moreover have "fromNanos (unix_nanos fx_time) = fx_time" by code_simp
  moreover have "DI_ID fx_guest = ''guest''" "DI_CreatedAt fx_guest = 0" by (simp_all add: fx_guest_def zero_DurableInstance_def)
  ultimately show ?thesis using instance_roundtrip [OF create] by (simp add: create)
qed

end
