(* ===== verification/Reconcile.thy ===== *)
theory Reconcile
  imports Json_Text Outbox_Safety
begin

text \<open>
  The commit of a plan (\<^verbatim>\<open>reconcile/controller.go\<close>, \<^verbatim>\<open>reconcile/mode.go\<close>): the controller's modes, the comparison of the
  scheduler state with the persisted one, the identities of attempts, the translation of the scheduler's
  operations into durable intents, and \<open>Commit\<close>, which hands them to the store's \<open>ApplyPlan\<close>.
\<close>

section \<open>Modes\<close>

datatype ControllerMode = ModeObserve | ModeShadow | ModeCanary | ModeAuthority | ModeOther string

definition controller_mode_text :: "ControllerMode \<Rightarrow> string" where
  "controller_mode_text m = (case m of ModeObserve \<Rightarrow> ''observe'' | ModeShadow \<Rightarrow> ''shadow'' | ModeCanary \<Rightarrow> ''canary''
     | ModeAuthority \<Rightarrow> ''authority'' | ModeOther t \<Rightarrow> t)"

definition Mode_Valid :: "ControllerMode \<Rightarrow> bool" where
  "Mode_Valid m = (case m of ModeOther _ \<Rightarrow> False | _ \<Rightarrow> True)"

record ModeEvidence =
  ME_FreshObservations :: bool
  ME_ShadowMatches :: bool
  ME_CanaryPassed :: bool
  ME_RollbackReady :: bool

definition CanTransition :: "ControllerMode \<Rightarrow> ControllerMode \<Rightarrow> ModeEvidence \<Rightarrow> bool" where
  "CanTransition from to e =
     (if \<not> Mode_Valid from \<or> \<not> Mode_Valid to then False
      else if from = to \<or> to = ModeObserve then True
      else if \<not> ME_FreshObservations e \<or> \<not> ME_RollbackReady e then False
      else if from = ModeObserve \<and> to = ModeShadow then True
      else if from = ModeShadow \<and> to = ModeCanary then ME_ShadowMatches e
      else if from = ModeCanary \<and> to = ModeAuthority then ME_ShadowMatches e \<and> ME_CanaryPassed e
      else False)"

section \<open>Comparing the scheduler state\<close>

definition json_normalize :: "string \<Rightarrow> string option" where
  "json_normalize t = map_option json_marshal (json_decode t)"

definition jsonEquivalent :: "string \<Rightarrow> string \<Rightarrow> string \<Rightarrow> bool outcome" where
  "jsonEquivalent current fallback expected =
     (case json_normalize (if current = [] then fallback else current) of
        None \<Rightarrow> Inl (ErrStore ''decode scheduler'')
      | Some left \<Rightarrow>
          (case json_normalize expected of
             None \<Rightarrow> Inl (ErrStore ''decode scheduler'')
           | Some right \<Rightarrow> Inr (left = right)))"

text \<open>\<open>json.Marshal\<close> with its error dropped: no bytes.\<close>

definition marshal_or_empty :: "string option \<Rightarrow> string" where
  "marshal_or_empty t = (case t of None \<Rightarrow> [] | Some s \<Rightarrow> s)"

definition state_json :: "SchedState \<Rightarrow> string" where
  "state_json s = marshal_or_empty (json_state s)"

definition reservation_json :: "SchedState \<Rightarrow> string" where
  "reservation_json s = marshal_or_empty (json_nullable json_reservation (St_Reservation s))"

definition drr_json :: "SchedState \<Rightarrow> string" where
  "drr_json s = json_object [(''cursor'', json_string (St_DRRCursor s))]"

fun all_equivalent :: "(string \<times> string \<times> string) list \<Rightarrow> bool outcome" where
  "all_equivalent [] = Inr True"
| "all_equivalent ((current, fallback, expected) # rest) =
     (case jsonEquivalent current fallback expected of
        Inl e \<Rightarrow> Inl e
      | Inr equal \<Rightarrow> if \<not> equal then Inr False else all_equivalent rest)"

definition schedulerStateMatches :: "DurableScheduler \<Rightarrow> SchedState \<Rightarrow> string \<Rightarrow> bool outcome" where
  "schedulerStateMatches prior nxt cursor =
     (case all_equivalent [(DS_Data prior, ''{}'', state_json nxt), (DS_Reservations prior, ''[]'', reservation_json nxt),
             (DS_DeficitRoundRobin prior, ''{}'', drr_json nxt)] of
        Inl e \<Rightarrow> Inl e
      | Inr equal \<Rightarrow> if \<not> equal then Inr False else Inr (DS_ObservationCursor prior = cursor))"

section \<open>Identities\<close>

definition generationSeed :: "string \<Rightarrow> int \<Rightarrow> string" where
  "generationSeed base generation = (if generation = 0 then base else base @ [CHR 0x00] @ ''gen='' @ decimal generation)"

definition attemptIdentity :: "string \<Rightarrow> int \<Rightarrow> string" where
  "attemptIdentity contentAddress generation =
     (if generation = 0 then contentAddress
      else ''op-'' @ hex_EncodeToString (take 12 (sha256 (bytes_of (generationSeed contentAddress generation)))))"

definition instanceName :: "Operation \<Rightarrow> int \<Rightarrow> string" where
  "instanceName q generation = ''trf-'' @ ToLower (Op_Profile q) @ ''-''
     @ hex_EncodeToString (take 8 (sha256 (bytes_of (generationSeed (Op_ID q @ [CHR 0x00] @ Key_String (Op_Demand q)) generation))))"

definition durablePlanID :: "ControllerMode \<Rightarrow> string \<Rightarrow> int \<Rightarrow> string" where
  "durablePlanID mode schedulerID version = ''commit-''
     @ hex_EncodeToString (take 12 (sha256 (bytes_of (controller_mode_text mode @ [CHR 0x00] @ decimal version @ [CHR 0x00] @ schedulerID))))"

section \<open>Translation\<close>

record Controller =
  Ctl_ControllerID :: string
  Ctl_Mode :: ControllerMode
  Ctl_Profiles :: "ProfileID \<rightharpoonup> Profile"
  Ctl_Images :: "Platform \<Rightarrow> string"

definition outbox :: "Operation \<Rightarrow> string \<Rightarrow> string \<Rightarrow> string \<Rightarrow> Ownership \<Rightarrow> time \<Rightarrow> DurableOperation" where
  "outbox source k kind resource ownership now = zero_DurableOperation\<lparr>DO_ID := k, DO_IdempotencyKey := k, DO_EffectKey := kind @ '':'' @ resource,
     DO_Kind := kind, DO_ResourceID := resource,
     DO_Payload := json_object [(''repo'', json_string (Key_Repo (Op_Demand source))), (''profile'', json_string (Op_Profile source)),
       (''route'', json_string (Op_Route source)), (''run_id'', decimal (Key_RunID (Op_Demand source))),
       (''job_id'', decimal (Key_JobID (Op_Demand source))), (''attempt'', decimal (Key_Attempt (Op_Demand source))),
       (''ownership'', json_ownership ownership)],
     DO_AvailableAt := now, DO_DependsOn := Op_DependsOn source\<rparr>"

definition drain_phase_of :: "Operation \<Rightarrow> int" where
  "drain_phase_of q =
     (if \<not> Op_Recovery q then DrainPhaseEvent
      else if Op_ProvisionStalled q then DrainPhaseProvisionStalled
      else if Op_ConfirmedInactive q then DrainPhaseInactiveRecovery
      else if Op_StalledAssignment q then DrainPhaseStalledAssignment
      else if Op_LingeringRunner q then DrainPhaseLingeringRunner
      else if Op_GuestUnresponsive q then DrainPhaseGuestUnresponsive
      else if Op_OccupancyExceeded q then DrainPhaseOccupancyBudget
      else DrainPhaseStoppedRecovery)"

definition drain_state_ok :: "Operation \<Rightarrow> InstanceState \<Rightarrow> bool" where
  "drain_state_ok q s =
     (if \<not> Op_Recovery q then s = InstanceOnlineIdle
      else if Op_ProvisionStalled q then Provisioning s
      else s = InstanceAssigned \<or> s = InstanceRunning)"

definition translate_drain :: "store \<Rightarrow> time \<Rightarrow> Operation \<Rightarrow> (InstanceIntent \<times> DurableOperation) outcome" where
  "translate_drain s now q =
     (case store_Instance (Op_Instance q) s of
        Inl e \<Rightarrow> Inl e
      | Inr i \<Rightarrow>
          if \<not> drain_state_ok q (DI_State i) then Inl ErrConflict
          else
            (let generation = DrainGeneration (Op_Instance q) s;
                 nxt = i\<lparr>DI_State := InstanceDraining, DI_Version := DI_Version i + 1, DI_DrainPhase := drain_phase_of q, DI_UpdatedAt := now\<rparr>
             in Inr (\<lparr>II_ExpectedVersion = DI_Version i, II_ExpectedState = DI_State i, II_Instance = nxt\<rparr>,
                     outbox q (attemptIdentity (Op_ID q) generation) OperationDrainKind (DI_ID i) (DI_Ownership i) now)))"

definition translate_spawn :: "Controller \<Rightarrow> store \<Rightarrow> time \<Rightarrow> Operation \<Rightarrow> (InstanceIntent \<times> DurableOperation) outcome" where
  "translate_spawn c s now q =
     (case Ctl_Profiles c (Op_Profile q) of
        None \<Rightarrow> Inl ErrInvalid
      | Some p \<Rightarrow>
          if Prof_Route p \<noteq> Op_Route q \<or> CPU (Prof_Resources p) \<le> 0 \<or> MemoryMB (Prof_Resources p) \<le> 0 \<or> Slots (Prof_Resources p) \<le> 0 then Inl ErrInvalid
          else
            (let generation = SpawnGeneration (Op_Demand q) s;
                 name = instanceName q generation;
                 operationID = attemptIdentity (Op_ID q) generation;
                 ownership = \<lparr>Own_ControllerID = Ctl_ControllerID c, Own_ResourceID = Key_String (Op_Demand q), Own_OperationID = operationID\<rparr>;
                 i = zero_DurableInstance\<lparr>DI_ID := name, DI_Repo := Key_Repo (Op_Demand q), DI_Platform := Prof_Platform p, DI_Profile := Prof_ID p,
                       DI_Route := Prof_Route p, DI_Resources := Prof_Resources p, DI_Demand := Op_Demand q, DI_Image := Ctl_Images c (Prof_Platform p),
                       DI_State := InstancePlanned, DI_Version := 0, DI_Ownership := ownership, DI_CreatedAt := now, DI_UpdatedAt := now\<rparr>
             in Inr (\<lparr>II_ExpectedVersion = -1, II_ExpectedState = InstanceOther [], II_Instance = i\<rparr>,
                     outbox q operationID OperationProvisionKind name ownership now)))"

definition translate_operation :: "Controller \<Rightarrow> store \<Rightarrow> time \<Rightarrow> Operation \<Rightarrow> (InstanceIntent \<times> DurableOperation) outcome" where
  "translate_operation c s now q =
     (case Op_Kind q of
        OperationDrain \<Rightarrow> translate_drain s now q
      | OperationSpawn \<Rightarrow> translate_spawn c s now q
      | OperationKindOther _ \<Rightarrow> Inl ErrInvalid)"

fun translate_all :: "Controller \<Rightarrow> store \<Rightarrow> time \<Rightarrow> Operation list \<Rightarrow> (InstanceIntent \<times> DurableOperation) list outcome" where
  "translate_all c s now [] = Inr []"
| "translate_all c s now (q # qs) =
     (case translate_operation c s now q of
        Inl e \<Rightarrow> Inl e
      | Inr x \<Rightarrow> (case translate_all c s now qs of Inl e \<Rightarrow> Inl e | Inr xs \<Rightarrow> Inr (x # xs)))"

definition translate :: "Controller \<Rightarrow> store \<Rightarrow> Plan \<Rightarrow> DurableScheduler \<Rightarrow> string \<Rightarrow> time \<Rightarrow> DurablePlan outcome" where
  "translate c s plan prior cursor now =
     (let durable = \<lparr>DP_ID = durablePlanID (Ctl_Mode c) (Plan_ID plan) (DS_Version prior), DP_ExpectedSchedulerVersion = DS_Version prior,
            DP_Scheduler = \<lparr>DS_Version = DS_Version prior + 1, DS_Data = state_json (Plan_Next plan), DS_Reservations = reservation_json (Plan_Next plan),
              DS_DeficitRoundRobin = drr_json (Plan_Next plan), DS_ObservationCursor = cursor\<rparr>,
            DP_Instances = [], DP_Operations = [], DP_CreatedAt = now\<rparr>
      in if Ctl_Mode c = ModeShadow then Inr durable
         else (case translate_all c s now (Plan_Operations plan) of
                 Inl e \<Rightarrow> Inl e
               | Inr xs \<Rightarrow> Inr (durable\<lparr>DP_Instances := map fst xs, DP_Operations := map snd xs\<rparr>)))"

section \<open>Commit\<close>

text \<open>\<open>None\<close> as the store is the controller without one.\<close>

definition Commit :: "Controller \<Rightarrow> store option \<Rightarrow> Plan \<Rightarrow> string \<Rightarrow> time \<Rightarrow> (bool \<times> store option) outcome" where
  "Commit c st plan cursor now =
     (case st of
        None \<Rightarrow> Inl ErrInvalid
      | Some s \<Rightarrow>
          if TrimSpace (Ctl_ControllerID c) = [] \<or> \<not> Mode_Valid (Ctl_Mode c) \<or> time_IsZero now \<or> Plan_ID plan = [] then Inl ErrInvalid
          else if Plan_Status plan = PlanBlockedObservation then Inr (False, st)
          else if Plan_Status plan \<noteq> PlanReady then Inl ErrUncertain
          else if Ctl_Mode c = ModeObserve then Inr (False, st)
          else (case SchedulerState s of
            Inl e \<Rightarrow> Inl e
          | Inr prior \<Rightarrow>
              (case (if Plan_Operations plan = [] then schedulerStateMatches prior (Plan_Next plan) cursor else Inr False) of
                 Inl e \<Rightarrow> Inl e
               | Inr True \<Rightarrow> Inr (False, st)
               | Inr False \<Rightarrow>
                   (case translate c s plan prior cursor now of
                      Inl e \<Rightarrow> Inl e
                    | Inr durable \<Rightarrow> map_sum id (\<lambda>(fresh, s'). (fresh, Some s')) (ApplyPlan durable s)))))"

section \<open>What the encoders print decodes\<close>

definition printed :: "string \<Rightarrow> bool" where
  "printed t \<longleftrightarrow> (\<exists>v. json_wf v \<and> t = json_print v)"

lemma printed_leaves [simp, intro]:
  "printed ''null''" "printed (json_bool b)" "printed (json_string s)" "printed (decimal i)"
proof -
  show "printed ''null''" unfolding printed_def by (intro exI [of _ JNull]) simp
  show "printed (json_bool b)" unfolding printed_def by (intro exI [of _ "JBool b"]) (simp add: json_bool_def)
  show "printed (json_string s)" unfolding printed_def by (intro exI [of _ "JString s"]) simp
  show "printed (decimal i)" unfolding printed_def by (intro exI [of _ "JNumber (decimal i)"]) (simp add: number_text_decimal)
qed

lemma printed_object [intro]: "(\<And>k t. (k, t) \<in> set fs \<Longrightarrow> printed t) \<Longrightarrow> printed (json_object fs)"
proof -
  assume parts: "\<And>k t. (k, t) \<in> set fs \<Longrightarrow> printed t"
  have "\<exists>gs. list_all (\<lambda>g. json_wf (snd g)) gs \<and> map (\<lambda>(k, v). (k, json_print v)) gs = fs" using parts
  proof (induction fs)
    case (Cons f fs)
    obtain k t where f: "f = (k, t)" by force
    then obtain v where "json_wf v" "t = json_print v" using Cons.prems by (auto simp: printed_def)
    moreover obtain gs where "list_all (\<lambda>g. json_wf (snd g)) gs" "map (\<lambda>(k, v). (k, json_print v)) gs = fs" using Cons by auto
    ultimately show ?case using f by (intro exI [of _ "(k, v) # gs"]) simp
  qed simp
  then obtain gs where gs: "list_all (\<lambda>g. json_wf (snd g)) gs" "map (\<lambda>(k, v). (k, json_print v)) gs = fs" by blast
  then show ?thesis unfolding printed_def by (intro exI [of _ "JObject gs"]) simp
qed

lemma printed_time: "json_time t = Some s \<Longrightarrow> printed s"
  by (auto simp: json_time_def Let_def split: prod.splits if_splits)

lemma printed_key: "printed (json_key k)"
  unfolding json_key_def by (rule printed_object) auto

lemma printed_objects:
  "json_reservation r = Some s \<Longrightarrow> printed s"
  "json_macHandoff h = Some s \<Longrightarrow> printed s"
  "json_linuxHandoff l = Some s \<Longrightarrow> printed s"
proof -
  have obj: "printed (json_object fs)" if "list_all (\<lambda>f. printed (snd f)) fs" for fs using that by (intro printed_object) (auto simp: list_all_iff)
  show "printed s" if "json_reservation r = Some s"
    using that printed_time by (auto simp: json_reservation_def printed_key split: Option.bind_splits intro!: obj)
  show "printed s" if "json_macHandoff h = Some s"
    using that printed_time by (auto simp: json_macHandoff_def printed_key split: Option.bind_splits intro!: obj)
  show "printed s" if "json_linuxHandoff l = Some s"
    using that printed_time by (auto simp: json_linuxHandoff_def printed_key split: Option.bind_splits intro!: obj)
qed

lemma printed_nullable: "json_nullable f x = Some s \<Longrightarrow> (\<And>v t. f v = Some t \<Longrightarrow> printed t) \<Longrightarrow> printed s"
  by (auto simp: json_nullable_def split: option.splits)

lemma printed_state: "json_state st = Some t \<Longrightarrow> printed t"
proof -
  assume "json_state st = Some t"
  then obtain r m l where parts: "json_nullable json_reservation (St_Reservation st) = Some r" "json_nullable json_macHandoff (St_MacHandoff st) = Some m"
    "json_nullable json_linuxHandoff (St_LinuxHandoff st) = Some l"
    and t: "t = json_object [(''Reservation'', r), (''DRRCursor'', json_string (St_DRRCursor st)), (''MacHandoff'', m), (''LinuxHandoff'', l)]"
    by (auto simp: json_state_def split: Option.bind_splits)
  have "printed r" "printed m" "printed l"
    by (rule printed_nullable [OF parts(1)], erule printed_objects, rule printed_nullable [OF parts(2)], erule printed_objects,
        rule printed_nullable [OF parts(3)], erule printed_objects)
  then show ?thesis unfolding t by (intro printed_object) auto
qed

lemma printed_drr: "printed (drr_json st)"
  unfolding drr_json_def by (rule printed_object) auto

lemma state_has_reservation: "json_state st \<noteq> None \<Longrightarrow> json_nullable json_reservation (St_Reservation st) \<noteq> None"
  by (auto simp: json_state_def split: Option.bind_splits)

text \<open>A text an encoder printed is equivalent to itself, and it is never empty.\<close>

lemma printed_nonempty: "printed t \<Longrightarrow> t \<noteq> []"
  using json_print_head by (fastforce simp: printed_def)

lemma printed_equivalent: "printed t \<Longrightarrow> jsonEquivalent (jsonOrDefault t d) fallback t = Inr True"
proof -
  assume p: "printed t"
  then obtain v where "json_wf v" "t = json_print v" by (auto simp: printed_def)
  then have "json_decode t = Some v" using json_decode_print by blast
  then show ?thesis using printed_nonempty [OF p] by (simp add: jsonEquivalent_def json_normalize_def jsonOrDefault_def)
qed

text \<open>What \<open>ApplyPlan\<close> stored of a scheduler state matches it.\<close>

lemma stored_state_matches:
  assumes "json_state st \<noteq> None" and "ST_scheduler s = Some \<lparr>SR_version = v, SR_data = jsonOrDefault (state_json st) ''{}'',
      SR_reservations = jsonOrDefault (reservation_json st) ''[]'', SR_drr_state = jsonOrDefault (drr_json st) ''{}'', SR_cursor = cursor, SR_updated_at = t\<rparr>"
  shows "\<exists>prior. SchedulerState s = Inr prior \<and> schedulerStateMatches prior st cursor = Inr True"
proof -
  obtain state where state: "json_state st = Some state" using assms(1) by blast
  obtain reservation where reservation: "json_nullable json_reservation (St_Reservation st) = Some reservation" using state_has_reservation [OF assms(1)] by blast
  have "printed (state_json st)" "printed (reservation_json st)" "printed (drr_json st)"
    using printed_state [OF state] printed_nullable [OF reservation] printed_objects(1) state reservation printed_drr
    by (auto simp: state_json_def reservation_json_def marshal_or_empty_def)
  then show ?thesis using assms(2) by (simp add: SchedulerState_def schedulerStateMatches_def printed_equivalent)
qed

section \<open>Commits\<close>

lemma Commit_accepts:
  assumes "Commit c st plan cursor now = Inr (True, st')"
  obtains s prior durable s' where "st = Some s" "st' = Some s'" "SchedulerState s = Inr prior" "translate c s plan prior cursor now = Inr durable"
    "ApplyPlan durable s = Inr (True, s')" "Plan_Status plan = PlanReady" "Ctl_Mode c \<noteq> ModeObserve" "Mode_Valid (Ctl_Mode c)"
    "TrimSpace (Ctl_ControllerID c) \<noteq> []" "\<not> time_IsZero now" "Plan_ID plan \<noteq> []"
proof -
  obtain s where s: "st = Some s" using assms by (cases st) (auto simp: Commit_def)
  have guards: "TrimSpace (Ctl_ControllerID c) \<noteq> []" "Mode_Valid (Ctl_Mode c)" "\<not> time_IsZero now" "Plan_ID plan \<noteq> []"
    using assms s by (auto simp: Commit_def split: if_splits)
  have ready: "Plan_Status plan = PlanReady" "Ctl_Mode c \<noteq> ModeObserve" using assms s guards by (auto simp: Commit_def split: if_splits)
  obtain prior where prior: "SchedulerState s = Inr prior" using assms s guards ready by (auto simp: Commit_def split: sum.splits)
  have run: "(case translate c s plan prior cursor now of Inl e \<Rightarrow> Inl e
      | Inr durable \<Rightarrow> map_sum id (\<lambda>(fresh, s'). (fresh, Some s')) (ApplyPlan durable s)) = Inr (True, st')"
    using assms s guards ready prior by (simp add: Commit_def split: sum.splits bool.splits if_splits)
  then obtain durable where durable: "translate c s plan prior cursor now = Inr durable" by (cases "translate c s plan prior cursor now") auto
  with run obtain s' where "ApplyPlan durable s = Inr (True, s')" "st' = Some s'" by (cases "ApplyPlan durable s") auto
  with s guards ready prior durable show thesis by (intro that)
qed

section \<open>What a commit writes\<close>

lemma apply_all_frame:
  assumes "apply_all f xs s = Inr s'" and "\<And>x t t'. f x t = Inr t' \<Longrightarrow> g t' = g t"
  shows "g s' = g s"
  using assms(1)
proof (induction xs arbitrary: s)
  case (Cons x xs)
  then obtain t where t: "f x s = Inr t" "apply_all f xs t = Inr s'" by (auto split: sum.splits)
  from Cons.IH [OF t(2)] assms(2) [OF t(1)] show ?case by simp
qed simp

lemma record_dependencies_rows:
  "apply_all (\<lambda>(k, d). record_dependency k d) es s = Inr s' \<Longrightarrow> ST_dependencies s' = ST_dependencies s @ es"
proof (induction es arbitrary: s)
  case (Cons e es)
  obtain k d where e: "e = (k, d)" by force
  with Cons.prems obtain t where t: "record_dependency k d s = Inr t" "apply_all (\<lambda>(k, d). record_dependency k d) es t = Inr s'" by (auto split: sum.splits)
  then have "ST_dependencies t = ST_dependencies s @ [e]" using e by (auto simp: record_dependency_def split: if_splits)
  with Cons.IH [OF t(2)] show ?case by simp
qed simp

lemma ApplyPlan_writes:
  assumes "ApplyPlan p s = Inr (True, s')"
  shows "ST_operations s' = ST_operations s @ map (\<lambda>q. op_row_of q (unix_nanos (DP_CreatedAt p))) (DP_Operations p)"
    and "ST_dependencies s' = ST_dependencies s @ plan_edges p"
    and "DP_Instances p = [] \<Longrightarrow> ST_instances s' = ST_instances s"
    and "\<exists>row. ST_scheduler s' = Some row \<and> row = \<lparr>SR_version = DS_Version (DP_Scheduler p), SR_data = jsonOrDefault (DS_Data (DP_Scheduler p)) ''{}'',
      SR_reservations = jsonOrDefault (DS_Reservations (DP_Scheduler p)) ''[]'', SR_drr_state = jsonOrDefault (DS_DeficitRoundRobin (DP_Scheduler p)) ''{}'',
      SR_cursor = DS_ObservationCursor (DP_Scheduler p), SR_updated_at = unix_nanos (DP_CreatedAt p)\<rparr>"
proof -
  obtain digest s1 s2 s3 row where
    run: "apply_all (apply_intent (unix_nanos (DP_CreatedAt p))) (DP_Instances p) s = Inr s1"
      "apply_all (insertOperation (unix_nanos (DP_CreatedAt p))) (DP_Operations p) s1 = Inr s2"
      "apply_all (\<lambda>(operation, dependency). record_dependency operation dependency) (plan_edges p) s2 = Inr s3"
    and s': "s' = s3\<lparr>ST_scheduler := Some row, ST_plans := ST_plans s3 @ [(DP_ID p, digest)]\<rparr>"
    and row: "row = \<lparr>SR_version = DS_Version (DP_Scheduler p), SR_data = jsonOrDefault (DS_Data (DP_Scheduler p)) ''{}'',
      SR_reservations = jsonOrDefault (DS_Reservations (DP_Scheduler p)) ''[]'', SR_drr_state = jsonOrDefault (DS_DeficitRoundRobin (DP_Scheduler p)) ''{}'',
      SR_cursor = DS_ObservationCursor (DP_Scheduler p), SR_updated_at = unix_nanos (DP_CreatedAt p)\<rparr>"
    using assms by (elim ApplyPlan_True) auto
  have intent: "ST_operations s1 = ST_operations s" "ST_dependencies s1 = ST_dependencies s"
    by (rule apply_all_frame [OF run(1)]; auto simp: apply_intent_def Let_def split: if_splits)+
  have rows: "s2 = s1\<lparr>ST_operations := ST_operations s1 @ map (\<lambda>q. op_row_of q (unix_nanos (DP_CreatedAt p))) (DP_Operations p)\<rparr>"
    by (rule insertOperations_rows [OF run(2)])
  have edges: "ST_dependencies s3 = ST_dependencies s2 @ plan_edges p" by (rule record_dependencies_rows [OF run(3)])
  have frame: "ST_operations s3 = ST_operations s2" "ST_instances s3 = ST_instances s2"
    by (rule apply_all_frame [OF run(3)]; auto simp: record_dependency_def split: if_splits)+
  show "ST_operations s' = ST_operations s @ map (\<lambda>q. op_row_of q (unix_nanos (DP_CreatedAt p))) (DP_Operations p)"
    "ST_dependencies s' = ST_dependencies s @ plan_edges p" using intent rows edges frame by (simp_all add: s')
  show "ST_instances s' = ST_instances s" if "DP_Instances p = []" using run(1) that rows frame by (simp add: s')
  show "\<exists>row. ST_scheduler s' = Some row \<and> row = \<lparr>SR_version = DS_Version (DP_Scheduler p), SR_data = jsonOrDefault (DS_Data (DP_Scheduler p)) ''{}'',
      SR_reservations = jsonOrDefault (DS_Reservations (DP_Scheduler p)) ''[]'', SR_drr_state = jsonOrDefault (DS_DeficitRoundRobin (DP_Scheduler p)) ''{}'',
      SR_cursor = DS_ObservationCursor (DP_Scheduler p), SR_updated_at = unix_nanos (DP_CreatedAt p)\<rparr>" using row by (simp add: s')
qed

text \<open>The row of a decision: waiting, of the right kind and on the right resource.\<close>

definition carries_out :: "Operation \<Rightarrow> op_row \<Rightarrow> bool" where
  "carries_out q r \<longleftrightarrow> OR_status r = OperationPending
     \<and> (Op_Kind q = OperationDrain \<longrightarrow> OR_kind r = OperationDrainKind \<and> OR_resource_id r = Op_Instance q)
     \<and> (Op_Kind q = OperationSpawn \<longrightarrow> OR_kind r = OperationProvisionKind)"

lemma store_Instance_id: "store_Instance k s = Inr i \<Longrightarrow> DI_ID i = k"
  by (auto simp: store_Instance_def scanInstance_def decodeSchedulingMetadata_def Let_def find_Some_iff split: option.splits sum.splits if_splits)

lemma translate_carries_out:
  "translate_operation c s now q = Inr (t, d) \<Longrightarrow> carries_out q (op_row_of d stamp) \<and> DO_DependsOn d = Op_DependsOn q"
  by (auto simp: translate_operation_def translate_drain_def translate_spawn_def Let_def outbox_def carries_out_def op_row_of_def
      dest: store_Instance_id split: OperationKind.splits sum.splits option.splits if_splits)

lemma translate_all_carries_out:
  "translate_all c s now qs = Inr xs \<Longrightarrow> list_all2 carries_out qs (map (\<lambda>d. op_row_of d stamp) (map snd xs))"
proof (induction qs arbitrary: xs)
  case (Cons q qs)
  then obtain t d ys where "translate_operation c s now q = Inr (t, d)" "translate_all c s now qs = Inr ys" "xs = (t, d) # ys"
    by (auto split: sum.splits)
  then show ?case using translate_carries_out Cons.IH by simp
qed simp

lemma applied_pair: "map_sum id (\<lambda>(fresh, s'). (fresh, Some s')) x = Inr (b, Some t) \<Longrightarrow> x = Inr (b, t)"
  by (cases x) auto

lemma Commit_False: "Commit c (Some s) plan cursor now = Inr (False, Some s') \<Longrightarrow> s' = s"
  by (auto simp: Commit_def dest!: applied_pair ApplyPlan_False split: if_splits sum.splits bool.splits)

text \<open>
  C7. A commit writes exactly what the planner decided. An accepted plan was ready and the mode was not
  observation; the scheduler version moves on by one; in shadow mode outbox, dependencies and instances stay as they
  were, and otherwise the outbox gains one waiting row for every operation of the plan, in order, a
  deregistration of the drained instance or a clone. A commit that accepts nothing changes nothing.
\<close>

theorem commit_writes_the_plan:
  assumes "Commit c (Some s) plan cursor now = Inr (fresh, Some s')"
  shows "(\<not> fresh \<and> s' = s)
    \<or> (Plan_Status plan = PlanReady \<and> Ctl_Mode c \<noteq> ModeObserve \<and> version_of s' = version_of s + 1
       \<and> (if Ctl_Mode c = ModeShadow
          then ST_operations s' = ST_operations s \<and> ST_dependencies s' = ST_dependencies s \<and> ST_instances s' = ST_instances s
          else (\<exists>rows. ST_operations s' = ST_operations s @ rows \<and> list_all2 carries_out (Plan_Operations plan) rows)))"
proof (cases fresh)
  case False
  with assms show ?thesis using Commit_False by auto
next
  case True
  with assms have "Commit c (Some s) plan cursor now = Inr (True, Some s')" by simp
  then obtain prior durable where run: "SchedulerState s = Inr prior" "translate c s plan prior cursor now = Inr durable" "ApplyPlan durable s = Inr (True, s')"
    and mode: "Plan_Status plan = PlanReady" "Ctl_Mode c \<noteq> ModeObserve" by (elim Commit_accepts) auto
  note writes = ApplyPlan_writes [OF run(3)]
  have version: "DS_Version (DP_Scheduler durable) = DS_Version prior + 1" "version_of s = DS_Version prior"
    using run(1,2) by (auto simp: translate_def Let_def SchedulerState_def version_of_def split: if_splits sum.splits option.splits)
  then have "version_of s' = version_of s + 1" using writes(4) by (auto simp: version_of_def)
  moreover have "ST_operations s' = ST_operations s \<and> ST_dependencies s' = ST_dependencies s \<and> ST_instances s' = ST_instances s" if "Ctl_Mode c = ModeShadow"
    using run(2) that writes(1-3) by (auto simp: translate_def Let_def plan_edges_def)
  moreover have "\<exists>rows. ST_operations s' = ST_operations s @ rows \<and> list_all2 carries_out (Plan_Operations plan) rows" if shadow: "Ctl_Mode c \<noteq> ModeShadow"
  proof -
    obtain xs where xs: "translate_all c s now (Plan_Operations plan) = Inr xs" and ops: "DP_Operations durable = map snd xs"
      using run(2) shadow by (auto simp: translate_def Let_def split: sum.splits)
    show ?thesis using writes(1) ops translate_all_carries_out [OF xs] by auto
  qed
  ultimately show ?thesis using mode by auto
qed

text \<open>
  C8. A quiet plan is committed once. When a plan without operations was accepted, committing the same scheduler
  state and cursor again finds the stored state equivalent, through the JSON text it was stored as, and writes
  nothing.
\<close>

theorem quiet_commit_settles:
  assumes "Commit c st plan cursor now = Inr (True, st')" and "Plan_Operations plan = []" and "json_state (Plan_Next plan) \<noteq> None" and "\<not> time_IsZero later"
  shows "Commit c st' plan cursor later = Inr (False, st')"
proof -
  obtain s prior durable s' where run: "st' = Some s'" "translate c s plan prior cursor now = Inr durable" "ApplyPlan durable s = Inr (True, s')"
    and guards: "Plan_Status plan = PlanReady" "Ctl_Mode c \<noteq> ModeObserve" "Mode_Valid (Ctl_Mode c)" "TrimSpace (Ctl_ControllerID c) \<noteq> []" "Plan_ID plan \<noteq> []"
    using assms(1) by (elim Commit_accepts) auto
  have "DP_Scheduler durable = \<lparr>DS_Version = DS_Version prior + 1, DS_Data = state_json (Plan_Next plan), DS_Reservations = reservation_json (Plan_Next plan),
      DS_DeficitRoundRobin = drr_json (Plan_Next plan), DS_ObservationCursor = cursor\<rparr>"
    using run(2) by (auto simp: translate_def Let_def split: if_splits sum.splits)
  then obtain prior' where "SchedulerState s' = Inr prior'" "schedulerStateMatches prior' (Plan_Next plan) cursor = Inr True"
    using ApplyPlan_writes(4) [OF run(3)] stored_state_matches [OF assms(3), of s'] by auto
  with assms(2,4) guards run(1) show ?thesis by (simp add: Commit_def)
qed

definition fx_controller :: Controller where
  "fx_controller = \<lparr>Ctl_ControllerID = ''ctl'', Ctl_Mode = ModeCanary, Ctl_Profiles = Map.empty, Ctl_Images = (\<lambda>_. [])\<rparr>"

definition fx_decided :: "Operation list \<Rightarrow> Plan" where
  "fx_decided ops = (new_Plan PlanReady \<lparr>St_Reservation = None, St_DRRCursor = ''a/x'', St_MacHandoff = None, St_LinuxHandoff = None\<rparr> [])
     \<lparr>Plan_ID := ''plan-1'', Plan_Operations := ops\<rparr>"

definition fx_drain_old :: Operation where
  "fx_drain_old = zero_Operation\<lparr>Op_ID := ''op-1'', Op_Kind := OperationDrain, Op_Instance := ''old''\<rparr>"

theorem commit_writes_the_plan_witness:
  "\<exists>s'. Commit fx_controller (Some fx_s0) (fx_decided [fx_drain_old]) ''c'' fx_time = Inr (True, Some s')
     \<and> (\<exists>rows. ST_operations s' = ST_operations fx_s0 @ rows \<and> list_all2 carries_out [fx_drain_old] rows)"
proof -
  let ?run = "Commit fx_controller (Some fx_s0) (fx_decided [fx_drain_old]) ''c'' fx_time"
  have "isl ?run = False" "fst (projr ?run) = True" "snd (projr ?run) = None \<longleftrightarrow> False" "ST_operations (the (snd (projr ?run))) = [] \<longleftrightarrow> False" by code_simp+
  then obtain s' where run: "?run = Inr (True, Some s')" "ST_operations s' \<noteq> []" by (cases ?run) auto
  have "ST_operations fx_s0 = []" by code_simp
  then show ?thesis using commit_writes_the_plan [OF run(1)] run by (auto simp: fx_controller_def fx_decided_def)
qed

lemma Commit_runs:
  assumes "SchedulerState s = Inr prior" "Plan_Operations plan = [] \<Longrightarrow> schedulerStateMatches prior (Plan_Next plan) cursor = Inr False"
    "translate c s plan prior cursor now = Inr durable" "ApplyPlan durable s = Inr (fresh, s')"
    "TrimSpace (Ctl_ControllerID c) \<noteq> []" "Mode_Valid (Ctl_Mode c)" "Ctl_Mode c \<noteq> ModeObserve" "\<not> time_IsZero now" "Plan_ID plan \<noteq> []"
    "Plan_Status plan = PlanReady"
  shows "Commit c (Some s) plan cursor now = Inr (fresh, Some s')"
  using assms by (simp add: Commit_def)

lemma printed_comparable: "printed t \<Longrightarrow> json_decode current \<noteq> None \<Longrightarrow> current \<noteq> [] \<Longrightarrow> \<exists>b. jsonEquivalent current fallback t = Inr b"
  using json_decode_print by (auto simp: printed_def jsonEquivalent_def json_normalize_def)

theorem quiet_commit_settles_witness:
  "\<exists>st'. Commit fx_controller (Some empty_store) (fx_decided []) ''c'' fx_time = Inr (True, st')
     \<and> Commit fx_controller st' (fx_decided []) ''c'' (fx_time + second) = Inr (False, st')"
proof -
  let ?st = "Plan_Next (fx_decided [])" and ?prior = "projr (SchedulerState empty_store)"
  have prior: "SchedulerState empty_store = Inr ?prior" "DS_ObservationCursor ?prior = []" "DS_Data ?prior = ''{}''" "DS_Reservations ?prior = ''[]''" "DS_DeficitRoundRobin ?prior = ''{}''"
    by (simp_all add: SchedulerState_def empty_store_def seed_scheduler_def)
  have state: "json_state ?st \<noteq> None" by (simp add: fx_decided_def new_Plan_def json_state_def json_nullable_def)
  then have pr: "printed (state_json ?st)" "printed (reservation_json ?st)" "printed (drr_json ?st)"
    using printed_state printed_drr by (auto simp: state_json_def marshal_or_empty_def reservation_json_def fx_decided_def new_Plan_def json_nullable_def)
  have "json_decode ''{}'' \<noteq> None" "json_decode ''[]'' \<noteq> None" by code_simp+
  then obtain b1 b2 b3 where "jsonEquivalent ''{}'' ''{}'' (state_json ?st) = Inr b1" "jsonEquivalent ''[]'' ''[]'' (reservation_json ?st) = Inr b2"
    "jsonEquivalent ''{}'' ''{}'' (drr_json ?st) = Inr b3"
    using printed_comparable pr by (metis list.distinct(1))
  then have "schedulerStateMatches ?prior ?st ''c'' = Inr False" using prior by (cases b1; cases b2; cases b3) (simp_all add: schedulerStateMatches_def)
  moreover have "isl (translate fx_controller empty_store (fx_decided []) ?prior ''c'' fx_time) = False" by code_simp
  then obtain durable where durable: "translate fx_controller empty_store (fx_decided []) ?prior ''c'' fx_time = Inr durable"
    by (cases "translate fx_controller empty_store (fx_decided []) ?prior ''c'' fx_time") auto
  moreover have "isl (ApplyPlan (projr (translate fx_controller empty_store (fx_decided []) ?prior ''c'' fx_time)) empty_store) = False"
    "fst (projr (ApplyPlan (projr (translate fx_controller empty_store (fx_decided []) ?prior ''c'' fx_time)) empty_store)) = True" by code_simp+
  then obtain s' where "ApplyPlan durable empty_store = Inr (True, s')" using durable by (cases "ApplyPlan durable empty_store") auto
  moreover have "Plan_Status (fx_decided []) = PlanReady" "Plan_ID (fx_decided []) = ''plan-1''" "Plan_Operations (fx_decided []) = []"
    "Ctl_Mode fx_controller = ModeCanary" "Ctl_ControllerID fx_controller = ''ctl''"
    by (simp_all add: fx_decided_def new_Plan_def fx_controller_def)
  moreover have guards: "TrimSpace ''ctl'' \<noteq> []" "\<not> time_IsZero fx_time" "\<not> time_IsZero (fx_time + second)" by code_simp+
  ultimately have first: "Commit fx_controller (Some empty_store) (fx_decided []) ''c'' fx_time = Inr (True, Some s')"
    by (intro Commit_runs [OF prior(1)]) (simp_all add: Mode_Valid_def)
  have "Plan_Operations (fx_decided []) = []" by (simp add: fx_decided_def)
  from quiet_commit_settles [OF first this state guards(3)] first show ?thesis by blast
qed

end
