(* ===== verification/Executor_Ports.thy ===== *)
theory Executor_Ports
  imports Reconcile "HOL-Library.State_Monad"
begin

text \<open>
  What the lifecycle executors (\<^verbatim>\<open>lifecycle/executor.go\<close>) call and how a run is recorded: the ports as functions on the
  world, the state monad of a run, and \<open>appends\<close>, the rules that describe the calls a computation adds to the log whatever
  the surroundings answer.
\<close>

section \<open>Calls\<close>

datatype ctx_error = Canceled | DeadlineExceeded

datatype exec_error = Op OpError | Staged stageError | Context ctx_error

record InstanceSpec =
  Spec_Name :: string
  Spec_Image :: string
  Spec_CPU :: int
  Spec_MemoryMB :: int
  Spec_DiskGB :: int
  Spec_Ownership :: Ownership

text \<open>
  What an executor asks of its surroundings, each call with the answer it got. \<open>False\<close> and \<^const>\<open>None\<close> stand for an
  error that the executor only compares with nil.
\<close>

datatype port_call =
    InstanceRead string "DurableInstance outcome"
  | Changed StateChange "DurableInstance outcome"
  | ContextRead "ctx_error option"
  | ClockRead time
  | CreateCalled InstanceSpec bool
  | StartCalled string Ownership bool
  | StopCalled string Ownership bool
  | TerminateCalled string Ownership bool
  | DestroyCalled string Ownership bool
  | DeleteCalled string Ownership bool
  | PowerRead string "InstancePower option"
  | ReadyWaited string bool
  | RegisteredRead string "bool option"
  | RegistrationReset string bool
  | JITAcquired int string string "bool \<times> string option"
  | SecretDestroyed string
  | Bootstrapped string string "string list" "stageError option option"
  | SafeRead string "bool option"
  | RunnerRegisteredRead string "bool option"
  | RunnerBusyRead string "bool option"
  | StartUnattributedRead string "bool option"
  | Deregistered string "adapter_error option"
  | ConfirmationRead string "DeletionConfirmation option"
  | ProbeRead string GuestLiveness
  | TrafficRecorded string
  | RefusalRecorded string
  | AbortReported string string AbortEvidence

section \<open>Runs\<close>

text \<open>
  The world is the database and whatever else there is. A port answers and leaves a new world behind, in which other
  clients of the database may have committed transactions of their own. The log is what happened; no branch reads it.
\<close>

type_synonym ('w, 'a) port = "store \<times> 'w \<Rightarrow> 'a \<times> store \<times> 'w"

record 'w run =
  Run_World :: "store \<times> 'w"
  Run_Log :: "port_call list"

definition perform :: "('a \<Rightarrow> port_call) \<Rightarrow> ('w, 'a) port \<Rightarrow> ('w run, 'a) state" where
  "perform event p = State (\<lambda>r. case p (Run_World r) of (a, world) \<Rightarrow> (a, r\<lparr>Run_World := world, Run_Log := Run_Log r @ [event a]\<rparr>))"

text \<open>The ports. A nil interface is \<^const>\<open>None\<close> where it stands.\<close>

record 'w VMControl =
  VM_Create :: "InstanceSpec \<Rightarrow> ('w, bool) port"
  VM_Start :: "string \<Rightarrow> Ownership \<Rightarrow> ('w, bool) port"
  VM_Stop :: "string \<Rightarrow> Ownership \<Rightarrow> ('w, bool) port"
  VM_Terminate :: "string \<Rightarrow> Ownership \<Rightarrow> ('w, bool) port"
  VM_Destroy :: "string \<Rightarrow> Ownership \<Rightarrow> ('w, bool) port"
  VM_Delete :: "string \<Rightarrow> Ownership \<Rightarrow> ('w, bool) port"
  VM_Power :: "string \<Rightarrow> ('w, InstancePower option) port"

record 'w Registration =
  Reg_Registered :: "string \<Rightarrow> ('w, bool option) port"
  Reg_ResetRegistration :: "string \<Rightarrow> ('w, bool) port"
  Reg_AcquireAndGenerateJIT :: "int \<Rightarrow> string \<Rightarrow> string \<Rightarrow> ('w, bool \<times> string option) port"

record 'w DrainControl =
  DC_SafeToDeregister :: "DurableInstance \<Rightarrow> ('w, bool option) port"
  DC_Deregister :: "DurableInstance \<Rightarrow> ('w, adapter_error option) port"
  DC_ConfirmDeletion :: "string \<Rightarrow> ('w, DeletionConfirmation option) port"
  DC_RunnerRegistered :: "DurableInstance \<Rightarrow> ('w, bool option) port"
  DC_RunnerBusy :: "DurableInstance \<Rightarrow> ('w, bool option) port"
  DC_StartUnattributed :: "DurableInstance \<Rightarrow> ('w, bool option) port"

text \<open>
  What the language gives every executor: its context, the clock, and how many times the poll timer of a wait fires before
  its deadline does, given the timeout and the interval. The database stamps a transaction with \<open>Env_Stamp\<close>.
\<close>

record 'w Surroundings =
  Env_Err :: "('w, ctx_error option) port"
  Env_Now :: "('w, time) port"
  Env_Polls :: "duration \<Rightarrow> duration \<Rightarrow> store \<times> 'w \<Rightarrow> nat"
  Env_Stamp :: "store \<times> 'w \<Rightarrow> time"

definition ctx_Err :: "'w Surroundings \<Rightarrow> ('w run, ctx_error option) state" where
  "ctx_Err env = perform ContextRead (Env_Err env)"

definition polls :: "'w Surroundings \<Rightarrow> duration \<Rightarrow> duration \<Rightarrow> ('w run, nat) state" where
  "polls env timeout interval = State (\<lambda>r. (Env_Polls env timeout interval (Run_World r), r))"

section \<open>The state store of the executors\<close>

definition State_Instance :: "string \<Rightarrow> ('w run, DurableInstance outcome) state" where
  "State_Instance k = perform (InstanceRead k) (\<lambda>(s, w). (store_Instance k s, s, w))"

definition State_Advance :: "'w Surroundings \<Rightarrow> StateChange \<Rightarrow> ('w run, DurableInstance outcome) state" where
  "State_Advance env c = perform (Changed c)
     (\<lambda>(s, w). case Advance (Env_Stamp env (s, w)) c s of Inl e \<Rightarrow> (Inl e, s, w) | Inr (i, s') \<Rightarrow> (Inr i, s', w))"

definition change_to :: "DurableInstance \<Rightarrow> InstanceState \<Rightarrow> StateChange" where
  "change_to i nxt = \<lparr>SC_InstanceID = DI_ID i, SC_ExpectedState = DI_State i, SC_ExpectedVersion = DI_Version i, SC_NextState = nxt,
     SC_FailureCode = [], SC_Settles = zero_DurableOperation, SC_Outcome = []\<rparr>"

definition validateOwned :: "DurableInstance \<Rightarrow> string \<Rightarrow> bool" where
  "validateOwned i resourceID \<longleftrightarrow> DI_ID i \<noteq> [] \<and> DI_ID i = resourceID \<and> Own_Valid (DI_Ownership i) \<and> SchedulingMetadataValid i
     \<and> ValidateInstanceName (DI_ID i) = Inr ()"

text \<open>One pass of an executor's loop: it returns, or it goes on with what the store answered to the last change.\<close>

datatype pass = Return "exec_error option" | Goes_On "DurableInstance outcome"

abbreviation failed :: "LifecycleStage \<Rightarrow> pass" where
  "failed stage \<equiv> Return (Some (Staged (safeError stage)))"

section \<open>The calls a computation adds\<close>

text \<open>\<open>appends m L\<close>: whatever the surroundings answer, \<open>m\<close> adds calls to the log that its result and \<open>L\<close> describe.\<close>

definition appends :: "('w run, 'a) state \<Rightarrow> ('a \<Rightarrow> port_call list \<Rightarrow> bool) \<Rightarrow> bool" where
  "appends m L \<longleftrightarrow> (\<forall>r a r'. run_state m r = (a, r') \<longrightarrow> (\<exists>calls. Run_Log r' = Run_Log r @ calls \<and> L a calls))"

named_theorems appends_rules

lemma appends_return [appends_rules]: "L a [] \<Longrightarrow> appends (State_Monad.return a) L"
  by (simp add: appends_def State_Monad.return_def)

lemma appends_bind:
  assumes "appends m M" and "\<And>a calls. M a calls \<Longrightarrow> appends (f a) (\<lambda>b more. L b (calls @ more))"
  shows "appends (State_Monad.bind m f) L"
  unfolding appends_def
proof (intro allI impI)
  fix r b r'
  assume run: "run_state (State_Monad.bind m f) r = (b, r')"
  obtain a r1 where m: "run_state m r = (a, r1)" by fastforce
  then have f: "run_state (f a) r1 = (b, r')" using run by (simp add: State_Monad.bind_def)
  obtain calls where calls: "Run_Log r1 = Run_Log r @ calls" "M a calls" using assms(1) m unfolding appends_def by blast
  obtain rest where "Run_Log r' = Run_Log r1 @ rest" "L b (calls @ rest)" using assms(2) [OF calls(2)] f unfolding appends_def by blast
  then show "\<exists>calls. Run_Log r' = Run_Log r @ calls \<and> L b calls" using calls by auto
qed

lemma appends_perform [appends_rules]: "(\<And>a. L a [event a]) \<Longrightarrow> appends (perform event p) L"
  by (auto simp: appends_def perform_def split: prod.splits)

lemma appends_perform_bind [appends_rules]:
  assumes "\<And>a. appends (f a) (\<lambda>b more. L b (event a # more))"
  shows "appends (State_Monad.bind (perform event p) f) L"
  by (rule appends_bind [of _ "\<lambda>a calls. calls = [event a]"]) (auto intro: appends_rules simp: assms)

lemma appends_polls_bind [appends_rules]:
  "(\<And>n. appends (f n) L) \<Longrightarrow> appends (State_Monad.bind (polls env timeout interval) f) L"
  by (rule appends_bind [of _ "\<lambda>a calls. calls = []"]) (auto simp: appends_def polls_def)

lemma appends_if [appends_rules]: "(b \<Longrightarrow> appends m L) \<Longrightarrow> (\<not> b \<Longrightarrow> appends m' L) \<Longrightarrow> appends (if b then m else m') L"
  by simp

lemma appends_option [appends_rules]:
  "(x = None \<Longrightarrow> appends m L) \<Longrightarrow> (\<And>y. x = Some y \<Longrightarrow> appends (f y) L) \<Longrightarrow> appends (case x of None \<Rightarrow> m | Some y \<Rightarrow> f y) L"
  by (cases x) auto

lemma appends_sum [appends_rules]:
  "(\<And>e. x = Inl e \<Longrightarrow> appends (g e) L) \<Longrightarrow> (\<And>y. x = Inr y \<Longrightarrow> appends (f y) L) \<Longrightarrow> appends (case x of Inl e \<Rightarrow> g e | Inr y \<Rightarrow> f y) L"
  by (cases x) auto

lemma appends_nat [appends_rules]:
  "(n = 0 \<Longrightarrow> appends m L) \<Longrightarrow> (\<And>k. n = Suc k \<Longrightarrow> appends (f k) L) \<Longrightarrow> appends (case n of 0 \<Rightarrow> m | Suc k \<Rightarrow> f k) L"
  by (cases n) auto

lemma appends_bool [appends_rules]:
  "(b \<Longrightarrow> appends m L) \<Longrightarrow> (\<not> b \<Longrightarrow> appends m' L) \<Longrightarrow> appends (case b of True \<Rightarrow> m | False \<Rightarrow> m') L"
  by (cases b) auto

lemma appends_mono: "appends m L \<Longrightarrow> (\<And>a calls. L a calls \<Longrightarrow> L' a calls) \<Longrightarrow> appends m L'"
  by (force simp: appends_def)

lemma appends_log: "appends m L \<Longrightarrow> run_state m r = (a, r') \<Longrightarrow> Run_Log r = [] \<Longrightarrow> L a (Run_Log r')"
  by (fastforce simp: appends_def)

end
