(* ===== verification/Drain_Executor.thy ===== *)
theory Drain_Executor
  imports Executor_Ports
begin

text \<open>
  \<open>DrainExecutor.Execute\<close> (\<^verbatim>\<open>lifecycle/executor.go\<close>): the guards of the drain phases, the stop ladder, the passes over the
  instance's states, and the protocol of evidence every run keeps to.
\<close>

section \<open>The executor\<close>

record 'w DrainExecutor =
  Dr_State :: bool
  Dr_VM :: "'w VMControl option"
  Dr_Control :: "'w DrainControl option"
  Dr_ConfirmationMaxAge :: duration
  Dr_ConfirmationTimeout :: duration
  Dr_ConfirmationPollInterval :: duration
  Dr_Guest :: "(string \<Rightarrow> ('w, GuestLiveness) port) option"
  Dr_OnAbort :: "(DurableInstance \<Rightarrow> string \<Rightarrow> AbortEvidence \<Rightarrow> ('w, unit) port) option"
  Dr_Traffic :: "(DurableInstance \<Rightarrow> ('w, unit) port) option"
  Dr_Refusal :: "(DurableInstance \<Rightarrow> ('w, unit) port) option"
  Dr_Env :: "'w Surroundings"

definition confirmationMaxAge :: "'w DrainExecutor \<Rightarrow> duration" where
  "confirmationMaxAge e = (if Dr_ConfirmationMaxAge e \<le> 0 then 30 * second else Dr_ConfirmationMaxAge e)"

definition confirmationTimeout :: "'w DrainExecutor \<Rightarrow> duration" where
  "confirmationTimeout e = (if Dr_ConfirmationTimeout e \<le> 0 then 30 * second else Dr_ConfirmationTimeout e)"

definition confirmationPollInterval :: "'w DrainExecutor \<Rightarrow> duration" where
  "confirmationPollInterval e = (if Dr_ConfirmationPollInterval e \<le> 0 then second div 4 else Dr_ConfirmationPollInterval e)"

definition Dr_advance :: "'w DrainExecutor \<Rightarrow> DurableInstance \<Rightarrow> InstanceState \<Rightarrow> ('w run, DurableInstance outcome) state" where
  "Dr_advance e i nxt = State_Advance (Dr_Env e) (change_to i nxt)"

text \<open>The wait for a fresh confirmation: \<open>True\<close> when one came, \<open>False\<close> on an error or at the deadline.\<close>

definition confirm_once :: "'w DrainExecutor \<Rightarrow> 'w DrainControl \<Rightarrow> string \<Rightarrow> ('w run, bool) state \<Rightarrow> ('w run, bool) state" where
  "confirm_once e control k again = do {
     confirmation \<leftarrow> perform (ConfirmationRead k) (DC_ConfirmDeletion control k);
     (case confirmation of
        None \<Rightarrow> State_Monad.return False
      | Some c \<Rightarrow> do {
          now \<leftarrow> perform ClockRead (Env_Now (Dr_Env e));
          if DC_Safe c now (confirmationMaxAge e) then State_Monad.return True else again
        })
   }"

fun confirm_loop :: "'w DrainExecutor \<Rightarrow> 'w DrainControl \<Rightarrow> string \<Rightarrow> nat \<Rightarrow> ('w run, bool) state" where
  "confirm_loop e control k 0 = confirm_once e control k (State_Monad.return False)"
| "confirm_loop e control k (Suc n) = confirm_once e control k (confirm_loop e control k n)"

definition waitConfirmed :: "'w DrainExecutor \<Rightarrow> string \<Rightarrow> ('w run, bool) state" where
  "waitConfirmed e k =
     (case Dr_Control e of
        None \<Rightarrow> State_Monad.return False
      | Some control \<Rightarrow> do {
          n \<leftarrow> polls (Dr_Env e) (confirmationTimeout e) (confirmationPollInterval e);
          confirm_loop e control k n
        })"

definition abort_change :: "DurableOperation \<Rightarrow> DurableInstance \<Rightarrow> AbortEvidence \<Rightarrow> StateChange" where
  "abort_change q i evidence = (change_to i InstanceRunning)\<lparr>SC_Settles := q, SC_Outcome := AbortOutcome evidence\<rparr>"

definition abort_drain :: "'w DrainExecutor \<Rightarrow> DurableOperation \<Rightarrow> DurableInstance \<Rightarrow> AbortEvidence \<Rightarrow> ('w run, pass) state" where
  "abort_drain e q i evidence = do {
     changed \<leftarrow> State_Advance (Dr_Env e) (abort_change q i evidence);
     (case changed of
        Inl _ \<Rightarrow> State_Monad.return (failed StagePersist)
      | Inr _ \<Rightarrow>
          (case Dr_OnAbort e of
             None \<Rightarrow> State_Monad.return (Return None)
           | Some report \<Rightarrow> do {
               perform (\<lambda>_. AbortReported (DI_ID i) (DrainPhaseName (DI_DrainPhase i)) evidence) (report i (DrainPhaseName (DI_DrainPhase i)) evidence);
               State_Monad.return (Return None)
             }))
   }"

definition sample :: "(DurableInstance \<Rightarrow> ('w, unit) port) option \<Rightarrow> (string \<Rightarrow> port_call) \<Rightarrow> DurableInstance \<Rightarrow> ('w run, unit) state" where
  "sample recorder event i =
     (case recorder of None \<Rightarrow> State_Monad.return () | Some p \<Rightarrow> perform (\<lambda>_. event (DI_ID i)) (p i))"

definition stop_rung :: "'w VMControl \<Rightarrow> DurableInstance \<Rightarrow> DurableOperation \<Rightarrow> ('w run, exec_error option) state" where
  "stop_rung vm i q =
     (let k = DI_ID i; own = DI_Ownership i;
          ended = (\<lambda>ok. State_Monad.return (if \<not> ok then Some (Staged (stopError (StopAttempts q + 1))) else None)) in
      (case StopEscalation (StopAttempts q) of
         StopGraceful \<Rightarrow> do { ok \<leftarrow> perform (StopCalled k own) (VM_Stop vm k own); ended ok }
       | StopForced \<Rightarrow> do { ok \<leftarrow> perform (TerminateCalled k own) (VM_Terminate vm k own); ended ok }
       | StopDestructive \<Rightarrow> do { ok \<leftarrow> perform (DestroyCalled k own) (VM_Destroy vm k own); ended ok }
       | StopExhausted \<Rightarrow> do {
           power \<leftarrow> perform (PowerRead k) (VM_Power vm k);
           State_Monad.return (case power of
              Some p \<Rightarrow> if ProvenIdle p then None else Some (Staged (exhaustedError StageStop))
            | None \<Rightarrow> Some (Staged (exhaustedError StageStop)))
         }))"

definition stopGuest :: "'w DrainExecutor \<Rightarrow> DurableInstance \<Rightarrow> DurableOperation \<Rightarrow> ('w run, exec_error option) state" where
  "stopGuest e i q =
     (case Dr_VM e of
        None \<Rightarrow> State_Monad.return (Some (Staged (safeError StageStop)))
      | Some vm \<Rightarrow>
          if StopAttempts q = 0 \<and> DI_DrainPhase i \<noteq> DrainPhaseGuestUnresponsive then do {
            sample (Dr_Traffic e) TrafficRecorded i;
            sample (Dr_Refusal e) RefusalRecorded i;
            stop_rung vm i q
          }
          else stop_rung vm i q)"

text \<open>\<^const>\<open>None\<close> is permission to proceed.\<close>

definition verifyRunnerIdle :: "'w DrainExecutor \<Rightarrow> 'w DrainControl \<Rightarrow> DurableOperation \<Rightarrow> DurableInstance \<Rightarrow> ('w run, pass option) state" where
  "verifyRunnerIdle e control q i = do {
     busy \<leftarrow> perform (RunnerBusyRead (DI_ID i)) (DC_RunnerBusy control i);
     (case busy of
        None \<Rightarrow> State_Monad.return (Some (failed StageGuard))
      | Some True \<Rightarrow> do { r \<leftarrow> abort_drain e q i AbortEvidenceRunnerBusy; State_Monad.return (Some r) }
      | Some False \<Rightarrow> State_Monad.return None)
   }"

section \<open>The guards of the drain phases\<close>

definition guard_stopped :: "'w DrainExecutor \<Rightarrow> DurableOperation \<Rightarrow> DurableInstance \<Rightarrow> ('w run, pass option) state" where
  "guard_stopped e q i =
     (case Dr_VM e of
        None \<Rightarrow> State_Monad.return (Some (failed StageGuard))
      | Some vm \<Rightarrow> do {
          power \<leftarrow> perform (PowerRead (DI_ID i)) (VM_Power vm (DI_ID i));
          (case power of
             None \<Rightarrow> State_Monad.return (Some (failed StageGuard))
           | Some p \<Rightarrow>
               if p = InstancePowerRunning then do { r \<leftarrow> abort_drain e q i AbortEvidenceVMRunning; State_Monad.return (Some r) }
               else if p = InstancePowerStopped \<or> p = InstancePowerAbsent then State_Monad.return None
               else State_Monad.return (Some (failed StageGuard)))
        })"

definition guard_safe :: "'w DrainControl \<Rightarrow> DurableInstance \<Rightarrow> ('w run, pass option) state" where
  "guard_safe control i = do {
     safe \<leftarrow> perform (SafeRead (DI_ID i)) (DC_SafeToDeregister control i);
     State_Monad.return (if safe = Some True then None else Some (failed StageGuard))
   }"

definition guard_inactive :: "'w DrainExecutor \<Rightarrow> 'w DrainControl \<Rightarrow> DurableOperation \<Rightarrow> DurableInstance \<Rightarrow> ('w run, pass option) state" where
  "guard_inactive e control q i = do {
     registered \<leftarrow> perform (RunnerRegisteredRead (DI_ID i)) (DC_RunnerRegistered control i);
     (case registered of
        None \<Rightarrow> State_Monad.return (Some (failed StageGuard))
      | Some True \<Rightarrow> do { r \<leftarrow> abort_drain e q i AbortEvidenceRunnerRegistered; State_Monad.return (Some r) }
      | Some False \<Rightarrow> guard_safe control i)
   }"

definition guard_idle :: "'w DrainExecutor \<Rightarrow> 'w DrainControl \<Rightarrow> DurableOperation \<Rightarrow> DurableInstance \<Rightarrow> ('w run, pass option) state" where
  "guard_idle e control q i = do {
     verdict \<leftarrow> verifyRunnerIdle e control q i;
     (case verdict of
        Some r \<Rightarrow> State_Monad.return (Some r)
      | None \<Rightarrow> do {
          unattributed \<leftarrow> perform (StartUnattributedRead (DI_ID i)) (DC_StartUnattributed control i);
          State_Monad.return (if unattributed = Some False then None else Some (failed StageGuard))
        })
   }"

definition guard_stop_first :: "'w DrainExecutor \<Rightarrow> DurableOperation \<Rightarrow> DurableInstance \<Rightarrow> ('w run, pass option) state" where
  "guard_stop_first e q i = do {
     err \<leftarrow> stopGuest e i q;
     State_Monad.return (case err of None \<Rightarrow> None | Some x \<Rightarrow> Some (Return (Some x)))
   }"

definition guard_unresponsive :: "'w DrainExecutor \<Rightarrow> DurableOperation \<Rightarrow> DurableInstance \<Rightarrow> ('w run, pass option) state" where
  "guard_unresponsive e q i =
     (case Dr_Guest e of
        None \<Rightarrow> State_Monad.return (Some (failed StageGuard))
      | Some probe \<Rightarrow> do {
          answer \<leftarrow> perform (ProbeRead (DI_ID i)) (probe (DI_ID i));
          (if answer = GuestLivenessAlive then do { r \<leftarrow> abort_drain e q i AbortEvidenceGuestAnswered; State_Monad.return (Some r) }
           else if answer = GuestLivenessRefused then guard_stop_first e q i
           else State_Monad.return (Some (failed StageGuard)))
        })"

definition guard_unprovisioned :: "'w DrainControl \<Rightarrow> DurableInstance \<Rightarrow> ('w run, pass option) state" where
  "guard_unprovisioned control i = do {
     busy \<leftarrow> perform (RunnerBusyRead (DI_ID i)) (DC_RunnerBusy control i);
     State_Monad.return (if busy = Some False then None else Some (failed StageGuard))
   }"

definition guard_event :: "'w DrainExecutor \<Rightarrow> 'w DrainControl \<Rightarrow> DurableOperation \<Rightarrow> DurableInstance \<Rightarrow> ('w run, pass option) state" where
  "guard_event e control q i = do {
     verdict \<leftarrow> verifyRunnerIdle e control q i;
     (case verdict of Some r \<Rightarrow> State_Monad.return (Some r) | None \<Rightarrow> guard_safe control i)
   }"

definition drain_guard :: "'w DrainExecutor \<Rightarrow> 'w DrainControl \<Rightarrow> DurableOperation \<Rightarrow> DurableInstance \<Rightarrow> ('w run, pass option) state" where
  "drain_guard e control q i =
     (let phase = DI_DrainPhase i in
      if phase = DrainPhaseStoppedRecovery then guard_stopped e q i
      else if phase = DrainPhaseInactiveRecovery then guard_inactive e control q i
      else if phase = DrainPhaseStalledAssignment \<or> phase = DrainPhaseLingeringRunner then guard_idle e control q i
      else if phase = DrainPhaseGuestUnresponsive then guard_unresponsive e q i
      else if phase = DrainPhaseProvisionStalled then guard_unprovisioned control i
      else if phase = DrainPhaseOccupancyBudget then guard_stop_first e q i
      else guard_event e control q i)"

section \<open>The passes\<close>

text \<open>A wait that failed: the context's own error if it ended, else the stage.\<close>

definition unconfirmed :: "'w DrainExecutor \<Rightarrow> ('w run, pass) state" where
  "unconfirmed e = do {
     ended \<leftarrow> ctx_Err (Dr_Env e);
     State_Monad.return (case ended of Some x \<Rightarrow> Return (Some (Context x)) | None \<Rightarrow> failed StageConfirm)
   }"

definition refused :: "'w DrainExecutor \<Rightarrow> 'w DrainControl \<Rightarrow> DurableOperation \<Rightarrow> DurableInstance \<Rightarrow> adapter_error \<Rightarrow> ('w run, pass) state" where
  "refused e control q i cause =
     (if abortsOnBusyRefusal (DI_DrainPhase i) then do {
        busy \<leftarrow> perform (RunnerBusyRead (DI_ID i)) (DC_RunnerBusy control i);
        (if busy = Some True then abort_drain e q i AbortEvidenceDeregisterRefused
         else State_Monad.return (Return (Some (Staged (classifiedError StageDeregister (Some cause))))))
      }
      else State_Monad.return (Return (Some (Staged (classifiedError StageDeregister (Some cause))))))"

definition deregister_guest :: "'w DrainExecutor \<Rightarrow> 'w DrainControl \<Rightarrow> DurableOperation \<Rightarrow> DurableInstance \<Rightarrow> ('w run, pass) state" where
  "deregister_guest e control q i = do {
     err \<leftarrow> perform (Deregistered (DI_ID i)) (DC_Deregister control i);
     (case err of
        Some cause \<Rightarrow> refused e control q i cause
      | None \<Rightarrow> do {
          ok \<leftarrow> waitConfirmed e (DI_ID i);
          (if \<not> ok then unconfirmed e
           else do { r \<leftarrow> Dr_advance e i InstanceDeregistering; State_Monad.return (Goes_On r) })
        })
   }"

definition pass_draining :: "'w DrainExecutor \<Rightarrow> DurableOperation \<Rightarrow> DurableInstance \<Rightarrow> ('w run, pass) state" where
  "pass_draining e q i =
     (case Dr_Control e of
        None \<Rightarrow> State_Monad.return (failed StageGuard)
      | Some control \<Rightarrow> do {
          verdict \<leftarrow> drain_guard e control q i;
          (case verdict of Some r \<Rightarrow> State_Monad.return r | None \<Rightarrow> deregister_guest e control q i)
        })"

definition pass_deregistering :: "'w DrainExecutor \<Rightarrow> DurableOperation \<Rightarrow> DurableInstance \<Rightarrow> ('w run, pass) state" where
  "pass_deregistering e q i = do {
     err \<leftarrow> stopGuest e i q;
     (case err of
        Some x \<Rightarrow> State_Monad.return (Return (Some x))
      | None \<Rightarrow> do { r \<leftarrow> Dr_advance e i InstanceStopping; State_Monad.return (Goes_On r) })
   }"

definition delete_guest :: "'w DrainExecutor \<Rightarrow> 'w VMControl \<Rightarrow> DurableInstance \<Rightarrow> ('w run, pass) state" where
  "delete_guest e vm i = do {
     deleted \<leftarrow> perform (DeleteCalled (DI_ID i) (DI_Ownership i)) (VM_Delete vm (DI_ID i) (DI_Ownership i));
     (if \<not> deleted then State_Monad.return (failed StageDelete)
      else do { r \<leftarrow> Dr_advance e i InstanceDeleted; State_Monad.return (Goes_On r) })
   }"

definition pass_stopping :: "'w DrainExecutor \<Rightarrow> DurableInstance \<Rightarrow> ('w run, pass) state" where
  "pass_stopping e i =
     (case Dr_VM e of
        None \<Rightarrow> State_Monad.return (failed StageConfirm)
      | Some vm \<Rightarrow> do {
          ok \<leftarrow> waitConfirmed e (DI_ID i);
          (if \<not> ok then unconfirmed e else delete_guest e vm i)
        })"

fun drain_arm :: "'w DrainExecutor \<Rightarrow> DurableOperation \<Rightarrow> DurableInstance \<Rightarrow> InstanceState \<Rightarrow> ('w run, pass) state" where
  "drain_arm e q i InstanceDeleted = State_Monad.return (Return None)"
| "drain_arm e q i InstanceFailed = State_Monad.return (failed StagePersist)"
| "drain_arm e q i InstanceDraining = pass_draining e q i"
| "drain_arm e q i InstanceDeregistering = pass_deregistering e q i"
| "drain_arm e q i InstanceStopping = pass_stopping e i"
| "drain_arm e q i _ = State_Monad.return (Return None)"

definition drain_pass :: "'w DrainExecutor \<Rightarrow> DurableOperation \<Rightarrow> DurableInstance \<Rightarrow> ('w run, pass) state" where
  "drain_pass e q i = drain_arm e q i (DI_State i)"

text \<open>The loop both executors run: at most \<open>n\<close> passes, each after a look at the context.\<close>

fun pass_loop :: "'w Surroundings \<Rightarrow> (DurableInstance \<Rightarrow> ('w run, pass) state) \<Rightarrow> nat \<Rightarrow> DurableInstance \<Rightarrow> ('w run, exec_error option) state" where
  "pass_loop env step 0 i = State_Monad.return (Some (Staged (safeError StagePersist)))"
| "pass_loop env step (Suc n) i = do {
     ended \<leftarrow> ctx_Err env;
     (case ended of
        Some x \<Rightarrow> State_Monad.return (Some (Context x))
      | None \<Rightarrow> do {
          p \<leftarrow> step i;
          (case p of
             Return r \<Rightarrow> State_Monad.return r
           | Goes_On r \<Rightarrow> (case r of Inl _ \<Rightarrow> State_Monad.return (Some (Staged (safeError StagePersist))) | Inr i' \<Rightarrow> pass_loop env step n i'))
        })
   }"

text \<open>How both executors begin: the instance is read and must be the one the operation names.\<close>

definition on_owned :: "string \<Rightarrow> (DurableInstance \<Rightarrow> ('w run, exec_error option) state) \<Rightarrow> ('w run, exec_error option) state" where
  "on_owned k go = do {
     found \<leftarrow> State_Instance k;
     (case found of
        Inl _ \<Rightarrow> State_Monad.return (Some (Staged (safeError StagePersist)))
      | Inr i \<Rightarrow> if \<not> validateOwned i k then State_Monad.return (Some (Op ErrInvalid)) else go i)
   }"

definition Drain_Execute :: "'w DrainExecutor \<Rightarrow> DurableOperation \<Rightarrow> ('w run, exec_error option) state" where
  "Drain_Execute e q =
     (if \<not> Dr_State e \<or> DO_Kind q \<noteq> OperationDrainKind \<or> DO_ResourceID q = [] then State_Monad.return (Some (Op ErrInvalid))
      else on_owned (DO_ResourceID q) (pass_loop (Dr_Env e) (drain_pass e q) 6))"

section \<open>What a drain may do\<close>

text \<open>
  The specification sees only the calls: the instance the store last reported and the calls made since. The evidence
  for a step has to be among the latter.
\<close>

type_synonym standing = "DurableInstance option \<times> port_call list"

fun track :: "port_call \<Rightarrow> standing \<Rightarrow> standing" where
  "track (InstanceRead k (Inr i)) _ = (Some i, [])"
| "track (Changed c (Inr i)) _ = (Some i, [])"
| "track c (i, recent) = (i, recent @ [c])"

definition confirmed_inactive :: "duration \<Rightarrow> string \<Rightarrow> port_call list \<Rightarrow> bool" where
  "confirmed_inactive maxAge k recent \<longleftrightarrow> (\<exists>before' c now after'.
     recent = before' @ [ConfirmationRead k (Some c), ClockRead now] @ after' \<and> DC_Safe c now maxAge)"

definition guest_off :: "DurableInstance \<Rightarrow> port_call list \<Rightarrow> bool" where
  "guest_off i recent \<longleftrightarrow> StopCalled (DI_ID i) (DI_Ownership i) True \<in> set recent \<or> TerminateCalled (DI_ID i) (DI_Ownership i) True \<in> set recent
     \<or> DestroyCalled (DI_ID i) (DI_Ownership i) True \<in> set recent \<or> (\<exists>p. ProvenIdle p \<and> PowerRead (DI_ID i) (Some p) \<in> set recent)"

definition premise_holds :: "DurableInstance \<Rightarrow> port_call list \<Rightarrow> bool" where
  "premise_holds i recent =
     (let phase = DI_DrainPhase i; k = DI_ID i in
      if phase = DrainPhaseStoppedRecovery then \<exists>p. ProvenIdle p \<and> PowerRead k (Some p) \<in> set recent
      else if phase = DrainPhaseInactiveRecovery
        then RunnerRegisteredRead k (Some False) \<in> set recent \<and> SafeRead k (Some True) \<in> set recent
      else if phase = DrainPhaseStalledAssignment \<or> phase = DrainPhaseLingeringRunner
        then RunnerBusyRead k (Some False) \<in> set recent \<and> StartUnattributedRead k (Some False) \<in> set recent
      else if phase = DrainPhaseGuestUnresponsive then ProbeRead k GuestLivenessRefused \<in> set recent \<and> guest_off i recent
      else if phase = DrainPhaseProvisionStalled then RunnerBusyRead k (Some False) \<in> set recent
      else if phase = DrainPhaseOccupancyBudget then guest_off i recent
      else RunnerBusyRead k (Some False) \<in> set recent \<and> SafeRead k (Some True) \<in> set recent)"

definition disproved :: "AbortEvidence \<Rightarrow> string \<Rightarrow> port_call list \<Rightarrow> bool" where
  "disproved evidence k recent = (case evidence of
     AbortEvidenceVMRunning \<Rightarrow> PowerRead k (Some InstancePowerRunning) \<in> set recent
   | AbortEvidenceRunnerRegistered \<Rightarrow> RunnerRegisteredRead k (Some True) \<in> set recent
   | AbortEvidenceRunnerBusy \<Rightarrow> RunnerBusyRead k (Some True) \<in> set recent
   | AbortEvidenceGuestAnswered \<Rightarrow> ProbeRead k GuestLivenessAlive \<in> set recent
   | AbortEvidenceDeregisterRefused \<Rightarrow> (\<exists>cause. Deregistered k (Some cause) \<in> set recent) \<and> RunnerBusyRead k (Some True) \<in> set recent)"

definition may_stop :: "DurableInstance \<Rightarrow> port_call list \<Rightarrow> bool" where
  "may_stop i recent \<longleftrightarrow> DI_State i = InstanceDeregistering
     \<or> (DI_State i = InstanceDraining \<and> (DI_DrainPhase i = DrainPhaseOccupancyBudget
          \<or> (DI_DrainPhase i = DrainPhaseGuestUnresponsive \<and> ProbeRead (DI_ID i) GuestLivenessRefused \<in> set recent)))"

definition may_change :: "duration \<Rightarrow> DurableOperation \<Rightarrow> DurableInstance \<Rightarrow> port_call list \<Rightarrow> StateChange \<Rightarrow> bool" where
  "may_change maxAge q i recent c \<longleftrightarrow>
     (DI_State i = InstanceDraining \<and> c = change_to i InstanceDeregistering \<and> premise_holds i recent
        \<and> Deregistered (DI_ID i) None \<in> set recent \<and> confirmed_inactive maxAge (DI_ID i) recent)
   \<or> (DI_State i = InstanceDeregistering \<and> c = change_to i InstanceStopping \<and> guest_off i recent)
   \<or> (DI_State i = InstanceStopping \<and> c = change_to i InstanceDeleted \<and> confirmed_inactive maxAge (DI_ID i) recent
        \<and> DeleteCalled (DI_ID i) (DI_Ownership i) True \<in> set recent)
   \<or> (DI_State i = InstanceDraining \<and> (\<exists>evidence. c = abort_change q i evidence \<and> disproved evidence (DI_ID i) recent))"

definition drain_may :: "duration \<Rightarrow> DurableOperation \<Rightarrow> standing \<Rightarrow> port_call \<Rightarrow> bool" where
  "drain_may maxAge q st c =
     (case st of (None, recent) \<Rightarrow> (case c of InstanceRead k _ \<Rightarrow> k = DO_ResourceID q | _ \<Rightarrow> False)
      | (Some i, recent) \<Rightarrow>
          (case c of
             StopCalled k own _ \<Rightarrow> k = DI_ID i \<and> own = DI_Ownership i \<and> may_stop i recent \<and> StopEscalation (StopAttempts q) = StopGraceful
           | TerminateCalled k own _ \<Rightarrow> k = DI_ID i \<and> own = DI_Ownership i \<and> may_stop i recent \<and> StopEscalation (StopAttempts q) = StopForced
           | DestroyCalled k own _ \<Rightarrow> k = DI_ID i \<and> own = DI_Ownership i \<and> may_stop i recent \<and> StopEscalation (StopAttempts q) = StopDestructive
           | Deregistered k _ \<Rightarrow> k = DI_ID i \<and> DI_State i = InstanceDraining \<and> premise_holds i recent
           | DeleteCalled k own _ \<Rightarrow> k = DI_ID i \<and> own = DI_Ownership i \<and> DI_State i = InstanceStopping \<and> confirmed_inactive maxAge k recent
           | Changed change _ \<Rightarrow> may_change maxAge q i recent change
           | TrafficRecorded k \<Rightarrow> k = DI_ID i \<and> may_stop i recent
           | RefusalRecorded k \<Rightarrow> k = DI_ID i \<and> may_stop i recent
           | InstanceRead _ _ \<Rightarrow> False | CreateCalled _ _ \<Rightarrow> False | StartCalled _ _ _ \<Rightarrow> False | RegistrationReset _ _ \<Rightarrow> False
           | JITAcquired _ _ _ _ \<Rightarrow> False | Bootstrapped _ _ _ _ \<Rightarrow> False
           | _ \<Rightarrow> True))"

fun drain_protocol :: "duration \<Rightarrow> DurableOperation \<Rightarrow> standing \<Rightarrow> port_call list \<Rightarrow> bool" where
  "drain_protocol maxAge q st [] = True"
| "drain_protocol maxAge q st (c # calls) = (drain_may maxAge q st c \<and> drain_protocol maxAge q (track c st) calls)"

lemma drain_protocol_append:
  "drain_protocol maxAge q st (xs @ ys) \<longleftrightarrow> drain_protocol maxAge q st xs \<and> drain_protocol maxAge q (fold track xs st) ys"
  by (induction xs arbitrary: st) auto

section \<open>The executor keeps to it\<close>

lemma confirmed_now: "DC_Safe c now maxAge \<Longrightarrow> confirmed_inactive maxAge k [ConfirmationRead k (Some c), ClockRead now]"
  unfolding confirmed_inactive_def by (metis append_Nil append_Nil2)

lemma confirmed_later: "confirmed_inactive maxAge k calls \<Longrightarrow> confirmed_inactive maxAge k (x # calls)"
  unfolding confirmed_inactive_def by (metis append_Cons)

lemma confirmed_append: "confirmed_inactive maxAge k calls \<Longrightarrow> confirmed_inactive maxAge k (calls @ more')"
  unfolding confirmed_inactive_def by (metis append_assoc)

lemma confirmed_prefix: "confirmed_inactive maxAge k calls \<Longrightarrow> confirmed_inactive maxAge k (prior @ calls)"
  by (induction prior) (auto intro: confirmed_later)

lemma appends_confirm_loop:
  "appends (confirm_loop e control k n) (\<lambda>ok calls. (\<forall>c\<in>set calls. (\<exists>x. c = ConfirmationRead k x) \<or> (\<exists>t. c = ClockRead t))
     \<and> (ok \<longrightarrow> confirmed_inactive (confirmationMaxAge e) k calls))"
proof (induction n)
  case 0
  show ?case unfolding confirm_loop.simps confirm_once_def by (intro appends_rules; simp add: confirmed_now)
next
  case (Suc n)
  show ?case unfolding confirm_loop.simps confirm_once_def by (intro appends_rules; auto simp: confirmed_now intro!: appends_mono [OF Suc] confirmed_later)
qed

text \<open>Calls that need no evidence and leave the store's last report standing.\<close>

fun waiting_call :: "port_call \<Rightarrow> bool" where
  "waiting_call (ConfirmationRead _ _) = True"
| "waiting_call (ClockRead _) = True"
| "waiting_call (ContextRead _) = True"
| "waiting_call _ = False"

lemma waiting_call_step: "waiting_call c \<Longrightarrow> drain_may maxAge q (Some i, recent) c \<and> track c (Some i, recent) = (Some i, recent @ [c])"
  by (cases c) (simp_all add: drain_may_def)

lemma waiting_calls:
  "list_all waiting_call calls \<Longrightarrow> drain_protocol maxAge q (Some i, recent) calls \<and> fold track calls (Some i, recent) = (Some i, recent @ calls)"
  by (induction calls arbitrary: recent) (simp_all add: waiting_call_step)

lemma appends_waitConfirmed:
  "appends (waitConfirmed e k) (\<lambda>ok calls. list_all waiting_call calls \<and> (ok \<longrightarrow> confirmed_inactive (confirmationMaxAge e) k calls))"
  unfolding waitConfirmed_def
proof (intro appends_rules)
  fix control n
  show "appends (confirm_loop e control k n) (\<lambda>ok calls. list_all waiting_call calls \<and> (ok \<longrightarrow> confirmed_inactive (confirmationMaxAge e) k calls))"
    by (rule appends_mono [OF appends_confirm_loop]) (fastforce simp: list_all_iff)
qed simp

definition aborted :: "DurableOperation \<Rightarrow> port_call list \<Rightarrow> bool" where
  "aborted q calls \<longleftrightarrow> (\<exists>i evidence i'. Changed (abort_change q i evidence) (Inr i') \<in> set calls)"

definition ends :: "DurableOperation \<Rightarrow> port_call list \<Rightarrow> pass \<Rightarrow> bool" where
  "ends q calls p \<longleftrightarrow> (\<exists>r. p = Return r \<and> (r = None \<longrightarrow> aborted q calls))"

lemma ends_simps [simp]: "ends q calls (Return (Some x))" "\<not> ends q calls (Goes_On r)" "ends q calls (Return None) \<longleftrightarrow> aborted q calls"
  by (auto simp: ends_def)

lemma ends_more: "ends q calls p \<Longrightarrow> ends q (xs @ calls) p" "ends q calls p \<Longrightarrow> ends q (c # calls) p"
  by (auto simp: ends_def aborted_def)

lemma appends_abort_drain:
  "appends (abort_drain e q i evidence) (\<lambda>p calls. ends q calls p
     \<and> (\<forall>recent. DI_State i = InstanceDraining \<and> disproved evidence (DI_ID i) recent \<longrightarrow> drain_protocol maxAge q (Some i, recent) calls))"
  unfolding abort_drain_def State_Advance_def
  by (intro appends_rules) (auto simp: drain_may_def may_change_def aborted_def)

lemma appends_sample:
  "appends (sample recorder event i) (\<lambda>_ calls. calls = [] \<or> calls = [event (DI_ID i)])"
  unfolding sample_def by (intro appends_rules) auto

definition stop_calls :: "duration \<Rightarrow> DurableOperation \<Rightarrow> DurableInstance \<Rightarrow> port_call list \<Rightarrow> bool" where
  "stop_calls maxAge q i calls \<longleftrightarrow> (\<forall>recent. may_stop i recent \<longrightarrow>
     drain_protocol maxAge q (Some i, recent) calls \<and> fold track calls (Some i, recent) = (Some i, recent @ calls))"

lemma may_stop_append: "may_stop i recent \<Longrightarrow> may_stop i (recent @ calls)"
  by (auto simp: may_stop_def)

lemma stop_calls_append: "stop_calls maxAge q i xs \<Longrightarrow> stop_calls maxAge q i ys \<Longrightarrow> stop_calls maxAge q i (xs @ ys)"
  by (simp add: stop_calls_def drain_protocol_append may_stop_append)

lemma appends_stop_rung:
  "appends (stop_rung vm i q) (\<lambda>err calls. stop_calls maxAge q i calls \<and> (err = None \<longrightarrow> guest_off i calls))"
  unfolding stop_rung_def Let_def
  by (cases "StopEscalation (StopAttempts q)")
    (auto intro!: appends_rules simp: stop_calls_def drain_may_def guest_off_def split: option.splits if_splits)

lemma guest_off_append [simp]: "guest_off i (xs @ ys) \<longleftrightarrow> guest_off i xs \<or> guest_off i ys"
  by (auto simp: guest_off_def)

lemma appends_stopGuest:
  "appends (stopGuest e i q) (\<lambda>err calls. stop_calls maxAge q i calls \<and> (err = None \<longrightarrow> guest_off i calls))"
proof -
  have sampled: "appends (sample recorder event i) (\<lambda>_ calls. stop_calls maxAge q i calls)"
    if "event = TrafficRecorded \<or> event = RefusalRecorded" for recorder event
    using that by (auto intro!: appends_mono [OF appends_sample] simp: stop_calls_def drain_may_def)
  have rung: "appends (stop_rung vm i q) (\<lambda>err calls. stop_calls maxAge q i (xs @ ys @ calls) \<and> (err = None \<longrightarrow> guest_off i (xs @ ys @ calls)))"
    if "stop_calls maxAge q i xs" "stop_calls maxAge q i ys" for vm xs ys
    using that by (auto intro!: appends_mono [OF appends_stop_rung] stop_calls_append)
  have both: "appends (do { sample p TrafficRecorded i; sample p' RefusalRecorded i; stop_rung vm i q })
      (\<lambda>err calls. stop_calls maxAge q i calls \<and> (err = None \<longrightarrow> guest_off i calls))" for p p' vm
    by (rule appends_bind [OF sampled], simp, rule appends_bind [OF sampled], simp, rule rung)
  have "stop_calls maxAge q i []" by (simp add: stop_calls_def)
  then show ?thesis unfolding stopGuest_def
    by (intro appends_rules) (simp_all add: both appends_stop_rung)
qed

section \<open>Guards\<close>

definition guarded :: "duration \<Rightarrow> DurableOperation \<Rightarrow> DurableInstance \<Rightarrow> pass option \<Rightarrow> port_call list \<Rightarrow> bool" where
  "guarded maxAge q i verdict calls \<longleftrightarrow>
     (case verdict of Some p \<Rightarrow> ends q calls p | None \<Rightarrow> premise_holds i calls)
   \<and> (DI_State i = InstanceDraining \<longrightarrow> (\<forall>recent. drain_protocol maxAge q (Some i, recent) calls
        \<and> (verdict = None \<longrightarrow> fold track calls (Some i, recent) = (Some i, recent @ calls))))"

text \<open>A guard that looked once and then aborts, or found nothing against the drain.\<close>

lemma aborts_after:
  assumes "\<And>recent. track c (Some i, recent) = (Some i, recent @ [c])"
    "\<And>recent. drain_may maxAge q (Some i, recent) c" "\<And>recent. disproved evidence (DI_ID i) (recent @ [c])"
    "\<And>p calls. guarded maxAge q i (Some p) (c # calls) \<Longrightarrow> L (Some p) (c # calls)"
  shows "appends (do { r \<leftarrow> abort_drain e q i evidence; State_Monad.return (Some r) }) (\<lambda>v calls. L v (c # calls))"
  by (rule appends_bind [OF appends_abort_drain [of e q i evidence maxAge]], rule appends_return, rule assms(4))
    (use assms in \<open>auto simp: guarded_def intro!: ends_more\<close>)

lemma guard_stopped_ok:
  "DI_DrainPhase i = DrainPhaseStoppedRecovery \<Longrightarrow> appends (guard_stopped e q i) (guarded maxAge q i)"
  unfolding guard_stopped_def
  by (intro appends_rules; (rule aborts_after)?) (auto simp: guarded_def drain_may_def disproved_def premise_holds_def Let_def ProvenIdle_def)

lemma guard_safe_ok:
  "appends (guard_safe control i) (\<lambda>v calls. \<exists>safe. calls = [SafeRead (DI_ID i) safe] \<and> (v = None \<and> safe = Some True \<or> v = Some (failed StageGuard)))"
  unfolding guard_safe_def by (intro appends_rules) auto

lemma guard_inactive_ok:
  assumes "DI_DrainPhase i = DrainPhaseInactiveRecovery"
  shows "appends (guard_inactive e control q i) (guarded maxAge q i)"
  unfolding guard_inactive_def
  by (intro appends_rules; (rule aborts_after appends_mono [OF guard_safe_ok])?)
    (auto simp: assms guarded_def drain_may_def disproved_def premise_holds_def Let_def DrainPhaseInactiveRecovery_def DrainPhaseStoppedRecovery_def)

lemma verifyRunnerIdle_ok:
  "appends (verifyRunnerIdle e control q i) (\<lambda>v calls. case v of Some p \<Rightarrow> guarded maxAge q i v calls | None \<Rightarrow> calls = [RunnerBusyRead (DI_ID i) (Some False)])"
  unfolding verifyRunnerIdle_def
  by (intro appends_rules; (rule aborts_after)?) (auto simp: guarded_def drain_may_def disproved_def)

lemma verified:
  assumes "appends m (\<lambda>v calls. guarded maxAge q i v (RunnerBusyRead (DI_ID i) (Some False) # calls))"
  shows "appends (do { verdict \<leftarrow> verifyRunnerIdle e control q i; (case verdict of Some r \<Rightarrow> State_Monad.return (Some r) | None \<Rightarrow> m) }) (guarded maxAge q i)"
  by (rule appends_bind [OF verifyRunnerIdle_ok [of e control q i maxAge]]) (auto intro!: appends_rules simp: assms split: option.splits)

lemma guard_idle_ok:
  assumes "DI_DrainPhase i = DrainPhaseStalledAssignment \<or> DI_DrainPhase i = DrainPhaseLingeringRunner"
  shows "appends (guard_idle e control q i) (guarded maxAge q i)"
  unfolding guard_idle_def
  by (rule verified, intro appends_rules) (use assms in \<open>auto simp: guarded_def drain_may_def premise_holds_def Let_def DrainPhaseInactiveRecovery_def
     DrainPhaseStoppedRecovery_def DrainPhaseStalledAssignment_def DrainPhaseLingeringRunner_def\<close>)

lemma guard_unprovisioned_ok:
  assumes "DI_DrainPhase i = DrainPhaseProvisionStalled"
  shows "appends (guard_unprovisioned control i) (guarded maxAge q i)"
  unfolding guard_unprovisioned_def
  by (intro appends_rules) (auto simp: assms guarded_def drain_may_def premise_holds_def Let_def DrainPhaseInactiveRecovery_def
     DrainPhaseStoppedRecovery_def DrainPhaseStalledAssignment_def DrainPhaseLingeringRunner_def DrainPhaseGuestUnresponsive_def DrainPhaseProvisionStalled_def)

lemma guard_event_ok:
  assumes "DI_DrainPhase i \<notin> {DrainPhaseStoppedRecovery, DrainPhaseInactiveRecovery, DrainPhaseStalledAssignment, DrainPhaseLingeringRunner,
     DrainPhaseGuestUnresponsive, DrainPhaseProvisionStalled, DrainPhaseOccupancyBudget}"
  shows "appends (guard_event e control q i) (guarded maxAge q i)"
  unfolding guard_event_def
  by (rule verified, rule appends_mono [OF guard_safe_ok]) (use assms in \<open>auto simp: guarded_def drain_may_def premise_holds_def Let_def\<close>)

lemma guard_stop_first_ok:
  assumes "\<And>recent. DI_State i = InstanceDraining \<Longrightarrow> may_stop i (recent @ xs)"
    and "\<And>calls. guest_off i calls \<Longrightarrow> premise_holds i (xs @ calls)"
    and "\<And>recent. drain_protocol maxAge q (Some i, recent) xs \<and> fold track xs (Some i, recent) = (Some i, recent @ xs)"
  shows "appends (guard_stop_first e q i) (\<lambda>v calls. guarded maxAge q i v (xs @ calls))"
  unfolding guard_stop_first_def
  by (rule appends_bind [OF appends_stopGuest [of e i q maxAge]], rule appends_return)
    (use assms in \<open>auto simp: guarded_def drain_protocol_append stop_calls_def split: option.splits\<close>)

lemma guard_unresponsive_ok:
  assumes phase: "DI_DrainPhase i = DrainPhaseGuestUnresponsive"
  shows "appends (guard_unresponsive e q i) (guarded maxAge q i)"
proof -
  have refused: "appends (guard_stop_first e q i) (\<lambda>v calls. guarded maxAge q i v (ProbeRead (DI_ID i) GuestLivenessRefused # calls))"
    using guard_stop_first_ok [of i "[ProbeRead (DI_ID i) GuestLivenessRefused]" maxAge q e]
    by (auto simp: phase may_stop_def premise_holds_def Let_def drain_may_def guest_off_def DrainPhaseInactiveRecovery_def
     DrainPhaseStoppedRecovery_def DrainPhaseStalledAssignment_def DrainPhaseLingeringRunner_def DrainPhaseGuestUnresponsive_def)
  show ?thesis unfolding guard_unresponsive_def
    by (intro appends_rules; (rule aborts_after)?; (simp add: refused; fail)?) (auto simp: guarded_def drain_may_def disproved_def)
qed

lemma drain_guard_ok: "appends (drain_guard e control q i) (guarded maxAge q i)"
proof -
  have "appends (guard_stop_first e q i) (guarded maxAge q i)" if "DI_DrainPhase i = DrainPhaseOccupancyBudget"
    using guard_stop_first_ok [of i "[]" maxAge q e] that
    by (auto simp: may_stop_def premise_holds_def Let_def DrainPhaseInactiveRecovery_def DrainPhaseOccupancyBudget_def DrainPhaseProvisionStalled_def
     DrainPhaseStoppedRecovery_def DrainPhaseStalledAssignment_def DrainPhaseLingeringRunner_def DrainPhaseGuestUnresponsive_def)
  then show ?thesis unfolding drain_guard_def Let_def
    by (intro appends_if) (auto intro: guard_stopped_ok guard_inactive_ok guard_idle_ok guard_unresponsive_ok guard_unprovisioned_ok guard_event_ok)
qed

section \<open>Passes\<close>

text \<open>What a pass leaves behind: it ends with a reason, or the store has accepted its change.\<close>

definition passes :: "duration \<Rightarrow> DurableOperation \<Rightarrow> DurableInstance \<Rightarrow> pass \<Rightarrow> port_call list \<Rightarrow> bool" where
  "passes maxAge q i p calls \<longleftrightarrow> (\<forall>recent. drain_protocol maxAge q (Some i, recent) calls
     \<and> (case p of
          Return r \<Rightarrow> r = None \<longrightarrow> aborted q calls
        | Goes_On (Inl e) \<Rightarrow> True
        | Goes_On (Inr i') \<Rightarrow> fold track calls (Some i, recent) = (Some i', [])))"

text \<open>Calls that keep to the protocol and leave the store's last report standing.\<close>

definition holds_on :: "duration \<Rightarrow> DurableOperation \<Rightarrow> DurableInstance \<Rightarrow> port_call list \<Rightarrow> bool" where
  "holds_on maxAge q i xs \<longleftrightarrow> (\<forall>recent. drain_protocol maxAge q (Some i, recent) xs \<and> fold track xs (Some i, recent) = (Some i, recent @ xs))"

lemma holds_on_append: "holds_on maxAge q i xs \<Longrightarrow> holds_on maxAge q i ys \<Longrightarrow> holds_on maxAge q i (xs @ ys)"
  by (simp add: holds_on_def drain_protocol_append)

lemma holds_on_waiting: "list_all waiting_call xs \<Longrightarrow> holds_on maxAge q i xs"
  by (simp add: holds_on_def waiting_calls)

lemma advance_passes:
  assumes "holds_on maxAge q i xs" "\<And>recent. may_change maxAge q i (recent @ xs) (change_to i nxt)"
  shows "appends (do { r \<leftarrow> Dr_advance e i nxt; State_Monad.return (Goes_On r) }) (\<lambda>p calls. passes maxAge q i p (xs @ calls))"
  unfolding Dr_advance_def State_Advance_def
  by (intro appends_rules) (use assms in \<open>auto simp: holds_on_def passes_def drain_protocol_append drain_may_def split: sum.splits\<close>)

lemma fails_passes: "holds_on maxAge q i xs \<Longrightarrow> passes maxAge q i (Return (Some x)) xs"
  by (simp add: holds_on_def passes_def)

lemma unconfirmed_ok: "appends (unconfirmed e) (\<lambda>p calls. list_all waiting_call calls \<and> (\<exists>x. p = Return (Some x)))"
  unfolding unconfirmed_def ctx_Err_def by (intro appends_rules) (auto split: option.splits)

lemma confirmed_then:
  assumes xs: "holds_on (confirmationMaxAge e) q i xs"
    and m: "\<And>calls. holds_on (confirmationMaxAge e) q i (xs @ calls) \<Longrightarrow> confirmed_inactive (confirmationMaxAge e) (DI_ID i) calls
      \<Longrightarrow> appends m (\<lambda>p more. passes (confirmationMaxAge e) q i p (xs @ calls @ more))"
  shows "appends (do { ok \<leftarrow> waitConfirmed e (DI_ID i); if \<not> ok then unconfirmed e else m }) (\<lambda>p more. passes (confirmationMaxAge e) q i p (xs @ more))"
proof (rule appends_bind [OF appends_waitConfirmed], elim conjE, rule appends_if)
  fix ok calls
  assume calls: "list_all waiting_call calls" "ok \<longrightarrow> confirmed_inactive (confirmationMaxAge e) (DI_ID i) calls"
  then have on: "holds_on (confirmationMaxAge e) q i (xs @ calls)" by (simp add: xs holds_on_append holds_on_waiting)
  then have "holds_on (confirmationMaxAge e) q i (xs @ calls @ more')" if "list_all waiting_call more'" for more'
    using holds_on_append [OF on holds_on_waiting [OF that]] by simp
  then show "appends (unconfirmed e) (\<lambda>p more. passes (confirmationMaxAge e) q i p (xs @ calls @ more))"
    by (auto intro!: appends_mono [OF unconfirmed_ok] fails_passes)
  show "appends m (\<lambda>p more. passes (confirmationMaxAge e) q i p (xs @ calls @ more))" if "\<not> \<not> ok" using m on calls that by simp
qed

lemma pass_deregistering_ok:
  assumes "DI_State i = InstanceDeregistering"
  shows "appends (pass_deregistering e q i) (passes maxAge q i)"
  unfolding pass_deregistering_def
proof (rule appends_bind [OF appends_stopGuest [of e i q maxAge]], elim conjE, rule appends_option)
  fix err calls
  assume calls: "stop_calls maxAge q i calls" "err = None \<longrightarrow> guest_off i calls"
  then have on: "holds_on maxAge q i calls" using assms by (simp add: stop_calls_def may_stop_def holds_on_def)
  show "appends (do { r \<leftarrow> Dr_advance e i InstanceStopping; State_Monad.return (Goes_On r) }) (\<lambda>p more. passes maxAge q i p (calls @ more))" if "err = None"
    by (rule advance_passes [OF on]) (use that assms calls in \<open>auto simp: may_change_def\<close>)
  show "appends (State_Monad.return (Return (Some x))) (\<lambda>p more. passes maxAge q i p (calls @ more))" for x
    using on by (auto intro!: appends_return fails_passes)
qed

lemma delete_guest_ok:
  assumes state: "DI_State i = InstanceStopping" and on: "holds_on maxAge q i calls" and seen: "confirmed_inactive maxAge (DI_ID i) calls"
  shows "appends (delete_guest e vm i) (\<lambda>p more. passes maxAge q i p (calls @ more))"
  unfolding delete_guest_def
proof (rule appends_perform_bind, rule appends_if)
  fix deleted
  have on': "holds_on maxAge q i (calls @ [DeleteCalled (DI_ID i) (DI_Ownership i) deleted])"
    using assms by (simp add: holds_on_def drain_protocol_append drain_may_def confirmed_prefix)
  show "appends (State_Monad.return (failed StageDelete)) (\<lambda>b more. passes maxAge q i b (calls @ DeleteCalled (DI_ID i) (DI_Ownership i) deleted # more))"
    using fails_passes [OF on'] by (auto intro!: appends_return)
  show "appends (do { r \<leftarrow> Dr_advance e i InstanceDeleted; State_Monad.return (Goes_On r) })
      (\<lambda>b more. passes maxAge q i b (calls @ DeleteCalled (DI_ID i) (DI_Ownership i) deleted # more))" if "\<not> \<not> deleted"
    using advance_passes [OF on', of InstanceDeleted e] seen that state by (simp add: may_change_def confirmed_prefix confirmed_append)
qed

lemma holds_on_Nil: "holds_on maxAge q i []"
  by (simp add: holds_on_def)

lemma pass_stopping_ok:
  assumes "DI_State i = InstanceStopping"
  shows "appends (pass_stopping e i) (passes (confirmationMaxAge e) q i)"
proof -
  have "appends (do { ok \<leftarrow> waitConfirmed e (DI_ID i); if \<not> ok then unconfirmed e else delete_guest e vm i }) (passes (confirmationMaxAge e) q i)" for vm
    by (rule confirmed_then [OF holds_on_Nil, simplified append_Nil]) (rule delete_guest_ok [OF assms])
  then show ?thesis unfolding pass_stopping_def by (intro appends_rules) (auto intro!: fails_passes holds_on_Nil)
qed

lemma premise_more: "premise_holds i calls \<Longrightarrow> premise_holds i (recent @ calls @ more')"
  by (auto simp: premise_holds_def Let_def)

lemma refused_ok:
  assumes state: "DI_State i = InstanceDraining" and on: "holds_on maxAge q i xs" and "Deregistered (DI_ID i) (Some cause) \<in> set xs"
  shows "appends (refused e control q i cause) (\<lambda>p more. passes maxAge q i p (xs @ more))"
proof -
  have looked: "holds_on maxAge q i (xs @ [RunnerBusyRead (DI_ID i) busy])" for busy
    using on by (simp add: holds_on_def drain_protocol_append drain_may_def)
  have "disproved AbortEvidenceDeregisterRefused (DI_ID i) (recent @ xs @ [RunnerBusyRead (DI_ID i) (Some True)])" for recent
    using assms(3) by (auto simp: disproved_def)
  moreover have "ends q calls p \<Longrightarrow> \<exists>r. p = Return r \<and> (r = None \<longrightarrow> aborted q (xs @ RunnerBusyRead (DI_ID i) (Some True) # calls))" for p calls
    using ends_more(1) [of q calls p "xs @ [RunnerBusyRead (DI_ID i) (Some True)]"] by (simp add: ends_def)
  ultimately have "appends (abort_drain e q i AbortEvidenceDeregisterRefused) (\<lambda>p more. passes maxAge q i p (xs @ RunnerBusyRead (DI_ID i) (Some True) # more))"
    using on state by (fastforce intro!: appends_mono [OF appends_abort_drain [of e q i AbortEvidenceDeregisterRefused maxAge]]
      simp: passes_def holds_on_def drain_protocol_append drain_may_def)
  then show ?thesis unfolding refused_def
    using fails_passes [OF looked] fails_passes [OF on] by (intro appends_rules) auto
qed

lemma deregister_guest_ok:
  assumes state: "DI_State i = InstanceDraining" and on: "holds_on (confirmationMaxAge e) q i calls" and premise: "premise_holds i calls"
  shows "appends (deregister_guest e control q i) (\<lambda>p more. passes (confirmationMaxAge e) q i p (calls @ more))"
  unfolding deregister_guest_def
proof (rule appends_perform_bind, rule appends_option)
  let ?max = "confirmationMaxAge e" and ?go = "do { r \<leftarrow> Dr_advance e i InstanceDeregistering; State_Monad.return (Goes_On r) }"
  fix err
  have on': "holds_on ?max q i (calls @ [Deregistered (DI_ID i) err])"
    using on state premise_more [OF premise, of _ "[]"] by (simp add: holds_on_def drain_protocol_append drain_may_def)
  show "appends (refused e control q i cause) (\<lambda>b more. passes ?max q i b (calls @ Deregistered (DI_ID i) err # more))" if "err = Some cause" for cause
    using refused_ok [OF state on', of cause e control] that by simp
  have "appends ?go (\<lambda>p more. passes ?max q i p (calls @ Deregistered (DI_ID i) None # later @ more))"
    if "holds_on ?max q i (calls @ Deregistered (DI_ID i) None # later)" "confirmed_inactive ?max (DI_ID i) later" for later
    using advance_passes [OF that(1), of InstanceDeregistering e] state that(2) premise_more [OF premise, of _ "Deregistered (DI_ID i) None # later"]
    by (simp add: may_change_def confirmed_prefix confirmed_later)
  then show "appends (do { ok \<leftarrow> waitConfirmed e (DI_ID i); (if \<not> ok then unconfirmed e else ?go) })
      (\<lambda>b more. passes ?max q i b (calls @ Deregistered (DI_ID i) err # more))" if "err = None"
    using confirmed_then [OF on', of ?go] that by simp
qed

lemma pass_draining_ok:
  assumes state: "DI_State i = InstanceDraining"
  shows "appends (pass_draining e q i) (passes (confirmationMaxAge e) q i)"
proof -
  let ?max = "confirmationMaxAge e"
  have "appends (do { verdict \<leftarrow> drain_guard e control q i; (case verdict of Some r \<Rightarrow> State_Monad.return r | None \<Rightarrow> deregister_guest e control q i) })
      (passes ?max q i)" for control
  proof (rule appends_bind [OF drain_guard_ok [of e control q i ?max]], rule appends_option)
    fix v calls
    assume v: "guarded ?max q i v calls"
    show "appends (State_Monad.return r) (\<lambda>b more. passes ?max q i b (calls @ more))" if "v = Some r" for r
      using v that state by (auto intro!: appends_return simp: guarded_def passes_def ends_def)
    have "holds_on ?max q i calls" "premise_holds i calls" if "v = None" using v that state by (auto simp: guarded_def holds_on_def)
    then show "appends (deregister_guest e control q i) (\<lambda>b more. passes ?max q i b (calls @ more))" if "v = None"
      using deregister_guest_ok [OF state] that by simp
  qed
  then show ?thesis unfolding pass_draining_def by (intro appends_rules) (auto intro!: fails_passes holds_on_Nil)
qed

lemma drain_pass_ok:
  "appends (drain_pass e q i) (\<lambda>p calls. passes (confirmationMaxAge e) q i p calls \<or> (p = Return None \<and> calls = []
      \<and> DI_State i \<notin> {InstanceDraining, InstanceDeregistering, InstanceStopping, InstanceFailed}))"
  by (cases "DI_State i")
    (auto simp: drain_pass_def passes_def intro!: appends_return appends_mono [OF pass_draining_ok] appends_mono [OF pass_deregistering_ok] appends_mono [OF pass_stopping_ok])

section \<open>Whole runs\<close>

definition superseded :: "standing \<Rightarrow> bool" where
  "superseded st \<longleftrightarrow> (\<exists>i. fst st = Some i \<and> DI_State i \<notin> {InstanceDraining, InstanceDeregistering, InstanceStopping, InstanceFailed})"

lemma aborted_append [simp]: "aborted q (xs @ ys) \<longleftrightarrow> aborted q xs \<or> aborted q ys"
  by (auto simp: aborted_def)

definition drain_run :: "duration \<Rightarrow> DurableOperation \<Rightarrow> standing \<Rightarrow> exec_error option \<Rightarrow> port_call list \<Rightarrow> bool" where
  "drain_run maxAge q st r calls \<longleftrightarrow> drain_protocol maxAge q st calls
     \<and> (r = None \<longrightarrow> aborted q calls \<or> superseded (fold track calls st))"

lemma pass_loop_ok:
  "appends (pass_loop (Dr_Env e) (drain_pass e q) n i) (\<lambda>r calls. \<forall>recent. drain_run (confirmationMaxAge e) q (Some i, recent) r calls)"
proof (induction n arbitrary: i)
  case 0
  show ?case by (simp add: appends_return drain_run_def)
next
  case (Suc n)
  let ?max = "confirmationMaxAge e"
  have looked: "drain_run ?max q (Some i, recent) r (ContextRead x # calls) \<longleftrightarrow> drain_run ?max q (Some i, recent @ [ContextRead x]) r calls" for recent r x calls
    by (auto simp: drain_run_def drain_may_def aborted_def)
  have step: "appends (do { p \<leftarrow> drain_pass e q i; (case p of Return r \<Rightarrow> State_Monad.return r
      | Goes_On r \<Rightarrow> (case r of Inl _ \<Rightarrow> State_Monad.return (Some (Staged (safeError StagePersist))) | Inr i' \<Rightarrow> pass_loop (Dr_Env e) (drain_pass e q) n i')) })
      (\<lambda>r calls. \<forall>recent. drain_run ?max q (Some i, recent) r calls)"
  proof (rule appends_bind [OF drain_pass_ok])
    fix p calls
    assume "passes ?max q i p calls \<or> p = Return None \<and> calls = [] \<and> DI_State i \<notin> {InstanceDraining, InstanceDeregistering, InstanceStopping, InstanceFailed}"
    then consider "passes ?max q i p calls" | "p = Return None" "calls = []" "\<And>recent. superseded (Some i, recent)"
      by (auto simp: superseded_def)
    then show "appends (case p of Return r \<Rightarrow> State_Monad.return r
        | Goes_On r \<Rightarrow> (case r of Inl _ \<Rightarrow> State_Monad.return (Some (Staged (safeError StagePersist))) | Inr i' \<Rightarrow> pass_loop (Dr_Env e) (drain_pass e q) n i'))
      (\<lambda>r more. \<forall>recent. drain_run ?max q (Some i, recent) r (calls @ more))"
    proof cases
      case 1
      then show ?thesis
        by (auto intro!: appends_return appends_mono [OF Suc] simp: passes_def drain_run_def drain_protocol_append split: pass.split sum.split)
    qed (auto intro!: appends_return simp: drain_run_def superseded_def)
  qed
  show ?case by (simp add: ctx_Err_def looked, intro appends_rules; simp add: looked)
    (auto intro!: appends_mono [OF step] simp: drain_run_def)
qed

lemma Drain_Execute_ok: "appends (Drain_Execute e q) (\<lambda>r calls. drain_run (confirmationMaxAge e) q (None, []) r calls)"
proof -
  have "appends (on_owned (DO_ResourceID q) (pass_loop (Dr_Env e) (drain_pass e q) 6)) (\<lambda>r calls. drain_run (confirmationMaxAge e) q (None, []) r calls)"
    unfolding on_owned_def State_Instance_def
    by (intro appends_rules appends_mono [OF pass_loop_ok]) (auto simp: drain_run_def drain_may_def aborted_def)
  then show ?thesis unfolding Drain_Execute_def by (intro appends_rules) (auto simp: drain_run_def)
qed

text \<open>
  C9. Whatever the surroundings answer, and whatever other clients of the database do meanwhile, every call of a drain is
  backed by what it saw since the store last reported the instance: it deregisters a runner only on the evidence of the
  instance's drain phase, stops a guest only once it is deregistering or its phase ends the job first, on the rung its
  failed stops have earned, deletes it only on a fresh confirmation, records a new state only after the step that reaches it,
  and aborts only on evidence that disproves the drain. It never creates, starts or registers anything.
\<close>

theorem drain_keeps_to_evidence:
  assumes "run_state (Drain_Execute e q) \<lparr>Run_World = world, Run_Log = []\<rparr> = (result, r)"
  shows "drain_protocol (confirmationMaxAge e) q (None, []) (Run_Log r)"
  using appends_log [OF Drain_Execute_ok assms] by (simp add: drain_run_def)

text \<open>
  C11. A drain is acknowledged only when it is over: if \<open>Execute\<close> returns no error, the store accepted the abort that settles
  the operation, or it last reported the instance in a state that is neither draining, deregistering, stopping nor failed. So
  what waits for the drain never runs beside a half-torn-down guest.
\<close>

theorem drain_acknowledges_its_end:
  assumes "run_state (Drain_Execute e q) \<lparr>Run_World = world, Run_Log = []\<rparr> = (None, r)"
  shows "aborted q (Run_Log r) \<or> superseded (fold track (Run_Log r) (None, []))"
  using appends_log [OF Drain_Execute_ok assms] by (simp add: drain_run_def)

section \<open>A drain evaluated\<close>

text \<open>A fresh operation has no failed stop; the search through the texts of failures is skipped when it is evaluated.\<close>

lemma SE_Error_nonempty: "SE_Error e \<noteq> []"
  by (simp add: SE_Error_def)

lemma no_failure: "FailureCode [] = CodeUnclassified"
proof -
  have "[] \<notin> fst ` set failure_codes"
    by (auto simp: failure_codes_def stage_codes_def SE_Error_nonempty [symmetric])
  then have "map_of failure_codes [] = None" by (simp add: map_of_eq_None_iff)
  then show ?thesis by (simp add: FailureCode_def)
qed

lemma StopAttempts_code [code]:
  "StopAttempts q = (if DO_LastError q = [] then 0
     else (case find (\<lambda>n. DO_LastError q = SE_Error (stopError n)) ladder_attempts of
        Some n \<Rightarrow> n
      | None \<Rightarrow> if FailureCode (DO_LastError q) = stage_text StageStop \<and> DO_Attempts q > 0 then 1 else 0))"
proof (cases "DO_LastError q = []")
  case True
  then have "find (\<lambda>n. DO_LastError q = SE_Error (stopError n)) ladder_attempts = None" by (auto simp: find_None_iff SE_Error_nonempty dest: sym)
  then show ?thesis using True by (simp add: StopAttempts_def no_failure CodeUnclassified_def stage_text_def)
qed (simp add: StopAttempts_def)

definition fx_env :: "unit Surroundings" where
  "fx_env = \<lparr>Env_Err = (\<lambda>v. (None, v)), Env_Now = (\<lambda>v. (fx_time, v)), Env_Polls = (\<lambda>_ _ _. 3), Env_Stamp = (\<lambda>_. fx_time)\<rparr>"

definition fx_vm :: "unit VMControl" where
  "fx_vm = \<lparr>VM_Create = (\<lambda>_ v. (True, v)), VM_Start = (\<lambda>_ _ v. (True, v)), VM_Stop = (\<lambda>_ _ v. (True, v)), VM_Terminate = (\<lambda>_ _ v. (True, v)),
     VM_Destroy = (\<lambda>_ _ v. (True, v)), VM_Delete = (\<lambda>_ _ v. (True, v)), VM_Power = (\<lambda>_ v. (Some InstancePowerRunning, v))\<rparr>"

definition fx_control :: "unit DrainControl" where
  "fx_control = \<lparr>DC_SafeToDeregister = (\<lambda>_ v. (Some True, v)), DC_Deregister = (\<lambda>_ v. (None, v)),
     DC_ConfirmDeletion = (\<lambda>_ v. (Some \<lparr>DC_Fresh = True, DC_RunnerInactive = True, DC_JobsInactive = True, DC_ObservedAt = fx_time\<rparr>, v)),
     DC_RunnerRegistered = (\<lambda>_ v. (Some False, v)), DC_RunnerBusy = (\<lambda>_ v. (Some False, v)), DC_StartUnattributed = (\<lambda>_ v. (Some False, v))\<rparr>"

definition fx_drainer :: "unit DrainExecutor" where
  "fx_drainer = \<lparr>Dr_State = True, Dr_VM = Some fx_vm, Dr_Control = Some fx_control, Dr_ConfirmationMaxAge = 0, Dr_ConfirmationTimeout = 0,
     Dr_ConfirmationPollInterval = 0, Dr_Guest = None, Dr_OnAbort = None, Dr_Traffic = None, Dr_Refusal = None, Dr_Env = fx_env\<rparr>"

definition fx_drain_claim :: DurableOperation where
  "fx_drain_claim = (fx_outbox ''drain'' ''deregister'' ''old'' [])\<lparr>DO_LeaseOwner := ''w''\<rparr>"

definition fx_found :: "InstanceState \<Rightarrow> unit run" where
  "fx_found st = \<lparr>Run_World = (fx_s2\<lparr>ST_instances := map (\<lambda>r. r\<lparr>IR_state := st\<rparr>) (ST_instances fx_s2)\<rparr>, ()), Run_Log = []\<rparr>"

definition fx_drained :: "exec_error option \<times> unit run" where
  "fx_drained = run_state (Drain_Execute fx_drainer fx_drain_claim) (fx_found InstanceStopping)"

lemma fx_drained_run: "run_state (Drain_Execute fx_drainer fx_drain_claim) \<lparr>Run_World = Run_World (fx_found InstanceStopping), Run_Log = []\<rparr> = (fst fx_drained, snd fx_drained)"
  by (simp add: fx_drained_def fx_found_def)

theorem drain_keeps_to_evidence_witness:
  "DeleteCalled ''old'' (DI_Ownership (fx_durable ''old'' InstanceStopping 0)) True \<in> set (Run_Log (snd fx_drained))
     \<and> drain_protocol (confirmationMaxAge fx_drainer) fx_drain_claim (None, []) (Run_Log (snd fx_drained))"
proof (rule conjI)
  show "DeleteCalled ''old'' (DI_Ownership (fx_durable ''old'' InstanceStopping 0)) True \<in> set (Run_Log (snd fx_drained))" by code_simp
  show "drain_protocol (confirmationMaxAge fx_drainer) fx_drain_claim (None, []) (Run_Log (snd fx_drained))"
    by (rule drain_keeps_to_evidence [OF fx_drained_run])
qed

theorem drain_acknowledges_its_end_witness:
  "fst fx_drained = None \<and> (aborted fx_drain_claim (Run_Log (snd fx_drained)) \<or> superseded (fold track (Run_Log (snd fx_drained)) (None, [])))"
proof -
  have ended: "fst fx_drained = None" by code_simp
  then show ?thesis using drain_acknowledges_its_end [OF fx_drained_run [unfolded ended]] by blast
qed

end
