(* ===== verification/Provision_Executor.thy ===== *)
theory Provision_Executor
  imports Drain_Executor
begin

text \<open>
  \<open>ProvisionExecutor.Execute\<close> (\<^verbatim>\<open>lifecycle/executor.go\<close>): the restartable way of an instance from planned to assigned, and the steps
  every run keeps to.
\<close>

section \<open>The executor\<close>

record 'w ProvisionExecutor =
  Pv_State :: bool
  Pv_VM :: "'w VMControl option"
  Pv_Ready :: "(DurableInstance \<Rightarrow> ('w, bool) port) option"
  Pv_Registration :: "'w Registration option"
  Pv_Bootstrap :: "(string \<Rightarrow> string \<Rightarrow> string list \<Rightarrow> ('w, stageError option option) port) option"
  Pv_Bases :: "Platform \<Rightarrow> string"
  Pv_DiskGiB :: "ProfileID \<Rightarrow> int"
  Pv_Capabilities :: "ProfileID \<Rightarrow> string list"
  Pv_WorkFolder :: string
  Pv_RegistrationTimeout :: duration
  Pv_RegistrationPollInterval :: duration
  Pv_Env :: "'w Surroundings"

definition registrationTimeout :: "'w ProvisionExecutor \<Rightarrow> duration" where
  "registrationTimeout e = (if Pv_RegistrationTimeout e \<le> 0 then 30 * second else Pv_RegistrationTimeout e)"

definition registrationPollInterval :: "'w ProvisionExecutor \<Rightarrow> duration" where
  "registrationPollInterval e = (if Pv_RegistrationPollInterval e \<le> 0 then second div 4 else Pv_RegistrationPollInterval e)"

definition workFolder :: "'w ProvisionExecutor \<Rightarrow> string" where
  "workFolder e = (if Pv_WorkFolder e = [] then ''_work'' else Pv_WorkFolder e)"

definition Pv_advance :: "'w ProvisionExecutor \<Rightarrow> DurableInstance \<Rightarrow> InstanceState \<Rightarrow> ('w run, pass) state" where
  "Pv_advance e i nxt = do { r \<leftarrow> State_Advance (Pv_Env e) (change_to i nxt); State_Monad.return (Goes_On r) }"

definition registered_once :: "'w Registration \<Rightarrow> string \<Rightarrow> ('w run, bool) state \<Rightarrow> ('w run, bool) state" where
  "registered_once reg k again = do {
     registered \<leftarrow> perform (RegisteredRead k) (Reg_Registered reg k);
     (case registered of
        None \<Rightarrow> State_Monad.return False
      | Some True \<Rightarrow> State_Monad.return True
      | Some False \<Rightarrow> again)
   }"

fun registered_loop :: "'w Registration \<Rightarrow> string \<Rightarrow> nat \<Rightarrow> ('w run, bool) state" where
  "registered_loop reg k 0 = registered_once reg k (State_Monad.return False)"
| "registered_loop reg k (Suc n) = registered_once reg k (registered_loop reg k n)"

definition waitRegistered :: "'w ProvisionExecutor \<Rightarrow> 'w Registration \<Rightarrow> string \<Rightarrow> ('w run, bool) state" where
  "waitRegistered e reg k = do {
     n \<leftarrow> polls (Pv_Env e) (registrationTimeout e) (registrationPollInterval e);
     registered_loop reg k n
   }"

section \<open>The passes\<close>

definition pass_planned :: "'w ProvisionExecutor \<Rightarrow> DurableInstance \<Rightarrow> ('w run, pass) state" where
  "pass_planned e i =
     (let img = Pv_Bases e (DI_Platform i);
          spec = \<lparr>Spec_Name = DI_ID i, Spec_Image = img, Spec_CPU = CPU (DI_Resources i), Spec_MemoryMB = MemoryMB (DI_Resources i),
                  Spec_DiskGB = Pv_DiskGiB e (DI_Profile i), Spec_Ownership = DI_Ownership i\<rparr>
      in case Pv_VM e of
           None \<Rightarrow> State_Monad.return (failed StageClone)
         | Some vm \<Rightarrow>
             if ValidateImageReference img \<noteq> Inr () then State_Monad.return (failed StageClone)
             else do {
               ok \<leftarrow> perform (CreateCalled spec) (VM_Create vm spec);
               (if \<not> ok then State_Monad.return (failed StageClone) else Pv_advance e i InstanceCloning)
             })"

definition pass_cloning :: "'w ProvisionExecutor \<Rightarrow> DurableInstance \<Rightarrow> ('w run, pass) state" where
  "pass_cloning e i =
     (case Pv_VM e of
        None \<Rightarrow> State_Monad.return (failed StageStart)
      | Some vm \<Rightarrow> do {
          ok \<leftarrow> perform (StartCalled (DI_ID i) (DI_Ownership i)) (VM_Start vm (DI_ID i) (DI_Ownership i));
          (if \<not> ok then State_Monad.return (failed StageStart) else Pv_advance e i InstanceBooting)
        })"

definition pass_booting :: "'w ProvisionExecutor \<Rightarrow> DurableInstance \<Rightarrow> ('w run, pass) state" where
  "pass_booting e i =
     (case Pv_Ready e of
        None \<Rightarrow> State_Monad.return (failed StageReady)
      | Some wait \<Rightarrow> do {
          ok \<leftarrow> perform (ReadyWaited (DI_ID i)) (wait i);
          (if \<not> ok then State_Monad.return (failed StageReady) else Pv_advance e i InstanceReachable)
        })"

text \<open>The secret is used once and destroyed on every way out.\<close>

definition bootstrap_with :: "'w ProvisionExecutor \<Rightarrow> 'w Registration \<Rightarrow> (string \<Rightarrow> string \<Rightarrow> string list \<Rightarrow> ('w, stageError option option) port)
    \<Rightarrow> DurableInstance \<Rightarrow> string \<Rightarrow> ('w run, pass) state" where
  "bootstrap_with e reg bootstrap i secret = do {
     err \<leftarrow> perform (Bootstrapped (DI_ID i) secret (Pv_Capabilities e (DI_Profile i))) (bootstrap (DI_ID i) secret (Pv_Capabilities e (DI_Profile i)));
     perform (\<lambda>_. SecretDestroyed secret) (\<lambda>v. ((), v));
     (case err of
        Some cause \<Rightarrow> do {
          perform (RegistrationReset (DI_ID i)) (Reg_ResetRegistration reg (DI_ID i));
          State_Monad.return (Return (Some (Staged (bootstrapFailure cause))))
        }
      | None \<Rightarrow> Pv_advance e i InstanceRegistering)
   }"

definition acquire_and_bootstrap :: "'w ProvisionExecutor \<Rightarrow> 'w Registration \<Rightarrow> (string \<Rightarrow> string \<Rightarrow> string list \<Rightarrow> ('w, stageError option option) port)
    \<Rightarrow> DurableInstance \<Rightarrow> ('w run, pass) state" where
  "acquire_and_bootstrap e reg bootstrap i = do {
     answer \<leftarrow> perform (JITAcquired (Key_JobID (DI_Demand i)) (DI_ID i) (workFolder e)) (Reg_AcquireAndGenerateJIT reg (Key_JobID (DI_Demand i)) (DI_ID i) (workFolder e));
     (case snd answer of
        None \<Rightarrow> State_Monad.return (failed StageAcquire)
      | Some secret \<Rightarrow>
          if \<not> fst answer \<or> secret = [] then do {
            perform (\<lambda>_. SecretDestroyed secret) (\<lambda>v. ((), v));
            State_Monad.return (failed StageAcquire)
          }
          else bootstrap_with e reg bootstrap i secret)
   }"

definition pass_reachable :: "'w ProvisionExecutor \<Rightarrow> DurableInstance \<Rightarrow> ('w run, pass) state" where
  "pass_reachable e i =
     (case (Pv_Registration e, Pv_Bootstrap e) of
        (Some reg, Some bootstrap) \<Rightarrow> do {
          registered \<leftarrow> perform (RegisteredRead (DI_ID i)) (Reg_Registered reg (DI_ID i));
          (case registered of
             None \<Rightarrow> State_Monad.return (failed StageRegister)
           | Some True \<Rightarrow> do {
               ok \<leftarrow> perform (RegistrationReset (DI_ID i)) (Reg_ResetRegistration reg (DI_ID i));
               (if \<not> ok then State_Monad.return (failed StageRegister) else acquire_and_bootstrap e reg bootstrap i)
             }
           | Some False \<Rightarrow> acquire_and_bootstrap e reg bootstrap i)
        }
      | _ \<Rightarrow> State_Monad.return (failed StageAcquire))"

definition pass_registering :: "'w ProvisionExecutor \<Rightarrow> DurableInstance \<Rightarrow> ('w run, pass) state" where
  "pass_registering e i =
     (case Pv_Registration e of
        None \<Rightarrow> State_Monad.return (failed StageRegister)
      | Some reg \<Rightarrow> do {
          ok \<leftarrow> waitRegistered e reg (DI_ID i);
          (if \<not> ok then do {
             ended \<leftarrow> ctx_Err (Pv_Env e);
             State_Monad.return (case ended of Some x \<Rightarrow> Return (Some (Context x)) | None \<Rightarrow> failed StageRegister)
           }
           else Pv_advance e i InstanceAssigned)
        })"

fun provision_arm :: "'w ProvisionExecutor \<Rightarrow> DurableInstance \<Rightarrow> InstanceState \<Rightarrow> ('w run, pass) state" where
  "provision_arm e i InstanceAssigned = State_Monad.return (Return None)"
| "provision_arm e i InstanceRunning = State_Monad.return (Return None)"
| "provision_arm e i InstanceDraining = State_Monad.return (Return None)"
| "provision_arm e i InstanceDeregistering = State_Monad.return (Return None)"
| "provision_arm e i InstanceStopping = State_Monad.return (Return None)"
| "provision_arm e i InstanceDeleted = State_Monad.return (Return None)"
| "provision_arm e i InstanceOnlineIdle = Pv_advance e i InstanceAssigned"
| "provision_arm e i InstanceFailed = State_Monad.return (failed StagePersist)"
| "provision_arm e i InstancePlanned = pass_planned e i"
| "provision_arm e i InstanceCloning = pass_cloning e i"
| "provision_arm e i InstanceBooting = pass_booting e i"
| "provision_arm e i InstanceReachable = pass_reachable e i"
| "provision_arm e i InstanceRegistering = pass_registering e i"
| "provision_arm e i (InstanceOther _) = State_Monad.return (Return (Some (Op ErrConflict)))"

definition provision_pass :: "'w ProvisionExecutor \<Rightarrow> DurableInstance \<Rightarrow> ('w run, pass) state" where
  "provision_pass e i = provision_arm e i (DI_State i)"

definition Provision_Execute :: "'w ProvisionExecutor \<Rightarrow> DurableOperation \<Rightarrow> ('w run, exec_error option) state" where
  "Provision_Execute e q =
     (if \<not> Pv_State e \<or> DO_Kind q \<noteq> OperationProvisionKind \<or> DO_ResourceID q = [] then State_Monad.return (Some (Op ErrInvalid))
      else on_owned (DO_ResourceID q) (pass_loop (Pv_Env e) (provision_pass e) 8))"

section \<open>What a provisioning may do\<close>

definition created :: "string \<Rightarrow> port_call list \<Rightarrow> bool" where
  "created k recent = list_ex (\<lambda>c. case c of CreateCalled spec ok \<Rightarrow> Spec_Name spec = k \<and> ok | _ \<Rightarrow> False) recent"

definition bootstrapped :: "string \<Rightarrow> port_call list \<Rightarrow> bool" where
  "bootstrapped k recent = list_ex (\<lambda>c. case c of Bootstrapped k' secret _ None \<Rightarrow> k' = k \<and> SecretDestroyed secret \<in> set recent | _ \<Rightarrow> False) recent"

text \<open>Nothing was bootstrapped yet.\<close>

definition unused :: "port_call list \<Rightarrow> bool" where
  "unused recent = list_all (\<lambda>c. case c of Bootstrapped _ _ _ _ \<Rightarrow> False | _ \<Rightarrow> True) recent"

definition provision_change :: "DurableInstance \<Rightarrow> port_call list \<Rightarrow> StateChange \<Rightarrow> bool" where
  "provision_change i recent c \<longleftrightarrow>
     (DI_State i = InstancePlanned \<and> c = change_to i InstanceCloning \<and> created (DI_ID i) recent)
   \<or> (DI_State i = InstanceCloning \<and> c = change_to i InstanceBooting \<and> StartCalled (DI_ID i) (DI_Ownership i) True \<in> set recent)
   \<or> (DI_State i = InstanceBooting \<and> c = change_to i InstanceReachable \<and> ReadyWaited (DI_ID i) True \<in> set recent)
   \<or> (DI_State i = InstanceReachable \<and> c = change_to i InstanceRegistering \<and> bootstrapped (DI_ID i) recent)
   \<or> (DI_State i = InstanceRegistering \<and> c = change_to i InstanceAssigned \<and> RegisteredRead (DI_ID i) (Some True) \<in> set recent)
   \<or> (DI_State i = InstanceOnlineIdle \<and> c = change_to i InstanceAssigned)"

definition provision_may :: "standing \<Rightarrow> port_call \<Rightarrow> bool" where
  "provision_may st c =
     (case st of (None, recent) \<Rightarrow> (case c of InstanceRead _ _ \<Rightarrow> True | _ \<Rightarrow> False)
      | (Some i, recent) \<Rightarrow>
          (case c of
             CreateCalled spec _ \<Rightarrow> DI_State i = InstancePlanned \<and> Spec_Name spec = DI_ID i \<and> Spec_Ownership spec = DI_Ownership i
               \<and> Spec_CPU spec = CPU (DI_Resources i) \<and> Spec_MemoryMB spec = MemoryMB (DI_Resources i)
               \<and> ValidateImageReference (Spec_Image spec) = Inr ()
           | StartCalled k own _ \<Rightarrow> DI_State i = InstanceCloning \<and> k = DI_ID i \<and> own = DI_Ownership i
           | JITAcquired job k _ _ \<Rightarrow> DI_State i = InstanceReachable \<and> k = DI_ID i \<and> job = Key_JobID (DI_Demand i)
               \<and> (RegisteredRead k (Some False) \<in> set recent \<or> RegistrationReset k True \<in> set recent)
           | Bootstrapped k secret _ _ \<Rightarrow> DI_State i = InstanceReachable \<and> k = DI_ID i \<and> secret \<noteq> []
               \<and> (\<exists>folder. JITAcquired (Key_JobID (DI_Demand i)) k folder (True, Some secret) \<in> set recent) \<and> SecretDestroyed secret \<notin> set recent
               \<and> unused recent
           | RegistrationReset k _ \<Rightarrow> DI_State i = InstanceReachable \<and> k = DI_ID i
           | Changed change _ \<Rightarrow> provision_change i recent change
           | StopCalled _ _ _ \<Rightarrow> False | TerminateCalled _ _ _ \<Rightarrow> False | DestroyCalled _ _ _ \<Rightarrow> False | DeleteCalled _ _ _ \<Rightarrow> False
           | Deregistered _ _ \<Rightarrow> False | InstanceRead _ _ \<Rightarrow> False
           | _ \<Rightarrow> True))"

fun provision_protocol :: "standing \<Rightarrow> port_call list \<Rightarrow> bool" where
  "provision_protocol st [] = True"
| "provision_protocol st (c # calls) = (provision_may st c \<and> provision_protocol (track c st) calls)"

text \<open>Every secret the broker hands out is destroyed later in the run.\<close>

fun secrets_destroyed :: "port_call list \<Rightarrow> bool" where
  "secrets_destroyed [] = True"
| "secrets_destroyed (JITAcquired _ _ _ (_, Some secret) # calls) = (SecretDestroyed secret \<in> set calls \<and> secrets_destroyed calls)"
| "secrets_destroyed (_ # calls) = secrets_destroyed calls"

section \<open>The executor keeps to it\<close>

lemma provision_protocol_append:
  "provision_protocol st (xs @ ys) \<longleftrightarrow> provision_protocol st xs \<and> provision_protocol (fold track xs st) ys"
  by (induction xs arbitrary: st) auto

definition provisions :: "DurableInstance \<Rightarrow> pass \<Rightarrow> port_call list \<Rightarrow> bool" where
  "provisions i p calls \<longleftrightarrow> secrets_destroyed calls \<and> p \<noteq> Return None
     \<and> (\<forall>recent. list_all waiting_call recent \<longrightarrow> provision_protocol (Some i, recent) calls
        \<and> (case p of Goes_On (Inr i') \<Rightarrow> fold track calls (Some i, recent) = (Some i', []) | _ \<Rightarrow> True))"

lemmas provision_defs = provisions_def created_def bootstrapped_def provision_may_def provision_change_def Pv_advance_def State_Advance_def ctx_Err_def

lemma pass_planned_ok: "DI_State i = InstancePlanned \<Longrightarrow> appends (pass_planned e i) (provisions i)"
  unfolding pass_planned_def Let_def Pv_advance_def State_Advance_def
  by (intro appends_rules) (auto simp: provision_defs split: sum.splits)

lemma pass_cloning_ok: "DI_State i = InstanceCloning \<Longrightarrow> appends (pass_cloning e i) (provisions i)"
  unfolding pass_cloning_def Pv_advance_def State_Advance_def
  by (intro appends_rules) (auto simp: provision_defs split: sum.splits)

lemma pass_booting_ok: "DI_State i = InstanceBooting \<Longrightarrow> appends (pass_booting e i) (provisions i)"
  unfolding pass_booting_def Pv_advance_def State_Advance_def
  by (intro appends_rules) (auto simp: provision_defs split: sum.splits)

lemma pass_idle_ok: "DI_State i = InstanceOnlineIdle \<Longrightarrow> appends (Pv_advance e i InstanceAssigned) (provisions i)"
  unfolding Pv_advance_def State_Advance_def
  by (intro appends_rules) (auto simp: provision_defs split: sum.splits)

lemma registered_loop_ok:
  "appends (registered_loop reg k n) (\<lambda>ok calls. (\<forall>c\<in>set calls. \<exists>x. c = RegisteredRead k x) \<and> (ok \<longrightarrow> RegisteredRead k (Some True) \<in> set calls))"
proof (induction n)
  case 0
  show ?case unfolding registered_loop.simps registered_once_def by (intro appends_rules; simp)
next
  case (Suc n)
  show ?case unfolding registered_loop.simps registered_once_def by (intro appends_rules; auto intro!: appends_mono [OF Suc])
qed

lemma reads_provision:
  "\<forall>c\<in>set calls. \<exists>x. c = RegisteredRead k x \<Longrightarrow> provision_protocol (Some i, recent) calls
     \<and> fold track calls (Some i, recent) = (Some i, recent @ calls) \<and> secrets_destroyed calls"
  by (induction calls arbitrary: recent) (auto simp: provision_may_def)


lemma pass_registering_ok:
  assumes "DI_State i = InstanceRegistering"
  shows "appends (pass_registering e i) (provisions i)"
  unfolding pass_registering_def waitRegistered_def
proof (rule appends_option)
  fix reg
  have wait: "appends (do { n \<leftarrow> polls (Pv_Env e) (registrationTimeout e) (registrationPollInterval e); registered_loop reg (DI_ID i) n })
      (\<lambda>ok calls. (\<forall>c\<in>set calls. \<exists>x. c = RegisteredRead (DI_ID i) x) \<and> (ok \<longrightarrow> RegisteredRead (DI_ID i) (Some True) \<in> set calls))"
    by (intro appends_rules registered_loop_ok)
  show "appends (do {
      ok \<leftarrow> do { n \<leftarrow> polls (Pv_Env e) (registrationTimeout e) (registrationPollInterval e); registered_loop reg (DI_ID i) n };
      (if \<not> ok then do { ended \<leftarrow> ctx_Err (Pv_Env e); State_Monad.return (case ended of Some x \<Rightarrow> Return (Some (Context x)) | None \<Rightarrow> failed StageRegister) }
       else Pv_advance e i InstanceAssigned) }) (provisions i)"
  proof (rule appends_bind [OF wait], elim conjE)
    fix ok calls
    assume calls: "\<forall>c\<in>set calls. \<exists>x. c = RegisteredRead (DI_ID i) x" "ok \<longrightarrow> RegisteredRead (DI_ID i) (Some True) \<in> set calls"
    have destroyed: "secrets_destroyed (calls @ more') \<longleftrightarrow> secrets_destroyed more'" for more'
      using calls(1) by (induction calls) auto
    show "appends (if \<not> ok then do { ended \<leftarrow> ctx_Err (Pv_Env e); State_Monad.return (case ended of Some x \<Rightarrow> Return (Some (Context x)) | None \<Rightarrow> failed StageRegister) }
        else Pv_advance e i InstanceAssigned) (\<lambda>p more. provisions i p (calls @ more))"
      unfolding Pv_advance_def State_Advance_def ctx_Err_def
      by (intro appends_rules) (use assms calls reads_provision [OF calls(1)] in
        \<open>auto simp: provision_defs provision_protocol_append destroyed split: sum.splits option.splits\<close>)
  qed
qed (auto intro!: appends_return simp: provisions_def)

lemma fresh_secret: "list_all waiting_call recent \<Longrightarrow> SecretDestroyed secret \<notin> set recent"
  by (induction recent) auto

lemma waiting_unused: "list_all waiting_call recent \<Longrightarrow> unused recent"
  unfolding unused_def by (erule list.pred_mono_strong) (auto split: port_call.splits)

lemma unused_append [simp]: "unused (xs @ ys) \<longleftrightarrow> unused xs \<and> unused ys" by (simp add: unused_def)

lemma unused_Cons [simp]: "unused (c # xs) \<longleftrightarrow> (case c of Bootstrapped _ _ _ _ \<Rightarrow> False | _ \<Rightarrow> True) \<and> unused xs" by (simp add: unused_def)

lemma unused_Nil [simp]: "unused []" by (simp add: unused_def)

lemma acquire_ok:
  assumes "DI_State i = InstanceReachable"
    and "seen = [RegisteredRead (DI_ID i) (Some False)] \<or> seen = [RegisteredRead (DI_ID i) (Some True), RegistrationReset (DI_ID i) True]"
  shows "appends (acquire_and_bootstrap e reg bootstrap i) (\<lambda>p more. provisions i p (seen @ more))"
  unfolding acquire_and_bootstrap_def bootstrap_with_def Pv_advance_def State_Advance_def
  by (intro appends_rules) (use assms in \<open>auto simp: provision_defs waiting_unused dest: fresh_secret split: sum.splits option.splits\<close>)

lemma pass_reachable_ok:
  assumes "DI_State i = InstanceReachable"
  shows "appends (pass_reachable e i) (provisions i)"
proof (cases "Pv_Registration e"; cases "Pv_Bootstrap e")
  fix reg bootstrap
  assume ports: "Pv_Registration e = Some reg" "Pv_Bootstrap e = Some bootstrap"
  show ?thesis unfolding pass_reachable_def ports prod.case option.case
    by (intro appends_rules)
      (use assms acquire_ok [OF assms, of "[RegisteredRead (DI_ID i) (Some False)]" e reg bootstrap]
         acquire_ok [OF assms, of "[RegisteredRead (DI_ID i) (Some True), RegistrationReset (DI_ID i) True]" e reg bootstrap] in
       \<open>auto simp: provisions_def provision_may_def\<close>)
qed (auto simp: pass_reachable_def provisions_def intro!: appends_return)

lemma provision_pass_ok:
  "appends (provision_pass e i) (\<lambda>p calls. provisions i p calls \<or> (p = Return None \<and> calls = []
      \<and> DI_State i \<in> {InstanceAssigned, InstanceRunning, InstanceDraining, InstanceDeregistering, InstanceStopping, InstanceDeleted}))"
  by (cases "DI_State i")
    (auto simp: provision_pass_def provisions_def intro!: appends_return appends_mono [OF pass_planned_ok] appends_mono [OF pass_cloning_ok]
      appends_mono [OF pass_booting_ok] appends_mono [OF pass_reachable_ok] appends_mono [OF pass_registering_ok] appends_mono [OF pass_idle_ok])

section \<open>Whole runs\<close>

definition settled :: "standing \<Rightarrow> bool" where
  "settled st \<longleftrightarrow> (\<exists>i. fst st = Some i
     \<and> DI_State i \<in> {InstanceAssigned, InstanceRunning, InstanceDraining, InstanceDeregistering, InstanceStopping, InstanceDeleted})"

definition provision_run :: "standing \<Rightarrow> exec_error option \<Rightarrow> port_call list \<Rightarrow> bool" where
  "provision_run st r calls \<longleftrightarrow> provision_protocol st calls \<and> secrets_destroyed calls \<and> (r = None \<longrightarrow> settled (fold track calls st))"

lemma secrets_destroyed_append: "secrets_destroyed xs \<Longrightarrow> secrets_destroyed ys \<Longrightarrow> secrets_destroyed (xs @ ys)"
  by (induction xs rule: secrets_destroyed.induct) auto

lemma provision_loop_ok:
  "appends (pass_loop (Pv_Env e) (provision_pass e) n i) (\<lambda>r calls. \<forall>recent. list_all waiting_call recent \<longrightarrow> provision_run (Some i, recent) r calls)"
proof (induction n arbitrary: i)
  case 0
  show ?case by (simp add: appends_return provision_run_def)
next
  case (Suc n)
  have looked: "provision_run (Some i, recent) r (ContextRead x # calls) \<longleftrightarrow> provision_run (Some i, recent @ [ContextRead x]) r calls" for recent r x calls
    by (auto simp: provision_run_def provision_may_def)
  have step: "appends (do { p \<leftarrow> provision_pass e i; (case p of Return r \<Rightarrow> State_Monad.return r
      | Goes_On r \<Rightarrow> (case r of Inl _ \<Rightarrow> State_Monad.return (Some (Staged (safeError StagePersist))) | Inr i' \<Rightarrow> pass_loop (Pv_Env e) (provision_pass e) n i')) })
      (\<lambda>r calls. \<forall>recent. list_all waiting_call recent \<longrightarrow> provision_run (Some i, recent) r calls)"
  proof (rule appends_bind [OF provision_pass_ok])
    fix p calls
    assume "provisions i p calls \<or> p = Return None \<and> calls = []
      \<and> DI_State i \<in> {InstanceAssigned, InstanceRunning, InstanceDraining, InstanceDeregistering, InstanceStopping, InstanceDeleted}"
    then consider "provisions i p calls" | "p = Return None" "calls = []" "\<And>recent. settled (Some i, recent)"
      by (auto simp: settled_def)
    then show "appends (case p of Return r \<Rightarrow> State_Monad.return r
        | Goes_On r \<Rightarrow> (case r of Inl _ \<Rightarrow> State_Monad.return (Some (Staged (safeError StagePersist))) | Inr i' \<Rightarrow> pass_loop (Pv_Env e) (provision_pass e) n i'))
      (\<lambda>r more. \<forall>recent. list_all waiting_call recent \<longrightarrow> provision_run (Some i, recent) r (calls @ more))"
    proof cases
      case 1
      then show ?thesis
        by (auto intro!: appends_return appends_mono [OF Suc] secrets_destroyed_append
          simp: provisions_def provision_run_def provision_protocol_append split: pass.split sum.split)
    qed (auto intro!: appends_return simp: provision_run_def)
  qed
  show ?case by (simp add: ctx_Err_def, intro appends_rules; simp add: looked)
    (auto intro!: appends_mono [OF step] simp: provision_run_def)
qed

lemma Provision_Execute_ok: "appends (Provision_Execute e q) (\<lambda>r calls. provision_run (None, []) r calls)"
proof -
  have loop: "appends (pass_loop (Pv_Env e) (provision_pass e) 8 i) (\<lambda>r calls. provision_run (Some i, []) r calls)" for i
    by (rule appends_mono [OF provision_loop_ok]) simp
  have "appends (on_owned (DO_ResourceID q) (pass_loop (Pv_Env e) (provision_pass e) 8)) (\<lambda>r calls. provision_run (None, []) r calls)"
    unfolding on_owned_def State_Instance_def
    by (intro appends_rules appends_mono [OF loop]) (auto simp: provision_run_def provision_may_def)
  then show ?thesis unfolding Provision_Execute_def by (intro appends_rules) (auto simp: provision_run_def)
qed

text \<open>
  C10. Whatever the surroundings answer, a provisioning creates an instance only while it is planned, with its own resources and
  ownership, starts it only once it is cloned, asks for a runner secret only after it saw that no runner of that name is
  registered or removed it, and bootstraps its own guest with that secret at most once between two answers of the store, before
  the secret is destroyed; it destroys every secret it was handed, records a new state only after the step that reaches it, and
  never stops, deletes or deregisters anything. It returns no error only if the store last reported the instance serving or
  being torn down.
\<close>

theorem provision_keeps_to_its_steps:
  assumes "run_state (Provision_Execute e q) \<lparr>Run_World = world, Run_Log = []\<rparr> = (result, r)"
  shows "provision_protocol (None, []) (Run_Log r) \<and> secrets_destroyed (Run_Log r)
     \<and> (result = None \<longrightarrow> settled (fold track (Run_Log r) (None, [])))"
  using appends_log [OF Provision_Execute_ok assms] by (simp add: provision_run_def)

section \<open>A provisioning evaluated\<close>

definition fx_provisioner :: "unit ProvisionExecutor" where
  "fx_provisioner = \<lparr>Pv_State = True, Pv_VM = Some fx_vm, Pv_Ready = None,
     Pv_Registration = Some \<lparr>Reg_Registered = (\<lambda>_ v. (Some False, v)), Reg_ResetRegistration = (\<lambda>_ v. (True, v)),
       Reg_AcquireAndGenerateJIT = (\<lambda>_ _ _ v. ((True, Some ''jit''), v))\<rparr>,
     Pv_Bootstrap = Some (\<lambda>_ _ _ v. (Some None, v)), Pv_Bases = (\<lambda>_. ''base''), Pv_DiskGiB = (\<lambda>_. 0), Pv_Capabilities = (\<lambda>_. []),
     Pv_WorkFolder = [], Pv_RegistrationTimeout = 0, Pv_RegistrationPollInterval = 0, Pv_Env = fx_env\<rparr>"

definition fx_provisioned :: "exec_error option \<times> unit run" where
  "fx_provisioned = run_state (Provision_Execute fx_provisioner (fx_outbox ''spawn'' ''clone'' ''old'' [])) (fx_found InstanceReachable)"

lemma fx_provisioned_calls: "SecretDestroyed ''jit'' \<in> set (Run_Log (snd fx_provisioned))"
proof -
  obtain s where world: "fx_found InstanceReachable = \<lparr>Run_World = (s, ()), Run_Log = []\<rparr>" by (simp add: fx_found_def)
  let ?found = "store_Instance ''old'' (fst (Run_World (fx_found InstanceReachable)))"
  have "isl ?found = False" "validateOwned (projr ?found) ''old'' = True" "DI_State (projr ?found) = InstanceReachable" by code_simp+
  then obtain i where i: "store_Instance ''old'' s = Inr i" "validateOwned i ''old''" "DI_State i = InstanceReachable"
    by (cases "store_Instance ''old'' s") (auto simp: world)
  have kind: "DO_Kind (fx_outbox ''spawn'' ''clone'' ''old'' []) = OperationProvisionKind" "DO_ResourceID (fx_outbox ''spawn'' ''clone'' ''old'' []) = ''old''"
    by (simp_all add: fx_outbox_def OperationProvisionKind_def)
  have reach: "\<exists>r'. run_state (provision_pass fx_provisioner i) r = (Return (Some (Staged (bootstrapFailure None))), r') \<and> SecretDestroyed ''jit'' \<in> set (Run_Log r')" for r
    using i(3) by (simp add: provision_pass_def pass_reachable_def acquire_and_bootstrap_def bootstrap_with_def fx_provisioner_def perform_def
      State_Monad.bind_def State_Monad.return_def)
  have ports: "Env_Err (Pv_Env fx_provisioner) = (\<lambda>v. (None, v))" "Pv_State fx_provisioner" by (simp_all add: fx_provisioner_def fx_env_def)
  have "SecretDestroyed ''jit'' \<in> set (Run_Log (snd (run_state (pass_loop (Pv_Env fx_provisioner) (provision_pass fx_provisioner) (Suc n) i) r)))" for n r
    using reach [of "r\<lparr>Run_Log := Run_Log r @ [ContextRead None]\<rparr>"] ports by (auto simp: ctx_Err_def perform_def State_Monad.bind_def State_Monad.return_def)
  then have "SecretDestroyed ''jit'' \<in> set (Run_Log (snd (run_state (pass_loop (Pv_Env fx_provisioner) (provision_pass fx_provisioner) 8 i) r)))" for r
    using numeral_eq_Suc by presburger
  then show ?thesis
    by (simp add: fx_provisioned_def Provision_Execute_def kind ports on_owned_def State_Instance_def perform_def State_Monad.bind_def world i)
qed

theorem provision_keeps_to_its_steps_witness:
  "SecretDestroyed ''jit'' \<in> set (Run_Log (snd fx_provisioned)) \<and> secrets_destroyed (Run_Log (snd fx_provisioned))
     \<and> provision_protocol (None, []) (Run_Log (snd fx_provisioned))"
proof -
  have "run_state (Provision_Execute fx_provisioner (fx_outbox ''spawn'' ''clone'' ''old'' [])) \<lparr>Run_World = Run_World (fx_found InstanceReachable), Run_Log = []\<rparr>
      = (fst fx_provisioned, snd fx_provisioned)" by (simp add: fx_provisioned_def fx_found_def)
  then show ?thesis using provision_keeps_to_its_steps fx_provisioned_calls by blast
qed

end
