(* ===== verification/Spec2Isabelle.thy ===== *)
theory Spec2Isabelle
  imports Boundary_Cases Headroom Membership Authority Stored_Text Provision_Executor
begin

text \<open>
  A verification library for the runner fleet: a daemon that turns queued GitHub Actions jobs into
  virtual machines on one host. Every tick it observes the queue, the instances and the host, asks a
  pure planner for a list of operations, and commits them.

  \<^bold>\<open>Parts and theories.\<close>
  \<^item> \<open>Prelude\<close>: instants and saturating durations as Go's \<open>time\<close> package has them, the sort package over a
    comparator, and the contract a comparator owes its caller (locales \<open>less_order\<close> and \<open>keyed_order\<close>).
  \<^item> \<open>Priority\<close>, \<open>Guest_Liveness\<close>, \<open>Domain\<close>, \<open>Corroboration\<close> model \<open>internal/domain\<close>: tiers and their pattern
    language, the liveness accumulator (locale \<open>observation_source\<close>, interpreted for guest probes and for
    power readings), keys, vectors, the instance state machine, corroborated power and the empty-exit hold.
  \<^item> \<open>Content_Address\<close>: SHA-256, hexadecimal and the JSON encoding behind \<open>stableID\<close>.
  \<^item> \<open>Scheduler_Types\<close>, \<open>Recovery\<close>, \<open>Admission_Envelope\<close>, \<open>Ordering\<close>, \<open>Fair_Share\<close>, \<open>Exact_Select\<close>,
    \<open>Linux_Planner\<close>, \<open>Mac_Planner\<close> and \<open>Plan_Tick\<close> model \<open>internal/scheduler/scheduler.go\<close>, in the order of that
    file: data, recoveries, capacity, the order of the queue, the exact allocator, the Linux pass with
    its reservation, the macOS pass with the handoffs and the complementary passes, and the tick.
  \<^item> \<open>Admission_Machine\<close> is the abstract machine of a tick: drains, then admissions that charge the envelope, the
    caps and the cohorts. \<open>Pass_Refinement\<close> shows that every pass is a run of it; \<open>Tick_Safety\<close> draws the properties
    of whole ticks from that; \<open>Boundary_Cases\<close> holds the inputs on which the code does not keep what it means to.
  \<^item> \<open>Headroom\<close> models \<open>internal/scheduler/headroom.go\<close>, \<open>Membership\<close> \<open>internal/membership\<close>.
  \<^item> \<open>Operations\<close> models \<open>internal/operations\<close>: durable instances, operations and plans, their validity and
    digest, retries and dead letters. \<open>Failure_Codes\<close> holds the failures of \<open>internal/lifecycle\<close>, their stored text and
    the stop ladder.
  \<^item> \<open>Durable_Store\<close> models the methods of \<open>internal/adapters/sqlite\<close> as functions on tables; \<open>Outbox_Invariant\<close> shows what
    every transaction keeps, \<open>Outbox_Safety\<close> what the store promises its clients in every state they can reach; there, the
    relation \<open>other_step\<close> holds what the others may commit while one worker's claim lasts. \<open>Stored_Text\<close> reads the JSON columns of an
    instance back from their text. \<open>Authority\<close> puts the lease guards of \<open>internal/daemon/runtime.go\<close> on top of the store.
  \<^item> \<open>Json_Text\<close> and \<open>Reconcile\<close> model \<open>internal/reconcile\<close>: the JSON text of the scheduler state, and the commit that joins the
    planner to the store. It writes each operation of a plan once, and a plan without news writes nothing.
  \<^item> \<open>Executor_Ports\<close>, \<open>Drain_Executor\<close> and \<open>Provision_Executor\<close> model the executors of \<open>internal/lifecycle/executor.go\<close> in the state monad.
    A port is any function on the database and the rest of the world, so whatever an adapter answers and whatever other
    clients commit meanwhile is covered; a run records its calls, and the theorems state what every call rests on.
  \<^item> \<open>Fixture\<close>: a small fleet the concrete evaluations use.

  \<^bold>\<open>Correspondence.\<close> A definition carries the name of the Go function it translates; a loop with local
  state is a recursive function over the remaining elements with that state as arguments. A struct is a
  record, an enumeration of strings a datatype with one constructor for every other string, a nil-able
  pointer an option. The planner is pure in the source, so the model is a function from \<open>Input\<close> to
  \<open>Plan\<close>. An index out of range, where the source panics, is \<^const>\<open>None\<close>.

  The store is a record of tables; a method returns the store after its transaction, or the error that rolled
  it back. A statement that updates rows is \<open>sql_update\<close>, the number of rows it reports \<open>sql_count\<close>.

  \<^bold>\<open>Modelling choices.\<close> Resource vectors and counters are unbounded integers; only the instants and durations that the source
  computes near their limits wrap or saturate. The float factor 0.75 of the occupancy warning is an integer quotient.
  \<open>strings.ToLower\<close> acts on ASCII letters and leaves other bytes. The JSON printer assumes UTC instants and valid UTF-8, and
  prints a raw message as it is, without the compaction and validation of \<open>json.Marshal\<close>. The ownership and scheduling metadata
  columns are records in \<open>Durable_Store\<close>; \<open>Stored_Text\<close> shows that their JSON text carries the same information, for machine
  integers and ASCII strings. \<open>Commit\<close> reads and writes one state of the store, while the source issues its reads before the
  transaction, which then checks versions again. The controllers of \<open>Authority\<close> read one clock that never runs backwards and have
  distinct owner names; a guard that lost its lease does not release it. A step of \<open>acquireAuthorityLease\<close> takes the two
  readings of the clock and the store it meets as arguments; the pace of the steps is a hypothesis where it matters.

  \<^bold>\<open>Bounds and fuel.\<close> The round-robin loop of \<open>fairOrder\<close> terminates because a round beyond the longest queue adds
  nothing; the search of \<open>exactSelect\<close> because every call has fewer candidates left; the rounds of
  \<open>PartitionHeadroom\<close> because each grant lowers what is wanted. The depth-first search of a plan's dependencies has fuel
  one above the number of operations, which \<open>Operations\<close> proves enough. The JSON decoder has fuel
  twice the length of its text, which \<open>Json_Text\<close> proves enough. A wait of an executor ends at its deadline: how often its poll
  timer fires before is a parameter of the surroundings. Instants in the tables are 64-bit
  counts and wrap around; the statements on leases assume instants in the range of these counts.

  \<^bold>\<open>Not modelled.\<close> The adapters for GitHub, Tart, Podman and the hosts, the daemon's other loops, the command line,
  telemetry and the update mechanism perform input and output; what the executors need of them is a port with arbitrary
  answers. The assembly of the planner's input, the configuration file, the demand inbox apart from the update of an
  instance's binding, the worker's goroutines, the control router and the guest bootstrap are not modelled; the manifest lists
  every part with its reason. Failures of the database driver itself are not modelled: a transaction either commits or leaves
  the tables as they were. The host's pressure reading is diagnostic and no decision reads it.
\<close>

end
